(* ===== verification/Rk8s_Prelude.thy ===== *)
theory Rk8s_Prelude
  imports
    Main
    "HOL-Library.AList"
    "HOL-Library.Word"
    "HOL-Library.Char_ord"
    "HOL-Library.List_Lexorder"
    "HOL-Library.Product_Lexorder"
    "HOL-Library.Multiset"
begin

text \<open>
  Shared ground of the development: the machine types of the Rust sources, the saturating and
  wrapping operations they use, \<open>HashMap\<close> and \<open>BinaryHeap\<close> of the standard library,
  integer parsing, and the interface of a keyed store as a locale.

  Arithmetic. The images are built with \<open>cargo build --release\<close> (\<open>project/Dockerfile\<close>) and
  the workspace profile does not turn overflow checks on, so \<open>+\<close>, \<open>-\<close> and \<open>*\<close> of the unsigned
  types wrap: they are the operations of \<open>'a word\<close>. Signed 64-bit values are \<open>int\<close> with the wrap
  written out (\<open>wrap_i64\<close>). Panics that do not depend on the profile (\<open>unwrap\<close> on
  \<open>None\<close>, an \<open>Instant\<close> that overflows, \<open>todo!\<close>) are the value \<open>None\<close> of the operation.

  Maps. A \<open>HashMap\<close> is an association list with distinct keys. The order of the list stands for the
  iteration order, which the Rust documentation leaves open: a property of the development holds
  for every order.
\<close>

named_theorems hm_simps \<open>laws of hash maps\<close>
named_theorems hm_intros \<open>well-formedness of hash maps is kept\<close>

section \<open>Machine integers\<close>

type_synonym u8 = "8 word"
type_synonym u32 = "32 word"
type_synonym u64 = "64 word"

definition saturating_add :: "'a::len word \<Rightarrow> 'a word \<Rightarrow> 'a word" where
  "saturating_add a b = (if unat a + unat b < 2 ^ LENGTH('a) then a + b else - 1)"

definition saturating_sub :: "'a::len word \<Rightarrow> 'a word \<Rightarrow> 'a word" where
  "saturating_sub a b = (if b \<le> a then a - b else 0)"

lemma unat_saturating_sub: "unat (saturating_sub a b) = unat a - unat b"
  by (simp add: saturating_sub_def unat_sub word_le_nat_alt)

lemma unat_saturating_add:
  "unat (saturating_add (a :: 'a::len word) b) = min (unat a + unat b) (2 ^ LENGTH('a) - 1)"
proof (cases "unat a + unat b < 2 ^ LENGTH('a)")
  case True
  then show ?thesis
    by (simp add: saturating_add_def unat_word_ariths)
next
  case False
  then show ?thesis
    by (simp add: saturating_add_def unsigned_minus_1_eq_mask mask_eq_exp_minus_1)
qed

text \<open>\<open>i64\<close>: the values of \<open>int\<close> between \<open>- 2 ^ 63\<close> and \<open>2 ^ 63 - 1\<close>.\<close>

definition wrap_i64 :: "int \<Rightarrow> int" where
  "wrap_i64 x = (x + 2 ^ 63) mod 2 ^ 64 - 2 ^ 63"

definition in_i64 :: "int \<Rightarrow> bool" where
  "in_i64 x \<longleftrightarrow> - (2 ^ 63) \<le> x \<and> x < 2 ^ 63"

lemma wrap_i64_id [simp]: "in_i64 x \<Longrightarrow> wrap_i64 x = x"
  by (simp add: wrap_i64_def in_i64_def)

lemma in_i64_nonnegI: "0 \<le> x \<Longrightarrow> x < 9223372036854775808 \<Longrightarrow> in_i64 x"
  by (simp add: in_i64_def)

lemma wrap_i64_in: "in_i64 (wrap_i64 x)"
proof -
  have "0 \<le> (x + 2 ^ 63) mod 2 ^ 64" "(x + 2 ^ 63) mod 2 ^ 64 < 2 ^ 64"
    by simp_all
  then show ?thesis
    unfolding wrap_i64_def in_i64_def by simp
qed

text \<open>Adding up the weights of the terms that hit, as the score loops do; no partial sum leaves the range.\<close>

lemma weight_fold:
  assumes "\<forall>t\<in>set ts. 0 \<le> w t" "0 \<le> c" "c + sum_list (map w ts) < 2 ^ 63"
  shows "fold (\<lambda>t c. if hit t then wrap_i64 (c + w t) else c) ts c =
           c + sum_list (map w (filter hit ts))"
  using assms
proof (induction ts arbitrary: c)
  case Nil
  then show ?case by simp
next
  case (Cons t ts)
  have s: "0 \<le> sum_list (map w ts)"
    using Cons.prems(1) by (intro sum_list_nonneg) auto
  then have "in_i64 (c + w t)"
    using Cons.prems by (simp add: in_i64_def)
  then show ?case
    using Cons s by (simp add: add.assoc)
qed

lemma sum_list_filter_le:
  assumes "\<forall>t\<in>set ts. 0 \<le> f t"
  shows "0 \<le> sum_list (map f (filter P ts)) \<and> sum_list (map f (filter P ts)) \<le> (sum_list (map f ts) :: int)"
  using assms by (induction ts) auto

text \<open>Rust's integer division truncates towards zero.\<close>

definition i64_div :: "int \<Rightarrow> int \<Rightarrow> int" where
  "i64_div num den =
     (let quotient = \<bar>num\<bar> div \<bar>den\<bar> in if (num < 0) = (den < 0) then quotient else - quotient)"

lemma i64_div_nonneg: "0 \<le> a \<Longrightarrow> 0 < b \<Longrightarrow> i64_div a b = a div b"
  by (simp add: i64_div_def)

section \<open>Parsing integers\<close>

text \<open>
  \<open>str::parse\<close> for the integer types: an optional sign (\<open>-\<close> only for signed types), at least one
  decimal digit, nothing else, and the value in range.
\<close>

definition digit_val :: "char \<Rightarrow> nat option" where
  "digit_val c = (let n = of_char c in if 48 \<le> n \<and> n \<le> 57 then Some (n - 48) else None)"

fun parse_digits_acc :: "nat \<Rightarrow> string \<Rightarrow> nat option" where
  "parse_digits_acc acc [] = Some acc"
| "parse_digits_acc acc (c # cs) =
     (case digit_val c of None \<Rightarrow> None | Some d \<Rightarrow> parse_digits_acc (10 * acc + d) cs)"

definition parse_digits :: "string \<Rightarrow> nat option" where
  "parse_digits s = (if s = [] then None else parse_digits_acc 0 s)"

definition parse_nat_below :: "nat \<Rightarrow> string \<Rightarrow> nat option" where
  "parse_nat_below bound s =
     (case parse_digits (if s \<noteq> [] \<and> hd s = CHR ''+'' then tl s else s) of
        None \<Rightarrow> None
      | Some n \<Rightarrow> if n < bound then Some n else None)"

definition parse_u32 :: "string \<Rightarrow> u32 option" where
  "parse_u32 s = map_option of_nat (parse_nat_below (2 ^ 32) s)"

definition parse_u64 :: "string \<Rightarrow> u64 option" where
  "parse_u64 s = map_option of_nat (parse_nat_below (2 ^ 64) s)"

definition parse_i64 :: "string \<Rightarrow> int option" where
  "parse_i64 s =
     (if s \<noteq> [] \<and> hd s = CHR ''-''
      then (case parse_digits (tl s) of
              None \<Rightarrow> None
            | Some n \<Rightarrow> if n \<le> 2 ^ 63 then Some (- int n) else None)
      else map_option int (parse_nat_below (2 ^ 63) s))"

lemma parse_nat_below_bound: "parse_nat_below b s = Some n \<Longrightarrow> n < b"
  by (auto simp: parse_nat_below_def split: option.splits if_splits)

lemma parse_i64_in: "parse_i64 s = Some x \<Longrightarrow> in_i64 x"
  by (auto simp: parse_i64_def in_i64_def split: option.splits if_splits
      dest!: parse_nat_below_bound)

text \<open>Decimal printing, as \<open>to_string\<close> of the unsigned types does it.\<close>

definition digit_char :: "nat \<Rightarrow> char" where
  "digit_char d = char_of (48 + d)"

fun show_nat :: "nat \<Rightarrow> string" where
  "show_nat n = (if n < 10 then [digit_char n] else show_nat (n div 10) @ [digit_char (n mod 10)])"

declare show_nat.simps [simp del]

lemma digit_val_char [simp]: "d < 10 \<Longrightarrow> digit_val (digit_char d) = Some d"
  by (simp add: digit_val_def digit_char_def)

lemma parse_digits_acc_append:
  "parse_digits_acc a (xs @ ys) =
     (case parse_digits_acc a xs of None \<Rightarrow> None | Some b \<Rightarrow> parse_digits_acc b ys)"
  by (induction a xs rule: parse_digits_acc.induct) (auto split: option.splits)

lemma parse_digits_acc_show: "parse_digits_acc 0 (show_nat n) = Some n"
proof (induction n rule: show_nat.induct)
  case (1 n)
  show ?case
  proof (cases "n < 10")
    case True
    then show ?thesis by (simp add: show_nat.simps [of n])
  next
    case False
    then have "parse_digits_acc 0 (show_nat (n div 10)) = Some (n div 10)"
      using "1.IH" by simp
    then show ?thesis
      using False by (subst show_nat.simps) (simp add: parse_digits_acc_append)
  qed
qed

lemma show_nat_nonempty: "show_nat n \<noteq> []"
  by (subst show_nat.simps) simp

lemma parse_digits_show: "parse_digits (show_nat n) = Some n"
  by (simp add: parse_digits_def show_nat_nonempty parse_digits_acc_show)

section \<open>Hash maps\<close>

type_synonym ('k, 'v) hashmap = "('k \<times> 'v) list"

definition hm_wf :: "('k, 'v) hashmap \<Rightarrow> bool" where
  "hm_wf m \<longleftrightarrow> distinct (map fst m)"

definition hm_get :: "('k, 'v) hashmap \<Rightarrow> 'k \<Rightarrow> 'v option" where
  "hm_get m k = map_of m k"

definition hm_insert :: "'k \<Rightarrow> 'v \<Rightarrow> ('k, 'v) hashmap \<Rightarrow> ('k, 'v) hashmap" where
  "hm_insert k v m = AList.update k v m"

definition hm_remove :: "'k \<Rightarrow> ('k, 'v) hashmap \<Rightarrow> ('k, 'v) hashmap" where
  "hm_remove k m = AList.delete k m"

definition hm_contains_key :: "('k, 'v) hashmap \<Rightarrow> 'k \<Rightarrow> bool" where
  "hm_contains_key m k \<longleftrightarrow> hm_get m k \<noteq> None"

definition hm_keys :: "('k, 'v) hashmap \<Rightarrow> 'k list" where
  "hm_keys m = map fst m"

definition hm_values :: "('k, 'v) hashmap \<Rightarrow> 'v list" where
  "hm_values m = map snd m"

definition hm_map_values :: "('v \<Rightarrow> 'v) \<Rightarrow> ('k, 'v) hashmap \<Rightarrow> ('k, 'v) hashmap" where
  "hm_map_values f m = map (\<lambda>(k, v). (k, f v)) m"

subsection \<open>The contract of a keyed store\<close>

text \<open>
  What the clients of a map rely on: reads after writes and removals, and a well-formedness
  predicate every operation keeps. The scheduler cache, the gang store and the address store
  of the IPAM plugin are clients.
\<close>

locale keyed_store =
  fixes empty :: 'm
    and get :: "'m \<Rightarrow> 'k \<Rightarrow> 'v option"
    and insert :: "'k \<Rightarrow> 'v \<Rightarrow> 'm \<Rightarrow> 'm"
    and remove :: "'k \<Rightarrow> 'm \<Rightarrow> 'm"
    and wf :: "'m \<Rightarrow> bool"
  assumes get_empty: "get empty k = None"
    and get_insert: "get (insert k v m) k' = (if k' = k then Some v else get m k')"
    and get_remove: "get (remove k m) k' = (if k' = k then None else get m k')"
    and wf_empty: "wf empty"
    and wf_insert: "wf m \<Longrightarrow> wf (insert k v m)"
    and wf_remove: "wf m \<Longrightarrow> wf (remove k m)"
begin

lemma get_insert_same: "get (insert k v m) k = Some v"
  by (simp add: get_insert)

lemma get_insert_other: "k' \<noteq> k \<Longrightarrow> get (insert k v m) k' = get m k'"
  by (simp add: get_insert)

lemma get_remove_insert: "get (remove k (insert k v m)) k' = get (remove k m) k'"
  by (simp add: get_remove get_insert)

text \<open>Inserting a list of entries, as a loop of \<open>insert\<close> calls does: the last entry of a key wins.\<close>

lemma get_fold_insert:
  "get (fold (\<lambda>(k, v) m. insert k v m) kvs m) k =
     (case map_of (rev kvs) k of None \<Rightarrow> get m k | Some v \<Rightarrow> Some v)"
  by (induction kvs arbitrary: m) (auto simp: get_insert map_add_def split: option.splits)

lemma wf_fold_insert: "wf m \<Longrightarrow> wf (fold (\<lambda>(k, v) m. insert k v m) kvs m)"
  by (induction kvs arbitrary: m) (auto intro: wf_insert)

lemma wf_fold_remove: "wf m \<Longrightarrow> wf (fold remove ks m)"
  by (induction ks arbitrary: m) (auto intro: wf_remove)

lemma get_fold_remove: "get (fold remove ks m) k = (if k \<in> set ks then None else get m k)"
  by (induction ks arbitrary: m) (auto simp: get_remove)

end

interpretation hm: keyed_store "[]" hm_get hm_insert hm_remove hm_wf
  by unfold_locales
    (auto simp: hm_get_def hm_insert_def hm_remove_def hm_wf_def AList.update_conv'
      AList.delete_conv' AList.distinct_update AList.distinct_delete)

lemmas hm_get_simps [simp] = hm.get_empty hm.get_insert hm.get_remove
lemmas hm_wf_intros [simp, intro] = hm.wf_empty hm.wf_insert hm.wf_remove

lemma hm_get_Some_iff: "hm_wf m \<Longrightarrow> hm_get m k = Some v \<longleftrightarrow> (k, v) \<in> set m"
  by (simp add: hm_wf_def hm_get_def)

lemma hm_get_in_values: "hm_get m k = Some v \<Longrightarrow> v \<in> set (hm_values m)"
  by (force simp: hm_get_def hm_values_def dest: map_of_SomeD)

lemma hm_values_get: "hm_wf m \<Longrightarrow> v \<in> set (hm_values m) \<Longrightarrow> \<exists>k. hm_get m k = Some v"
  by (force simp: hm_wf_def hm_get_def hm_values_def)

lemma hm_get_map_values [simp]: "hm_get (hm_map_values f m) k = map_option f (hm_get m k)"
  by (induction m) (auto simp: hm_get_def hm_map_values_def)

lemma hm_keys_map_values [simp]: "hm_keys (hm_map_values f m) = hm_keys m"
  by (auto simp: hm_keys_def hm_map_values_def)

lemma hm_wf_map_values [simp]: "hm_wf (hm_map_values f m) = hm_wf m"
  using hm_keys_map_values [of f m] by (simp add: hm_wf_def hm_keys_def)

lemma hm_keys_iff: "k \<in> set (hm_keys m) \<longleftrightarrow> hm_get m k \<noteq> None"
  by (auto simp: hm_keys_def hm_get_def map_of_eq_None_iff)

end
