(* ===== verification/Common_Types.thy ===== *)
theory Common_Types
  imports Rk8s_Prelude
begin

text \<open>
  The API objects of \<open>project/common/src/lib.rs\<close> the scheduler reads: taints and tolerations, label
  and node selectors, affinity, and the parts of \<open>PodTask\<close> and \<open>Node\<close> that decide placement.
  A field no modelled operation reads (ports, probes, volumes, timestamps, ...) is left out of its record.
  The lemmas say what \<open>Toleration::tolerate\<close> accepts and which taints node conditions give.
\<close>

section \<open>Taints and tolerations\<close>

datatype taint_effect = NoSchedule | PreferNoSchedule | NoExecute

datatype taint_key =
    NodeNotReady | NodeUnreachable | NodeUnschedulable | NodeMemoryPressure
  | NodeDiskPressure | NodeNetworkUnavailable | NodeOutOfService

datatype toleration_operator = TolExists | TolEqual

record taint =
  taint_key :: taint_key
  taint_value :: string
  taint_effect :: taint_effect

record toleration =
  tol_key :: "taint_key option"
  tol_operator :: toleration_operator
  tol_effect :: "taint_effect option"
  tol_value :: string

definition taint_new :: "taint_key \<Rightarrow> taint_effect \<Rightarrow> taint" where
  "taint_new k e = \<lparr>taint_key = k, taint_value = [], taint_effect = e\<rparr>"

definition tolerate :: "toleration \<Rightarrow> taint \<Rightarrow> bool" where
  "tolerate tol t =
     (if tol_effect tol \<noteq> None \<and> the (tol_effect tol) \<noteq> taint_effect t then False
      else if tol_key tol \<noteq> None \<and> the (tol_key tol) \<noteq> taint_key t then False
      else case tol_operator tol of
             TolEqual \<Rightarrow> tol_value tol = taint_value t
           | TolExists \<Rightarrow> True)"

text \<open>A toleration covers a taint iff effect, key and value all agree, an absent part agreeing with anything.\<close>

lemma tolerate_iff:
  "tolerate tol t \<longleftrightarrow>
     (case tol_effect tol of None \<Rightarrow> True | Some e \<Rightarrow> e = taint_effect t) \<and>
     (case tol_key tol of None \<Rightarrow> True | Some k \<Rightarrow> k = taint_key t) \<and>
     (tol_operator tol = TolExists \<or> tol_value tol = taint_value t)"
  by (auto simp: tolerate_def split: option.splits toleration_operator.splits)

section \<open>Node conditions\<close>

datatype node_condition_type = Ready | DiskPressure | MemoryPressure | PIDPressure | NetworkUnavailable

datatype condition_status = CondTrue | CondFalse | CondUnknown

record node_condition =
  condition_type :: node_condition_type
  cond_status :: condition_status

text \<open>\<open>TryFrom<&NodeCondition> for Taint\<close>: \<open>None\<close> is \<open>Err(())\<close>.\<close>

definition taint_try_from :: "node_condition \<Rightarrow> taint option" where
  "taint_try_from c =
     (case condition_type c of
        Ready \<Rightarrow>
          if cond_status c = CondFalse \<or> cond_status c = CondUnknown
          then Some (taint_new NodeNotReady NoExecute) else None
      | MemoryPressure \<Rightarrow>
          if cond_status c = CondTrue then Some (taint_new NodeMemoryPressure NoSchedule) else None
      | DiskPressure \<Rightarrow>
          if cond_status c = CondTrue then Some (taint_new NodeDiskPressure NoSchedule) else None
      | PIDPressure \<Rightarrow>
          if cond_status c = CondTrue then Some (taint_new NodeUnschedulable NoSchedule) else None
      | NetworkUnavailable \<Rightarrow>
          if cond_status c = CondTrue then Some (taint_new NodeNetworkUnavailable NoSchedule)
          else None)"

definition derive_taints_from_conditions :: "node_condition list \<Rightarrow> taint list" where
  "derive_taints_from_conditions cs = List.map_filter taint_try_from cs"

text \<open>A condition taints a node exactly when it reports trouble.\<close>

definition condition_bad :: "node_condition \<Rightarrow> bool" where
  "condition_bad c \<longleftrightarrow>
     (if condition_type c = Ready then cond_status c \<noteq> CondTrue else cond_status c = CondTrue)"

lemma taint_try_from_None_iff: "taint_try_from c = None \<longleftrightarrow> \<not> condition_bad c"
  by (cases "condition_type c"; cases "cond_status c")
    (simp_all add: taint_try_from_def condition_bad_def)

lemma taint_try_from_effect:
  "taint_try_from c = Some t \<Longrightarrow> taint_effect t = NoSchedule \<or> taint_effect t = NoExecute"
  by (auto simp: taint_try_from_def taint_new_def split: node_condition_type.splits if_splits)

lemma derive_taints_Nil_iff:
  "derive_taints_from_conditions cs = [] \<longleftrightarrow> (\<forall>c\<in>set cs. \<not> condition_bad c)"
  by (induction cs)
    (auto simp: derive_taints_from_conditions_def List.map_filter_def
      simp flip: taint_try_from_None_iff)

section \<open>Selectors\<close>

type_synonym labels = "(string, string) hashmap"

datatype label_selector_operator = LabelSelIn | LabelSelNotIn | LabelSelExists | LabelSelDoesNotExist

record label_selector_requirement =
  lsr_key :: string
  lsr_operator :: label_selector_operator
  lsr_values :: "string list"

record label_selector =
  match_labels :: labels
  ls_match_expressions :: "label_selector_requirement list"

definition label_selector_default :: label_selector where
  "label_selector_default = \<lparr>match_labels = [], ls_match_expressions = []\<rparr>"

section \<open>Affinity as the API has it\<close>

datatype c_node_selector_operator = OpIn | OpNotIn | OpExists | OpDoesNotExist | OpGt | OpLt

record c_node_selector_requirement =
  c_nsr_key :: string
  c_nsr_operator :: c_node_selector_operator
  c_nsr_values :: "string list"

record c_node_selector_term =
  c_match_expressions :: "c_node_selector_requirement list"

record c_node_selector =
  c_node_selector_terms :: "c_node_selector_term list"

record c_preferred_scheduling_term =
  c_pst_weight :: int
  c_preference :: c_node_selector_term

record c_preferred_scheduling_terms =
  c_terms :: "c_preferred_scheduling_term list"

record c_node_affinity =
  c_na_required :: "c_node_selector option"
  c_na_preferred :: "c_preferred_scheduling_terms option"

record c_pod_affinity_term =
  c_pat_label_selector :: "label_selector option"
  c_pat_topology_key :: string
  c_pat_namespaces :: "string list option"

record c_weighted_pod_affinity_term =
  c_wpat_weight :: int
  c_wpat_term :: c_pod_affinity_term

record c_pod_affinity =
  c_pa_required :: "c_pod_affinity_term list option"
  c_pa_preferred :: "c_weighted_pod_affinity_term list option"

record c_affinity =
  c_aff_node_affinity :: "c_node_affinity option"
  c_aff_pod_affinity :: "c_pod_affinity option"
  c_aff_pod_anti_affinity :: "c_pod_affinity option"

section \<open>Pods and nodes as the API has them\<close>

record c_resource =
  c_res_cpu :: "string option"
  c_res_memory :: "string option"
  c_res_gpu :: "u32 option"
  c_res_gpu_memory :: "string option"

record c_container_res =
  c_limits :: "c_resource option"

record c_container_spec =
  c_cont_name :: string
  c_cont_resources :: "c_container_res option"

record c_gang_spec =
  c_gang_id :: string
  c_gang_size :: u32

record c_topology_constraint =
  c_topology_key :: string
  c_same_value :: bool

record c_pod_spec =
  c_ps_node_name :: "string option"
  c_ps_containers :: "c_container_spec list"
  c_ps_init_containers :: "c_container_spec list"
  c_ps_tolerations :: "toleration list"
  c_ps_affinity :: "c_affinity option"
  c_ps_gang :: "c_gang_spec option"
  c_ps_topology_constraints :: "c_topology_constraint list"

record c_object_meta =
  c_meta_name :: string
  c_meta_labels :: labels

record c_pod_task =
  c_pt_metadata :: c_object_meta
  c_pt_spec :: c_pod_spec

record c_node_spec =
  c_ns_taints :: "taint list"

record c_node_status =
  c_ns_allocatable :: "(string, string) hashmap"

record c_node =
  c_node_metadata :: c_object_meta
  c_node_spec :: c_node_spec
  c_node_status :: c_node_status

end
