(* ===== verification/Sched_Models.thy ===== *)
theory Sched_Models
  imports Common_Types
begin

text \<open>
  \<open>libscheduler/src/models.rs\<close>: what the scheduler knows of a pod and of a node, the selectors with
  their \<open>matches\<close> functions, and the conversions from the API types (\<open>From\<close> impls). An \<open>Instant\<close> is
  a number of nanoseconds. The lemmas give the meaning of a node selector as a disjunction of
  conjunctions and show that the conversion of a required selector keeps that meaning.
\<close>

type_synonym instant = nat

section \<open>Data\<close>

record resources_requirements =
  res_cpu :: u64
  res_memory :: u64

record gpu_resources =
  gpu_total :: u32
  gpu_requested :: u32
  gpu_memory_per_gpu :: u64
  gpu_model :: string

record gang_spec =
  gang_id :: string
  gang_size :: u32

record topology_constraint =
  topology_key :: string
  same_value :: bool

datatype node_selector_operator =
    NodeSelectorOpIn | NodeSelectorOpNotIn | NodeSelectorOpExists
  | NodeSelectorOpDoesNotExist | NodeSelectorOpGt | NodeSelectorOpLt

record node_selector_requirement =
  nsr_key :: string
  nsr_operator :: node_selector_operator
  nsr_values :: "string list"

record node_selector_term =
  match_expressions :: "node_selector_requirement list"

record node_selector =
  node_selector_terms :: "node_selector_term list"

record preferred_scheduling_term =
  match_label :: node_selector_requirement
  pst_weight :: int

record preferred_scheduling_terms =
  pst_terms :: "preferred_scheduling_term list"

record node_affinity =
  na_required :: "node_selector option"
  na_preferred :: "preferred_scheduling_terms option"

record pod_affinity_term =
  pat_label_selector :: "label_selector option"
  pat_topology_key :: string

record weighted_pod_affinity_term =
  wpat_weight :: int
  wpat_term :: pod_affinity_term

record pod_affinity =
  pa_required :: "pod_affinity_term list option"
  pa_preferred :: "weighted_pod_affinity_term list option"

record affinity =
  aff_node_affinity :: "node_affinity option"
  aff_pod_affinity :: "pod_affinity option"
  aff_pod_anti_affinity :: "pod_affinity option"

record pod_spec =
  ps_resources :: resources_requirements
  ps_priority :: u64
  ps_scheduling_gates :: "string list"
  ps_tolerations :: "toleration list"
  ps_node_name :: "string option"
  ps_node_selector :: labels
  ps_affinity :: "affinity option"
  ps_gpu_request :: u32
  ps_gpu_memory_request :: "u64 option"
  ps_gang :: "gang_spec option"
  ps_topology_constraints :: "topology_constraint list"

record queued_info =
  attempts :: u64
  timestamp :: instant

record pod_info =
  pod_name :: string
  pod_labels :: labels
  pod_spec :: pod_spec
  queued_info :: queued_info
  scheduled :: "string option"

record node_spec =
  unschedulable :: bool
  taints :: "taint list"

record node_info =
  node_name :: string
  node_labels :: labels
  node_spec :: node_spec
  requested :: resources_requirements
  allocatable :: resources_requirements
  gpu_resources :: "gpu_resources option"

type_synonym pod_name_with_priority = "u64 \<times> string"

record backoff_pod =
  bo_pod :: pod_name_with_priority
  bo_expire :: instant

record assignment =
  as_pod_name :: string
  as_node_name :: string

definition resources_default :: resources_requirements where
  "resources_default = \<lparr>res_cpu = 0, res_memory = 0\<rparr>"

definition node_selector_default :: node_selector where
  "node_selector_default = \<lparr>node_selector_terms = []\<rparr>"

definition preferred_scheduling_terms_default :: preferred_scheduling_terms where
  "preferred_scheduling_terms_default = \<lparr>pst_terms = []\<rparr>"

definition queued_info_default :: "instant \<Rightarrow> queued_info" where
  "queued_info_default now = \<lparr>attempts = 0, timestamp = now\<rparr>"

definition pod_info_new :: "instant \<Rightarrow> string \<Rightarrow> labels \<Rightarrow> pod_spec \<Rightarrow> pod_info" where
  "pod_info_new now n ls sp =
     \<lparr>pod_name = n, pod_labels = ls, pod_spec = sp, queued_info = queued_info_default now,
      scheduled = None\<rparr>"

text \<open>
  \<open>Ord\<close> of \<open>PodInfo\<close> compares priorities, \<open>Ord\<close> of \<open>BackOffPod\<close> the expiry with the order reversed, so
  that the maximum of the heap is the pod whose backoff ends first.
\<close>

definition pod_info_le :: "pod_info \<Rightarrow> pod_info \<Rightarrow> bool" where
  "pod_info_le a b \<longleftrightarrow> ps_priority (pod_spec a) \<le> ps_priority (pod_spec b)"

definition backoff_pod_le :: "backoff_pod \<Rightarrow> backoff_pod \<Rightarrow> bool" where
  "backoff_pod_le a b \<longleftrightarrow> bo_expire b \<le> bo_expire a"

section \<open>Matching\<close>

definition nsr_matches :: "node_selector_requirement \<Rightarrow> node_info \<Rightarrow> bool" where
  "nsr_matches r n =
     (case nsr_operator r of
        NodeSelectorOpDoesNotExist \<Rightarrow> \<not> hm_contains_key (node_labels n) (nsr_key r)
      | NodeSelectorOpExists \<Rightarrow> hm_contains_key (node_labels n) (nsr_key r)
      | NodeSelectorOpGt \<Rightarrow>
          (case hm_get (node_labels n) (nsr_key r) of
             Some v \<Rightarrow>
               (case parse_i64 v of
                  Some x \<Rightarrow>
                    if length (nsr_values r) \<noteq> 1 then False
                    else (case parse_i64 (nsr_values r ! 0) of Some l \<Rightarrow> x > l | None \<Rightarrow> False)
                | None \<Rightarrow> False)
           | None \<Rightarrow> False)
      | NodeSelectorOpLt \<Rightarrow>
          (case hm_get (node_labels n) (nsr_key r) of
             Some v \<Rightarrow>
               (case parse_i64 v of
                  Some x \<Rightarrow>
                    if length (nsr_values r) \<noteq> 1 then False
                    else (case parse_i64 (nsr_values r ! 0) of Some l \<Rightarrow> x < l | None \<Rightarrow> False)
                | None \<Rightarrow> False)
           | None \<Rightarrow> False)
      | NodeSelectorOpIn \<Rightarrow>
          (case hm_get (node_labels n) (nsr_key r) of
             Some v \<Rightarrow> list_ex (\<lambda>va. v = va) (nsr_values r)
           | None \<Rightarrow> False)
      | NodeSelectorOpNotIn \<Rightarrow>
          (case hm_get (node_labels n) (nsr_key r) of
             Some v \<Rightarrow> \<not> list_ex (\<lambda>va. v = va) (nsr_values r)
           | None \<Rightarrow> False))"

definition nst_matches :: "node_selector_term \<Rightarrow> node_info \<Rightarrow> bool" where
  "nst_matches t n = list_all (\<lambda>m. nsr_matches m n) (match_expressions t)"

definition ns_matches :: "node_selector \<Rightarrow> node_info \<Rightarrow> bool" where
  "ns_matches s n =
     (if node_selector_terms s = [] then True
      else list_ex (\<lambda>t. nst_matches t n) (node_selector_terms s))"

definition pst_score :: "preferred_scheduling_terms \<Rightarrow> node_info \<Rightarrow> int" where
  "pst_score p n =
     fold (\<lambda>t count. if nsr_matches (match_label t) n then wrap_i64 (count + pst_weight t) else count)
       (pst_terms p) 0"

section \<open>Conversions from the API types\<close>

definition node_selector_operator_from :: "c_node_selector_operator \<Rightarrow> node_selector_operator" where
  "node_selector_operator_from op =
     (case op of
        OpIn \<Rightarrow> NodeSelectorOpIn
      | OpNotIn \<Rightarrow> NodeSelectorOpNotIn
      | OpExists \<Rightarrow> NodeSelectorOpExists
      | OpDoesNotExist \<Rightarrow> NodeSelectorOpDoesNotExist
      | OpGt \<Rightarrow> NodeSelectorOpGt
      | OpLt \<Rightarrow> NodeSelectorOpLt)"

definition node_selector_requirement_from ::
    "c_node_selector_requirement \<Rightarrow> node_selector_requirement" where
  "node_selector_requirement_from r =
     \<lparr>nsr_key = c_nsr_key r, nsr_operator = node_selector_operator_from (c_nsr_operator r),
      nsr_values = c_nsr_values r\<rparr>"

definition node_selector_term_from :: "c_node_selector_term \<Rightarrow> node_selector_term" where
  "node_selector_term_from t =
     \<lparr>match_expressions = map node_selector_requirement_from (c_match_expressions t)\<rparr>"

definition node_selector_from :: "c_node_selector \<Rightarrow> node_selector" where
  "node_selector_from s =
     \<lparr>node_selector_terms = map node_selector_term_from (c_node_selector_terms s)\<rparr>"

definition preferred_scheduling_term_from ::
    "c_preferred_scheduling_term \<Rightarrow> preferred_scheduling_term" where
  "preferred_scheduling_term_from t =
     (let match_label' =
        (case c_match_expressions (c_preference t) of
           [] \<Rightarrow> \<lparr>nsr_key = [], nsr_operator = NodeSelectorOpExists, nsr_values = []\<rparr>
         | e # _ \<Rightarrow> node_selector_requirement_from e)
      in \<lparr>match_label = match_label', pst_weight = c_pst_weight t\<rparr>)"

definition preferred_scheduling_terms_from ::
    "c_preferred_scheduling_terms \<Rightarrow> preferred_scheduling_terms" where
  "preferred_scheduling_terms_from ts =
     \<lparr>pst_terms = map preferred_scheduling_term_from (c_terms ts)\<rparr>"

definition node_affinity_from :: "c_node_affinity \<Rightarrow> node_affinity" where
  "node_affinity_from a =
     \<lparr>na_required = map_option node_selector_from (c_na_required a),
      na_preferred = map_option preferred_scheduling_terms_from (c_na_preferred a)\<rparr>"

definition pod_affinity_term_from :: "c_pod_affinity_term \<Rightarrow> pod_affinity_term" where
  "pod_affinity_term_from t =
     \<lparr>pat_label_selector = c_pat_label_selector t, pat_topology_key = c_pat_topology_key t\<rparr>"

definition weighted_pod_affinity_term_from ::
    "c_weighted_pod_affinity_term \<Rightarrow> weighted_pod_affinity_term" where
  "weighted_pod_affinity_term_from t =
     \<lparr>wpat_weight = c_wpat_weight t, wpat_term = pod_affinity_term_from (c_wpat_term t)\<rparr>"

definition pod_affinity_from :: "c_pod_affinity \<Rightarrow> pod_affinity" where
  "pod_affinity_from a =
     \<lparr>pa_required = map_option (map pod_affinity_term_from) (c_pa_required a),
      pa_preferred = map_option (map weighted_pod_affinity_term_from) (c_pa_preferred a)\<rparr>"

definition pod_anti_affinity_from :: "c_pod_affinity \<Rightarrow> pod_affinity" where
  "pod_anti_affinity_from a =
     \<lparr>pa_required = map_option (map pod_affinity_term_from) (c_pa_required a),
      pa_preferred = map_option (map weighted_pod_affinity_term_from) (c_pa_preferred a)\<rparr>"

definition affinity_from :: "c_affinity \<Rightarrow> affinity" where
  "affinity_from a =
     \<lparr>aff_node_affinity = map_option node_affinity_from (c_aff_node_affinity a),
      aff_pod_affinity = map_option pod_affinity_from (c_aff_pod_affinity a),
      aff_pod_anti_affinity = map_option pod_anti_affinity_from (c_aff_pod_anti_affinity a)\<rparr>"

section \<open>What a selector means\<close>

text \<open>
  A requirement of the API, read as a predicate on the label of its key: the reference definition the
  converted selector is compared with.
\<close>

fun requirement_holds :: "c_node_selector_operator \<Rightarrow> string list \<Rightarrow> string option \<Rightarrow> bool" where
  "requirement_holds OpIn vs l \<longleftrightarrow> (\<exists>v\<in>set vs. l = Some v)"
| "requirement_holds OpNotIn vs l \<longleftrightarrow> l \<noteq> None \<and> (\<forall>v\<in>set vs. l \<noteq> Some v)"
| "requirement_holds OpExists vs l \<longleftrightarrow> l \<noteq> None"
| "requirement_holds OpDoesNotExist vs l \<longleftrightarrow> l = None"
| "requirement_holds OpGt vs l \<longleftrightarrow>
     (\<exists>s x v y. l = Some s \<and> parse_i64 s = Some x \<and> vs = [v] \<and> parse_i64 v = Some y \<and> y < x)"
| "requirement_holds OpLt vs l \<longleftrightarrow>
     (\<exists>s x v y. l = Some s \<and> parse_i64 s = Some x \<and> vs = [v] \<and> parse_i64 v = Some y \<and> x < y)"

lemma length_1_iff: "length xs = Suc 0 \<longleftrightarrow> (\<exists>x. xs = [x])"
  by (auto simp: length_Suc_conv)

lemma nsr_matches_from:
  "nsr_matches (node_selector_requirement_from r) n \<longleftrightarrow>
     requirement_holds (c_nsr_operator r) (c_nsr_values r) (hm_get (node_labels n) (c_nsr_key r))"
  by (cases "c_nsr_operator r")
    (auto simp: nsr_matches_def node_selector_requirement_from_def node_selector_operator_from_def
      hm_contains_key_def list_ex_iff length_1_iff split: option.splits)

lemma ns_matches_from:
  "ns_matches (node_selector_from s) n \<longleftrightarrow>
     c_node_selector_terms s = [] \<or>
     (\<exists>t\<in>set (c_node_selector_terms s). \<forall>r\<in>set (c_match_expressions t).
        requirement_holds (c_nsr_operator r) (c_nsr_values r) (hm_get (node_labels n) (c_nsr_key r)))"
  by (auto simp: ns_matches_def nst_matches_def node_selector_from_def node_selector_term_from_def
      list_ex_iff list_all_iff nsr_matches_from)

lemma nsr_matches_NotIn_complement:
  assumes "nsr_operator r = NodeSelectorOpNotIn" "hm_contains_key (node_labels n) (nsr_key r)"
  shows "nsr_matches r n \<longleftrightarrow> \<not> nsr_matches (r\<lparr>nsr_operator := NodeSelectorOpIn\<rparr>) n"
  using assms by (auto simp: nsr_matches_def hm_contains_key_def split: option.splits)

text \<open>The score of the preferred terms, when no partial sum leaves \<open>i64\<close>, is the sum of the matching weights.\<close>

lemma pst_score_sum:
  assumes "\<forall>t\<in>set (pst_terms p). 0 \<le> pst_weight t"
    and "sum_list (map pst_weight (pst_terms p)) < 2 ^ 63"
  shows "pst_score p n =
           sum_list (map pst_weight (filter (\<lambda>t. nsr_matches (match_label t) n) (pst_terms p)))"
  unfolding pst_score_def using assms by (subst weight_fold) simp_all

end
