(* ===== verification/Sched_Framework.thy ===== *)
theory Sched_Framework
  imports Sched_Models
begin

text \<open>
  The plugin framework of \<open>libscheduler/src/plugins/mod.rs\<close> and the per-cycle blackboard of
  \<open>libscheduler/src/cycle_state.rs\<close>.

  A trait object (\<open>Arc<dyn FilterPlugin>\<close>, ...) is a record of the functions of its vtable. The storage of
  \<open>CycleState\<close> is a map from keys to \<open>Box<dyn Any>\<close>: here the values are a datatype with one
  constructor per type the plugins store, and \<open>read::<T>\<close> is the lookup followed by the downcast to \<open>T\<close>.
  The lemmas are about score normalisation (range, order, the best node) and, in the locale
  \<open>bounded_scorer\<close>, what a plugin whose raw scores are bounded gives after it.
\<close>

section \<open>Status\<close>

datatype code =
  Success | Error | Unschedulable | UnschedulableAndUnresolvable | Wait_ | Skip | Pending

record status =
  st_code :: code
  st_reasons :: "string list"
  st_err :: string
  st_plugin :: string

definition status_default :: status where
  "status_default = \<lparr>st_code = Success, st_reasons = [], st_err = [], st_plugin = []\<rparr>"

definition status_new :: "code \<Rightarrow> string list \<Rightarrow> status" where
  "status_new c rs = \<lparr>st_code = c, st_reasons = rs, st_err = [], st_plugin = []\<rparr>"

definition status_error :: "string \<Rightarrow> status" where
  "status_error e = \<lparr>st_code = Error, st_reasons = [], st_err = e, st_plugin = []\<rparr>"

lemma st_code_simps [simp]:
  "st_code status_default = Success"
  "st_code (status_new c rs) = c"
  "st_code (status_error e) = Error"
  by (simp_all add: status_default_def status_new_def status_error_def)

section \<open>The cycle state\<close>

datatype scoring_strategy = LeastAllocated | MostAllocated | RequestedToCapacityRatio

record required_node_affinity =
  rna_label_selector :: labels
  rna_node_selector :: node_selector

record pod_affinity_pre_filter_state =
  pf_required_affinity_terms :: "pod_affinity_term list"
  pf_required_anti_affinity_terms :: "pod_affinity_term list"
  pf_preferred_affinity_terms :: "weighted_pod_affinity_term list"
  pf_preferred_anti_affinity_terms :: "weighted_pod_affinity_term list"
  pf_node_topology_map :: "(string, labels) hashmap"
  pf_topology_pods_map :: "(string, (string, pod_info list) hashmap) hashmap"

record pod_affinity_pre_score_state =
  sc_preferred_affinity_terms :: "weighted_pod_affinity_term list"
  sc_preferred_anti_affinity_terms :: "weighted_pod_affinity_term list"
  sc_node_topology_map :: "(string, labels) hashmap"

record gpu_pre_filter_state =
  gpf_gpu_request :: u32
  gpf_gpu_memory_request :: "u64 option"

datatype cycle_value =
    CV_ScoringStrategy scoring_strategy
  | CV_Pods "pod_info list"
  | CV_NodeAffinityPreFilter required_node_affinity
  | CV_NodeAffinityPreScore preferred_scheduling_terms
  | CV_FitPreFilter resources_requirements
  | CV_FitPreScore resources_requirements
  | CV_BalancedPreScore resources_requirements
  | CV_Tolerations "toleration list"
  | CV_PodAffinityPreFilter pod_affinity_pre_filter_state
  | CV_PodAffinityPreScore pod_affinity_pre_score_state
  | CV_GpuPreFilter gpu_pre_filter_state
  | CV_GpuPreScore u32
  | CV_TopologyPreFilter "(string, string) hashmap"

record cycle_state =
  storage :: "(string, cycle_value) hashmap"
  skip_filter_plugins :: "string set"
  skip_score_plugins :: "string set"

definition cycle_state_default :: cycle_state where
  "cycle_state_default = \<lparr>storage = [], skip_filter_plugins = {}, skip_score_plugins = {}\<rparr>"

definition cs_read :: "(cycle_value \<Rightarrow> 'a option) \<Rightarrow> cycle_state \<Rightarrow> string \<Rightarrow> 'a option" where
  "cs_read downcast st key =
     (case hm_get (storage st) key of Some v \<Rightarrow> downcast v | None \<Rightarrow> None)"

definition cs_write :: "string \<Rightarrow> cycle_value \<Rightarrow> cycle_state \<Rightarrow> cycle_state" where
  "cs_write key v st = st\<lparr>storage := hm_insert key v (storage st)\<rparr>"

definition as_strategy :: "cycle_value \<Rightarrow> scoring_strategy option" where
  "as_strategy v = (case v of CV_ScoringStrategy x \<Rightarrow> Some x | _ \<Rightarrow> None)"
definition as_pods :: "cycle_value \<Rightarrow> pod_info list option" where
  "as_pods v = (case v of CV_Pods x \<Rightarrow> Some x | _ \<Rightarrow> None)"
definition as_na_pre_filter :: "cycle_value \<Rightarrow> required_node_affinity option" where
  "as_na_pre_filter v = (case v of CV_NodeAffinityPreFilter x \<Rightarrow> Some x | _ \<Rightarrow> None)"
definition as_na_pre_score :: "cycle_value \<Rightarrow> preferred_scheduling_terms option" where
  "as_na_pre_score v = (case v of CV_NodeAffinityPreScore x \<Rightarrow> Some x | _ \<Rightarrow> None)"
definition as_fit_pre_filter :: "cycle_value \<Rightarrow> resources_requirements option" where
  "as_fit_pre_filter v = (case v of CV_FitPreFilter x \<Rightarrow> Some x | _ \<Rightarrow> None)"
definition as_fit_pre_score :: "cycle_value \<Rightarrow> resources_requirements option" where
  "as_fit_pre_score v = (case v of CV_FitPreScore x \<Rightarrow> Some x | _ \<Rightarrow> None)"
definition as_balanced_pre_score :: "cycle_value \<Rightarrow> resources_requirements option" where
  "as_balanced_pre_score v = (case v of CV_BalancedPreScore x \<Rightarrow> Some x | _ \<Rightarrow> None)"
definition as_tolerations :: "cycle_value \<Rightarrow> toleration list option" where
  "as_tolerations v = (case v of CV_Tolerations x \<Rightarrow> Some x | _ \<Rightarrow> None)"
definition as_pa_pre_filter :: "cycle_value \<Rightarrow> pod_affinity_pre_filter_state option" where
  "as_pa_pre_filter v = (case v of CV_PodAffinityPreFilter x \<Rightarrow> Some x | _ \<Rightarrow> None)"
definition as_pa_pre_score :: "cycle_value \<Rightarrow> pod_affinity_pre_score_state option" where
  "as_pa_pre_score v = (case v of CV_PodAffinityPreScore x \<Rightarrow> Some x | _ \<Rightarrow> None)"
definition as_gpu_pre_filter :: "cycle_value \<Rightarrow> gpu_pre_filter_state option" where
  "as_gpu_pre_filter v = (case v of CV_GpuPreFilter x \<Rightarrow> Some x | _ \<Rightarrow> None)"
definition as_gpu_pre_score :: "cycle_value \<Rightarrow> u32 option" where
  "as_gpu_pre_score v = (case v of CV_GpuPreScore x \<Rightarrow> Some x | _ \<Rightarrow> None)"
definition as_topology :: "cycle_value \<Rightarrow> (string, string) hashmap option" where
  "as_topology v = (case v of CV_TopologyPreFilter x \<Rightarrow> Some x | _ \<Rightarrow> None)"

lemmas downcast_defs =
  as_strategy_def as_pods_def as_na_pre_filter_def as_na_pre_score_def as_fit_pre_filter_def
  as_fit_pre_score_def as_balanced_pre_score_def as_tolerations_def as_pa_pre_filter_def
  as_pa_pre_score_def as_gpu_pre_filter_def as_gpu_pre_score_def as_topology_def

lemma cs_read_write_same [simp]: "cs_read d (cs_write k v st) k = d v"
  by (simp add: cs_read_def cs_write_def)

lemma cs_read_write_other [simp]: "k' \<noteq> k \<Longrightarrow> cs_read d (cs_write k v st) k' = cs_read d st k'"
  by (simp add: cs_read_def cs_write_def)

lemma cs_read_default [simp]: "cs_read d cycle_state_default k = None"
  by (simp add: cs_read_def cycle_state_default_def)

lemma cs_read_skips [simp]:
  "cs_read d (st\<lparr>skip_filter_plugins := S\<rparr>) k = cs_read d st k"
  "cs_read d (st\<lparr>skip_score_plugins := S\<rparr>) k = cs_read d st k"
  by (simp_all add: cs_read_def)

lemma cs_write_skips [simp]:
  "skip_filter_plugins (cs_write k v st) = skip_filter_plugins st"
  "skip_score_plugins (cs_write k v st) = skip_score_plugins st"
  by (simp_all add: cs_write_def)

section \<open>Events and queueing hints\<close>

datatype event_resource = PodResource | NodeResource

type_synonym action_type = u32

definition Action_Add :: action_type where "Action_Add = 1"
definition Action_Delete :: action_type where "Action_Delete = push_bit 1 1"
definition Action_UpdateNodeLabel :: action_type where "Action_UpdateNodeLabel = push_bit 2 1"
definition Action_UpdateNodeTaint :: action_type where "Action_UpdateNodeTaint = push_bit 3 1"
definition Action_UpdatePodLabel :: action_type where "Action_UpdatePodLabel = push_bit 4 1"
definition Action_UpdatePodToleration :: action_type where
  "Action_UpdatePodToleration = push_bit 5 1"
definition Action_UpdateNodeAllocatable :: action_type where
  "Action_UpdateNodeAllocatable = push_bit 6 1"

record cluster_event =
  ce_resource :: event_resource
  ce_action_type :: action_type

datatype event_inner =
    EvPod "pod_info option" "pod_info option"
  | EvNode "node_info option" node_info

datatype queueing_hint = HintSkip | HintQueue

type_synonym hint_result = "string + queueing_hint"
type_synonym queueing_hint_fn = "(pod_info \<Rightarrow> event_inner \<Rightarrow> hint_result) option"

record cluster_event_with_hint =
  ceh_event :: cluster_event
  ceh_hint_fn :: queueing_hint_fn

text \<open>The message texts carry the debug form of the event, which is not modelled.\<close>

definition err_not_pod :: string where "err_not_pod = ''event inner not match event resource pod''"
definition err_not_node :: string where "err_not_node = ''event inner not match event resource node''"

section \<open>Plugin traits\<close>

record pre_enqueue_plugin =
  pe_name :: string
  pre_enqueue :: "pod_info \<Rightarrow> status"

record pre_filter_plugin =
  pfp_name :: string
  pre_filter :: "cycle_state \<Rightarrow> pod_info \<Rightarrow> node_info list \<Rightarrow> cycle_state \<times> string list \<times> status"

record filter_plugin =
  fp_name :: string
  filter_node :: "cycle_state \<Rightarrow> pod_info \<Rightarrow> node_info \<Rightarrow> status"

record pre_score_plugin =
  psp_name :: string
  pre_score :: "cycle_state \<Rightarrow> pod_info \<Rightarrow> node_info list \<Rightarrow> cycle_state \<times> status"

record score_plugin =
  sp_name :: string
  score :: "cycle_state \<Rightarrow> pod_info \<Rightarrow> node_info \<Rightarrow> int \<times> status"
  normalize_score :: "int list \<Rightarrow> int list"

record enqueue_extension =
  ee_name :: string
  events_to_register :: "cluster_event_with_hint list"

record plugin_info =
  pl_name :: string
  pl_weight :: int

definition plugin_info_new :: "string \<Rightarrow> plugin_info" where
  "plugin_info_new n = \<lparr>pl_name = n, pl_weight = 0\<rparr>"

definition plugin_info_with_weight :: "string \<Rightarrow> int \<Rightarrow> plugin_info" where
  "plugin_info_with_weight n w = \<lparr>pl_name = n, pl_weight = w\<rparr>"

section \<open>Score normalisation\<close>

definition max_from_zero :: "int list \<Rightarrow> int" where
  "max_from_zero xs = fold (\<lambda>s m. if m < s then s else m) xs 0"

definition default_normalize_score :: "int \<Rightarrow> bool \<Rightarrow> int list \<Rightarrow> int list" where
  "default_normalize_score max_score reverse scores =
     (let mx = max_from_zero scores
      in if mx = 0
         then (if reverse then map (\<lambda>_. max_score) scores else scores)
         else map (\<lambda>s. i64_div (wrap_i64 (max_score * s)) mx) scores)"

lemma fold_max: "fold (\<lambda>s m. if m < s then s else m) xs a = Max (insert (a :: int) (set xs))"
proof (induction xs arbitrary: a)
  case Nil
  then show ?case by simp
next
  case (Cons x xs)
  have "fold (\<lambda>s m. if m < s then s else m) (x # xs) a = Max (insert (max a x) (set xs))"
    using Cons.IH by (simp add: max_def)
  also have "\<dots> = Max (insert a (set (x # xs)))"
    by (cases "xs = []") (auto simp: Max_insert max.assoc)
  finally show ?case .
qed

lemma max_from_zero_Max: "max_from_zero xs = Max (insert 0 (set xs))"
  by (simp add: max_from_zero_def fold_max)

lemma max_from_zero_ge: "x \<in> set xs \<Longrightarrow> x \<le> max_from_zero xs" "0 \<le> max_from_zero xs"
  by (simp_all add: max_from_zero_Max)

lemma max_from_zero_le: "\<forall>x\<in>set xs. x \<le> B \<Longrightarrow> 0 \<le> B \<Longrightarrow> max_from_zero xs \<le> B"
  by (simp add: max_from_zero_Max)

lemma max_from_zero_in: "max_from_zero xs \<noteq> 0 \<Longrightarrow> max_from_zero xs \<in> set xs"
  using Max_in [of "insert 0 (set xs)"] by (auto simp: max_from_zero_Max)

lemma length_normalize [simp]: "length (default_normalize_score ms rv xs) = length xs"
  by (simp add: default_normalize_score_def Let_def)

text \<open>
  With non-negative raw scores whose product with the maximum score stays in \<open>i64\<close>, a normalised
  score is \<open>max_score * s div max\<close>, or the fixed value of the all-zero case.
\<close>

lemma normalize_nth:
  assumes "\<forall>x\<in>set xs. 0 \<le> x \<and> x \<le> B" "0 \<le> ms" "ms * B < 2 ^ 63" "i < length xs"
  shows "default_normalize_score ms rv xs ! i =
           (if max_from_zero xs = 0 then (if rv then ms else 0)
            else ms * (xs ! i) div max_from_zero xs)"
proof -
  have x: "0 \<le> xs ! i" "xs ! i \<le> B" using assms by auto
  have "ms * (xs ! i) \<le> ms * B" using x assms(2) by (intro mult_left_mono)
  then have "in_i64 (ms * (xs ! i))"
    using x assms(2,3) by (simp add: in_i64_def order.trans [of _ 0])
  moreover have "max_from_zero xs = 0 \<Longrightarrow> xs ! i = 0"
    using x max_from_zero_ge(1) [of "xs ! i" xs] assms(4) by simp
  moreover have "0 \<le> max_from_zero xs" by (rule max_from_zero_ge(2))
  ultimately show ?thesis
    using x assms(2,4)
    by (simp add: default_normalize_score_def Let_def i64_div_nonneg order.not_eq_order_implies_strict)
qed

lemma normalize_range:
  assumes "\<forall>x\<in>set xs. 0 \<le> x \<and> x \<le> B" "0 \<le> ms" "ms * B < 2 ^ 63" "i < length xs"
  shows "0 \<le> default_normalize_score ms rv xs ! i \<and> default_normalize_score ms rv xs ! i \<le> ms"
proof -
  have x: "0 \<le> xs ! i" "xs ! i \<le> max_from_zero xs"
    using assms max_from_zero_ge(1) [of "xs ! i" xs] by auto
  have "ms * (xs ! i) div max_from_zero xs \<le> ms" if "max_from_zero xs \<noteq> 0"
  proof -
    have "ms * (xs ! i) \<le> ms * max_from_zero xs" using x assms(2) by (intro mult_left_mono)
    then have "ms * (xs ! i) div max_from_zero xs \<le> ms * max_from_zero xs div max_from_zero xs"
      using max_from_zero_ge(2) [of xs] that by (intro zdiv_mono1) auto
    then show ?thesis using that by simp
  qed
  moreover have "0 \<le> ms * (xs ! i) div max_from_zero xs"
    using x(1) assms(2) max_from_zero_ge(2) [of xs] by (intro div_int_pos_iff [THEN iffD2]) auto
  ultimately show ?thesis
    using assms(2) by (simp add: normalize_nth [OF assms])
qed

lemma normalize_mono:
  assumes "\<forall>x\<in>set xs. 0 \<le> x \<and> x \<le> B" "0 \<le> ms" "ms * B < 2 ^ 63"
    and "i < length xs" "j < length xs" "xs ! i \<le> xs ! j"
  shows "default_normalize_score ms rv xs ! i \<le> default_normalize_score ms rv xs ! j"
proof -
  have "ms * (xs ! i) \<le> ms * (xs ! j)" using assms by (intro mult_left_mono)
  then have "max_from_zero xs \<noteq> 0 \<Longrightarrow>
      ms * (xs ! i) div max_from_zero xs \<le> ms * (xs ! j) div max_from_zero xs"
    using max_from_zero_ge(2) [of xs] by (intro zdiv_mono1) auto
  then show ?thesis
    by (simp add: normalize_nth [OF assms(1-3)] assms(4,5))
qed

text \<open>The contract of a scorer: on the nodes it is asked about, raw scores lie in \<open>0..bound\<close>.\<close>

locale bounded_scorer =
  fixes raw :: "'n \<Rightarrow> int" and ok :: "'n \<Rightarrow> bool" and bound :: int
  assumes raw_range: "ok n \<Longrightarrow> 0 \<le> raw n \<and> raw n \<le> bound"
    and bound_small: "100 * bound < 2 ^ 63"
begin

lemma raw_list_range: "\<forall>n\<in>set ns. ok n \<Longrightarrow> \<forall>x\<in>set (map raw ns). 0 \<le> x \<and> x \<le> bound"
  using raw_range by auto

lemma normalized_range:
  assumes "\<forall>n\<in>set ns. ok n" "i < length ns"
  shows "0 \<le> default_normalize_score 100 rv (map raw ns) ! i"
    and "default_normalize_score 100 rv (map raw ns) ! i \<le> 100"
  using normalize_range [OF raw_list_range [OF assms(1)], of 100 i rv] bound_small assms(2)
  by simp_all

lemma normalized_mono:
  assumes "\<forall>n\<in>set ns. ok n" "i < length ns" "j < length ns" "raw (ns ! i) \<le> raw (ns ! j)"
  shows "default_normalize_score 100 rv (map raw ns) ! i
           \<le> default_normalize_score 100 rv (map raw ns) ! j"
  using normalize_mono [OF raw_list_range [OF assms(1)], of 100 i j rv] bound_small assms(2-4)
  by simp

text \<open>The best raw score becomes 100 as soon as some raw score is positive.\<close>

lemma normalized_best:
  assumes "\<forall>n\<in>set ns. ok n" "i < length ns" "0 < raw (ns ! i)"
    and "\<forall>n\<in>set ns. raw n \<le> raw (ns ! i)"
  shows "default_normalize_score 100 rv (map raw ns) ! i = 100"
proof -
  have "max_from_zero (map raw ns) = raw (ns ! i)"
    using assms max_from_zero_le [of "map raw ns" "raw (ns ! i)"]
      max_from_zero_ge(1) [of "raw (ns ! i)" "map raw ns"] by (auto intro: order.antisym)
  then show ?thesis
    using normalize_nth [OF raw_list_range [OF assms(1)], of 100 i rv] bound_small assms(2,3)
    by simp
qed

end

end
