(* ===== verification/F64.thy ===== *)
theory F64
  imports Complex_Main "HOL-Library.Log_Nat" Rk8s_Prelude
begin

text \<open>
  The \<open>f64\<close> arithmetic of the scoring plugins and of \<open>parse_cpu\<close>. A finite \<open>f64\<close> is the rational it
  denotes; every operation is the exact one followed by \<open>f64_round\<close>, rounding to 53
  significant bits, nearest, ties to even (IEEE 754 binary64, which Rust guarantees). The exponent is
  not bounded in \<open>f64_round\<close>: the scorers only form values between \<open>2 ^ -64\<close> and \<open>2 ^ 72\<close>, far inside
  the normal range; the parser handles overflow to infinity itself. Casts from \<open>f64\<close> to an
  integer type truncate and saturate.
\<close>

section \<open>Rounding\<close>

definition rne :: "rat \<Rightarrow> int" where
  "rne x =
     (let f = \<lfloor>x\<rfloor>; r = x - of_int f
      in if r < 1 / 2 then f else if 1 / 2 < r then f + 1 else if even f then f else f + 1)"

definition rexp :: "rat \<Rightarrow> int" where
  "rexp x =
     (let (n, d) = quotient_of x; k = bitlen n - bitlen d
      in if 2 powi k \<le> x then k else k - 1)"

definition f64_round_pos :: "rat \<Rightarrow> rat" where
  "f64_round_pos x = (let e = rexp x - 52 in of_int (rne (x / 2 powi e)) * 2 powi e)"

definition f64_round :: "rat \<Rightarrow> rat" where
  "f64_round x =
     (if x = 0 then 0 else if x < 0 then - f64_round_pos (- x) else f64_round_pos x)"

subsection \<open>Round half to even\<close>

lemma rne_floor: "\<lfloor>x\<rfloor> \<le> rne x" and rne_floor1: "rne x \<le> \<lfloor>x\<rfloor> + 1"
  by (auto simp: rne_def Let_def)

lemma rne_of_int [simp]: "rne (of_int n) = n"
  by (simp add: rne_def)

lemma rne_mono:
  assumes "x \<le> y"
  shows "rne x \<le> rne y"
proof (cases "\<lfloor>x\<rfloor> = \<lfloor>y\<rfloor>")
  case True
  with assms show ?thesis
    by (auto simp: rne_def Let_def)
next
  case False
  with floor_mono [OF assms] have "\<lfloor>x\<rfloor> + 1 \<le> \<lfloor>y\<rfloor>" by simp
  with rne_floor1 [of x] rne_floor [of y] show ?thesis by simp
qed

lemma rne_le_of_int: "x \<le> of_int n \<Longrightarrow> rne x \<le> n"
  using rne_mono [of x "of_int n"] by simp

lemma rne_ge_of_int: "of_int n \<le> x \<Longrightarrow> n \<le> rne x"
  using rne_mono [of "of_int n" x] by simp

subsection \<open>The exponent\<close>

lemma powi_2_pos [simp]: "0 < (2 :: rat) powi k"
  by (simp add: zero_less_power_int)

lemma powi_2_le: "k \<le> l \<Longrightarrow> (2 :: rat) powi k \<le> 2 powi l"
  by (simp add: power_int_increasing)

lemma powi_2_add: "(2 :: rat) powi (k + l) = 2 powi k * 2 powi l"
  by (simp add: power_int_add)

lemma powi_2_nat: "0 \<le> k \<Longrightarrow> (2 :: rat) powi k = of_int (2 ^ nat k)"
  by (simp add: power_int_def)

lemma bitlen_powi:
  assumes "0 < n"
  shows "(2 :: rat) powi (bitlen n - 1) \<le> of_int n" and "of_int n < (2 :: rat) powi bitlen n"
proof -
  have b: "1 \<le> bitlen n"
    using assms bitlen_nonneg [of n] bitlen_eq_zero_iff [of n] by linarith
  have "2 ^ nat (bitlen n - 1) \<le> n" "n < 2 ^ nat (bitlen n)"
    using bitlen_bounds [OF assms] by auto
  then have "(of_int (2 ^ nat (bitlen n - 1)) :: rat) \<le> of_int n"
    "(of_int n :: rat) < of_int (2 ^ nat (bitlen n))"
    by (simp_all only: of_int_le_iff of_int_less_iff)
  then show "(2 :: rat) powi (bitlen n - 1) \<le> of_int n" "of_int n < (2 :: rat) powi bitlen n"
    using b by (simp_all only: powi_2_nat)
qed

lemma rexp_bounds:
  assumes "0 < x"
  shows "2 powi rexp x \<le> x" and "x < 2 powi (rexp x + 1)"
proof -
  obtain n d where q: "quotient_of x = (n, d)" by (cases "quotient_of x")
  have x: "x = of_int n / of_int d" and d: "0 < d"
    using quotient_of_div [OF q] quotient_of_denom_pos [OF q] by auto
  have n: "0 < n"
    using assms d unfolding x by (simp add: zero_less_divide_iff)
  define k where "k = bitlen n - bitlen d"
  have lo: "2 powi (k - 1) < x"
  proof -
    have "(2 :: rat) powi (k - 1) * of_int d < 2 powi (k - 1) * 2 powi bitlen d"
      using bitlen_powi(2) [OF d] by simp
    also have "\<dots> = 2 powi (bitlen n - 1)"
      by (simp add: k_def flip: powi_2_add)
    also have "\<dots> \<le> of_int n" by (rule bitlen_powi(1) [OF n])
    finally show ?thesis using d unfolding x by (simp add: field_simps)
  qed
  have hi: "x < 2 powi (k + 1)"
  proof -
    have "of_int n < (2 :: rat) powi bitlen n" by (rule bitlen_powi(2) [OF n])
    also have "\<dots> = 2 powi (k + 1) * 2 powi (bitlen d - 1)"
      by (simp add: k_def flip: powi_2_add)
    also have "\<dots> \<le> 2 powi (k + 1) * of_int d"
      using bitlen_powi(1) [OF d] by simp
    finally show ?thesis using d unfolding x by (simp add: field_simps)
  qed
  have r: "rexp x = (if 2 powi k \<le> x then k else k - 1)"
    by (simp add: rexp_def q k_def)
  show "2 powi rexp x \<le> x" "x < 2 powi (rexp x + 1)"
    using lo hi unfolding r by (auto simp: not_le)
qed

lemma rexp_mono:
  assumes "0 < x" "x \<le> y"
  shows "rexp x \<le> rexp y"
proof (rule ccontr)
  assume "\<not> rexp x \<le> rexp y"
  then have "(2 :: rat) powi (rexp y + 1) \<le> 2 powi rexp x" by (intro powi_2_le) simp
  with rexp_bounds [of x] rexp_bounds [of y] assms show False by simp
qed

lemma rexp_unique:
  assumes "2 powi k \<le> x" "x < 2 powi (k + 1)"
  shows "rexp x = k"
proof -
  have x: "0 < x" using assms(1) powi_2_pos [of k] by (rule less_le_trans [rotated])
  have "\<not> rexp x + 1 \<le> k"
    using rexp_bounds(2) [OF x] assms(1) powi_2_le [of "rexp x + 1" k] by linarith
  moreover have "\<not> k + 1 \<le> rexp x"
    using rexp_bounds(1) [OF x] assms(2) powi_2_le [of "k + 1" "rexp x"] by linarith
  ultimately show ?thesis by linarith
qed

subsection \<open>Rounding is monotone and fixes what is representable\<close>

lemma f64_round_pos_bounds:
  assumes "0 < x"
  shows "2 powi rexp x \<le> f64_round_pos x" and "f64_round_pos x \<le> 2 powi (rexp x + 1)"
proof -
  let ?e = "rexp x - 52"
  have "of_int (2 ^ 52) \<le> x / 2 powi ?e" "x / 2 powi ?e \<le> of_int (2 ^ 53)"
    using rexp_bounds [OF assms] powi_2_add [of 52 ?e] powi_2_add [of 53 ?e]
    by (simp_all add: field_simps)
  then have "2 ^ 52 \<le> rne (x / 2 powi ?e)" "rne (x / 2 powi ?e) \<le> 2 ^ 53"
    by (auto intro: rne_ge_of_int rne_le_of_int simp del: of_int_power)
  then have "(of_int (2 ^ 52) :: rat) * 2 powi ?e \<le> f64_round_pos x"
    "f64_round_pos x \<le> of_int (2 ^ 53) * 2 powi ?e"
    unfolding f64_round_pos_def Let_def
    by (auto intro!: mult_right_mono simp del: of_int_power)
  then show "2 powi rexp x \<le> f64_round_pos x" "f64_round_pos x \<le> 2 powi (rexp x + 1)"
    using powi_2_add [of 52 ?e] powi_2_add [of 53 ?e] by (simp_all add: add.commute)
qed

lemma f64_round_pos_mono:
  assumes "0 < x" "x \<le> y"
  shows "f64_round_pos x \<le> f64_round_pos y"
proof (cases "rexp x = rexp y")
  case True
  have "x / 2 powi (rexp y - 52) \<le> y / 2 powi (rexp y - 52)"
    using assms(2) by (simp add: divide_right_mono)
  then have "rne (x / 2 powi (rexp y - 52)) \<le> rne (y / 2 powi (rexp y - 52))"
    by (rule rne_mono)
  then show ?thesis
    by (simp add: f64_round_pos_def Let_def True)
next
  case False
  with rexp_mono [OF assms] have "rexp x + 1 \<le> rexp y" by simp
  then have "(2 :: rat) powi (rexp x + 1) \<le> 2 powi rexp y" by (rule powi_2_le)
  then show ?thesis
    using f64_round_pos_bounds(2) [OF assms(1)] f64_round_pos_bounds(1) [of y] assms by linarith
qed

lemma f64_round_pos_pos: "0 < x \<Longrightarrow> 0 < f64_round_pos x"
  using f64_round_pos_bounds(1) [of x] powi_2_pos [of "rexp x"] by linarith

lemma f64_round_mono: "x \<le> y \<Longrightarrow> f64_round x \<le> f64_round y"
  using f64_round_pos_mono [of x y] f64_round_pos_mono [of "- y" "- x"]
    f64_round_pos_pos [of y] f64_round_pos_pos [of "- x"]
  by (auto simp: f64_round_def)

lemma f64_round_0 [simp]: "f64_round 0 = 0"
  by (simp add: f64_round_def)

text \<open>An integer multiple \<open>m\<close> of a power of two with \<open>2 ^ 52 \<le> m < 2 ^ 53\<close> is representable.\<close>

lemma f64_round_normal:
  assumes "2 ^ 52 \<le> m" "m < 2 ^ 53"
  shows "f64_round (of_int m * 2 powi e) = of_int m * 2 powi e"
proof -
  have m: "(of_int (2 ^ 52) :: rat) \<le> of_int m" "(of_int m :: rat) < of_int (2 ^ 53)"
    using assms by (simp_all only: of_int_le_iff of_int_less_iff)
  have "rexp (of_int m * 2 powi e) = e + 52"
    using m powi_2_add [of e 52] powi_2_add [of e 53]
    by (intro rexp_unique) (simp_all add: field_simps)
  moreover have "(0 :: rat) < of_int m * 2 powi e"
    using m by (intro mult_pos_pos) simp_all
  ultimately show ?thesis
    by (simp add: f64_round_def f64_round_pos_def)
qed

lemma f64_round_ge_0: "0 \<le> x \<Longrightarrow> 0 \<le> f64_round x"
  using f64_round_mono [of 0 x] by simp

text \<open>The constants the scorers use are representable.\<close>

lemma f64_round_consts [simp]:
  "f64_round 1 = 1" "f64_round 2 = 2" "f64_round (1 / 2) = 1 / 2" "f64_round 50 = 50"
  "f64_round 100 = 100"
  using f64_round_normal [of "2 ^ 52" "- 52"] f64_round_normal [of "2 ^ 52" "- 51"]
    f64_round_normal [of "2 ^ 52" "- 53"] f64_round_normal [of "50 * 2 ^ 47" "- 47"]
    f64_round_normal [of "100 * 2 ^ 46" "- 46"]
  by (simp_all add: power_int_minus)

lemma f64_round_minus: "f64_round (- x) = - f64_round x"
  by (simp add: f64_round_def)

lemma f64_round_le: "x \<le> c \<Longrightarrow> f64_round c = c \<Longrightarrow> f64_round x \<le> c"
  using f64_round_mono [of x c] by simp

lemma f64_round_ge: "c \<le> x \<Longrightarrow> f64_round c = c \<Longrightarrow> c \<le> f64_round x"
  using f64_round_mono [of c x] by simp

section \<open>Operations\<close>

definition f64_of_u64 :: "u64 \<Rightarrow> rat" where
  "f64_of_u64 w = f64_round (of_nat (unat w))"

definition f64_add :: "rat \<Rightarrow> rat \<Rightarrow> rat" where
  "f64_add a b = f64_round (a + b)"

definition f64_sub :: "rat \<Rightarrow> rat \<Rightarrow> rat" where
  "f64_sub a b = f64_round (a - b)"

definition f64_mul :: "rat \<Rightarrow> rat \<Rightarrow> rat" where
  "f64_mul a b = f64_round (a * b)"

definition f64_div :: "rat \<Rightarrow> rat \<Rightarrow> rat" where
  "f64_div a b = f64_round (a / b)"

text \<open>
  The square root: \<open>isqrt\<close> of the argument scaled by \<open>4 ^ s\<close> gives at least 55 bits of the root, the
  odd half unit records that the root is not exact, and rounding that is rounding the real root.
\<close>

fun isqrt :: "nat \<Rightarrow> nat" where
  "isqrt n =
     (if n = 0 then 0
      else let r = 2 * isqrt (n div 4) in if (r + 1) * (r + 1) \<le> n then r + 1 else r)"

declare isqrt.simps [simp del]

definition f64_sqrt :: "rat \<Rightarrow> rat" where
  "f64_sqrt x =
     (if x \<le> 0 then 0
      else let s = nat (60 - rexp x); y = x * 4 ^ s; n = nat \<lfloor>y\<rfloor>; r = isqrt n
           in f64_round ((of_nat r + (if of_nat (r * r) = y then 0 else 1 / 2)) / 2 ^ s))"

text \<open>\<open>as i64\<close> and \<open>as u64\<close>.\<close>

definition rat_trunc :: "rat \<Rightarrow> int" where
  "rat_trunc x = (if 0 \<le> x then \<lfloor>x\<rfloor> else \<lceil>x\<rceil>)"

definition f64_as_i64 :: "rat \<Rightarrow> int" where
  "f64_as_i64 x = max (- (2 ^ 63)) (min (2 ^ 63 - 1) (rat_trunc x))"

definition f64_as_u64 :: "rat \<Rightarrow> u64" where
  "f64_as_u64 x = of_int (max 0 (min (2 ^ 64 - 1) (rat_trunc x)))"

lemma rat_trunc_mono:
  assumes "x \<le> y"
  shows "rat_trunc x \<le> rat_trunc y"
proof (cases "0 \<le> x \<or> y < 0")
  case True
  with assms show ?thesis by (auto simp: rat_trunc_def floor_mono ceiling_mono)
next
  case False
  then have "rat_trunc x \<le> 0" "0 \<le> rat_trunc y"
    by (auto simp: rat_trunc_def ceiling_le_iff)
  then show ?thesis by simp
qed

lemma f64_as_i64_mono: "x \<le> y \<Longrightarrow> f64_as_i64 x \<le> f64_as_i64 y"
  unfolding f64_as_i64_def by (intro max.mono min.mono order_refl rat_trunc_mono)

lemma f64_of_u64_mono: "a \<le> b \<Longrightarrow> f64_of_u64 a \<le> f64_of_u64 b"
  unfolding f64_of_u64_def word_le_nat_alt by (intro f64_round_mono of_nat_mono)

lemma f64_of_u64_nonneg [simp]: "0 \<le> f64_of_u64 w"
  unfolding f64_of_u64_def by (rule f64_round_ge_0) (rule of_nat_0_le_iff)

lemma f64_as_i64_nonneg: "0 \<le> x \<Longrightarrow> 0 \<le> f64_as_i64 x"
  by (simp add: f64_as_i64_def rat_trunc_def le_max_iff_disj)

end
