(* ===== verification/Plugin_Resources.thy ===== *)
theory Plugin_Resources
  imports Sched_Framework F64
begin

text \<open>
  The three resource plugins: \<open>NodeResourcesFit\<close> (\<open>plugins/node_resources_fit.rs\<close>),
  \<open>NodeResourcesBalancedAllocation\<close> (\<open>plugins/balanced_allocation.rs\<close>) and \<open>NodeGpuResourcesFit\<close>
  (\<open>plugins/node_gpu_resources_fit.rs\<close>). Subtraction of \<open>u64\<close> wraps, as in the release build, so the fit
  test is exact only while a node's requested amount does not exceed its allocatable amount.
\<close>

section \<open>NodeResourcesFit\<close>

definition is_fit :: "resources_requirements \<Rightarrow> node_info \<Rightarrow> bool" where
  "is_fit pod_requests node =
     (if res_cpu pod_requests > 0 \<and>
         res_cpu pod_requests > res_cpu (allocatable node) - res_cpu (requested node) then False
      else if res_memory pod_requests > 0 \<and>
              res_memory pod_requests > res_memory (allocatable node) - res_memory (requested node)
      then False
      else True)"

definition fit_is_schedulable_after_pod_event :: "pod_info \<Rightarrow> event_inner \<Rightarrow> hint_result" where
  "fit_is_schedulable_after_pod_event pod ev =
     (case ev of
        EvPod original modified \<Rightarrow> if modified = None then Inr HintQueue else Inr HintSkip
      | EvNode _ _ \<Rightarrow> Inl err_not_pod)"

definition fit_is_schedulable_after_node_change :: "pod_info \<Rightarrow> event_inner \<Rightarrow> hint_result" where
  "fit_is_schedulable_after_node_change pod ev =
     (case ev of
        EvNode original modified \<Rightarrow>
          if is_fit (ps_resources (pod_spec pod)) modified
          then (if original = None then Inr HintQueue else Inr HintQueue)
          else Inr HintSkip
      | EvPod _ _ \<Rightarrow> Inl err_not_node)"

definition fit_events_to_register :: "cluster_event_with_hint list" where
  "fit_events_to_register =
     [\<lparr>ceh_event = \<lparr>ce_resource = PodResource, ce_action_type = Action_Delete\<rparr>,
       ceh_hint_fn = Some fit_is_schedulable_after_pod_event\<rparr>,
      \<lparr>ceh_event = \<lparr>ce_resource = NodeResource,
                    ce_action_type = or Action_Add Action_UpdateNodeAllocatable\<rparr>,
       ceh_hint_fn = Some fit_is_schedulable_after_node_change\<rparr>]"

definition fit_pre_filter ::
    "cycle_state \<Rightarrow> pod_info \<Rightarrow> node_info list \<Rightarrow> cycle_state \<times> string list \<times> status" where
  "fit_pre_filter st pod nodes =
     (cs_write ''PreFilterNodeResourcesFit'' (CV_FitPreFilter (ps_resources (pod_spec pod))) st,
      [], status_default)"

definition fit_filter :: "cycle_state \<Rightarrow> pod_info \<Rightarrow> node_info \<Rightarrow> status" where
  "fit_filter st pod node =
     (case cs_read as_fit_pre_filter st ''PreFilterNodeResourcesFit'' of
        Some req \<Rightarrow>
          if \<not> is_fit req node
          then status_new Unschedulable [''node(s) didn't have enough resource(s)'']
          else status_default
      | None \<Rightarrow> status_error ''Failed to read pre-filter state'')"

definition fit_pre_score ::
    "cycle_state \<Rightarrow> pod_info \<Rightarrow> node_info list \<Rightarrow> cycle_state \<times> status" where
  "fit_pre_score st pod nodes =
     (cs_write ''PreScoreNodeResourcesFit'' (CV_FitPreScore (ps_resources (pod_spec pod))) st,
      status_default)"

definition utilization :: "u64 \<Rightarrow> u64 \<Rightarrow> u64 \<Rightarrow> rat" where
  "utilization req pod alloc =
     (if alloc > 0 then f64_div (f64_of_u64 (req + pod)) (f64_of_u64 alloc) else 0)"

definition calculate_most_allocated_score :: "resources_requirements \<Rightarrow> node_info \<Rightarrow> int" where
  "calculate_most_allocated_score pod_requests node =
     (let cpu_utilization =
            utilization (res_cpu (requested node)) (res_cpu pod_requests) (res_cpu (allocatable node));
          memory_utilization =
            utilization (res_memory (requested node)) (res_memory pod_requests)
              (res_memory (allocatable node));
          avg_utilization = f64_div (f64_add cpu_utilization memory_utilization) 2
      in f64_as_i64 (f64_mul avg_utilization 100))"

definition calculate_least_allocated_score :: "resources_requirements \<Rightarrow> node_info \<Rightarrow> int" where
  "calculate_least_allocated_score pod_requests node =
     wrap_i64 (100 - calculate_most_allocated_score pod_requests node)"

definition fit_score :: "cycle_state \<Rightarrow> pod_info \<Rightarrow> node_info \<Rightarrow> int \<times> status" where
  "fit_score st pod node =
     (case cs_read as_strategy st ''ScoringStrategyConfig'' of
        None \<Rightarrow> (0, status_error ''error configuring scoring strategy'')
      | Some strategy \<Rightarrow>
          (case cs_read as_fit_pre_score st ''PreScoreNodeResourcesFit'' of
             Some req \<Rightarrow>
               ((case strategy of
                   MostAllocated \<Rightarrow> calculate_most_allocated_score req node
                 | LeastAllocated \<Rightarrow> calculate_least_allocated_score req node
                 | RequestedToCapacityRatio \<Rightarrow> calculate_most_allocated_score req node),
                status_default)
           | None \<Rightarrow>
               (0, status_error ''NodeResourcesFit scoring error when get pre-score state'')))"

definition fit_pre_filter_plugin :: pre_filter_plugin where
  "fit_pre_filter_plugin = \<lparr>pfp_name = ''NodeResourcesFit'', pre_filter = fit_pre_filter\<rparr>"
definition fit_filter_plugin :: filter_plugin where
  "fit_filter_plugin = \<lparr>fp_name = ''NodeResourcesFit'', filter_node = fit_filter\<rparr>"
definition fit_pre_score_plugin :: pre_score_plugin where
  "fit_pre_score_plugin = \<lparr>psp_name = ''NodeResourcesFit'', pre_score = fit_pre_score\<rparr>"
definition fit_score_plugin :: score_plugin where
  "fit_score_plugin =
     \<lparr>sp_name = ''NodeResourcesFit'', score = fit_score,
      normalize_score = default_normalize_score 100 False\<rparr>"
definition fit_enqueue_extension :: enqueue_extension where
  "fit_enqueue_extension =
     \<lparr>ee_name = ''NodeResourcesFit'', events_to_register = fit_events_to_register\<rparr>"

section \<open>NodeResourcesBalancedAllocation\<close>

datatype resource_name = Cpu | Memory

definition balanced_resources :: "resource_name list" where
  "balanced_resources = [Cpu, Memory]"

definition balanced_is_schedulable_after_pod_event :: "pod_info \<Rightarrow> event_inner \<Rightarrow> hint_result" where
  "balanced_is_schedulable_after_pod_event pod ev =
     (case ev of
        EvPod original modified \<Rightarrow> if modified = None then Inr HintQueue else Inr HintSkip
      | EvNode _ _ \<Rightarrow> Inl err_not_pod)"

definition balanced_is_fit :: "resources_requirements \<Rightarrow> node_info \<Rightarrow> bool" where
  "balanced_is_fit pod_requests node =
     (if res_cpu pod_requests > 0 \<and>
         res_cpu pod_requests > res_cpu (allocatable node) - res_cpu (requested node) then False
      else if res_memory pod_requests > 0 \<and>
              res_memory pod_requests > res_memory (allocatable node) - res_memory (requested node)
      then False
      else True)"

definition balanced_is_schedulable_after_node_change ::
    "pod_info \<Rightarrow> event_inner \<Rightarrow> hint_result" where
  "balanced_is_schedulable_after_node_change pod ev =
     (case ev of
        EvNode original modified \<Rightarrow>
          if balanced_is_fit (ps_resources (pod_spec pod)) modified
          then (if original = None then Inr HintQueue else Inr HintQueue)
          else Inr HintSkip
      | EvPod _ _ \<Rightarrow> Inl err_not_node)"

definition balanced_events_to_register :: "cluster_event_with_hint list" where
  "balanced_events_to_register =
     [\<lparr>ceh_event = \<lparr>ce_resource = PodResource, ce_action_type = Action_Delete\<rparr>,
       ceh_hint_fn = Some balanced_is_schedulable_after_pod_event\<rparr>,
      \<lparr>ceh_event = \<lparr>ce_resource = NodeResource,
                    ce_action_type = or Action_Add Action_UpdateNodeAllocatable\<rparr>,
       ceh_hint_fn = Some balanced_is_schedulable_after_node_change\<rparr>]"

definition is_best_effort_pod :: "resources_requirements \<Rightarrow> bool" where
  "is_best_effort_pod r \<longleftrightarrow> res_cpu r = 0 \<and> res_memory r = 0"

definition balanced_pre_score ::
    "cycle_state \<Rightarrow> pod_info \<Rightarrow> node_info list \<Rightarrow> cycle_state \<times> status" where
  "balanced_pre_score st pod nodes =
     (let pod_requests = ps_resources (pod_spec pod)
      in if is_best_effort_pod pod_requests then (st, status_new Skip [])
         else (cs_write ''PreScoreNodeResourcesBalancedAllocation''
                 (CV_BalancedPreScore pod_requests) st,
               status_default))"

definition resource_list :: "resource_name list \<Rightarrow> resources_requirements \<Rightarrow> u64 list" where
  "resource_list rs r = map (\<lambda>n. case n of Cpu \<Rightarrow> res_cpu r | Memory \<Rightarrow> res_memory r) rs"

text \<open>
  The fraction of each resource with a non-zero allocatable amount, capped at 1. \<open>zip\<close> is exact for the
  index loop of the source: both lists have one entry per configured resource.
\<close>

definition resource_fractions :: "u64 list \<Rightarrow> u64 list \<Rightarrow> rat list" where
  "resource_fractions req alloc =
     map (\<lambda>(r, a). let fraction = f64_div (f64_of_u64 r) (f64_of_u64 a)
                   in if 1 < fraction then 1 else fraction)
       (filter (\<lambda>(r, a). a \<noteq> 0) (zip req alloc))"

definition balanced_std :: "rat list \<Rightarrow> rat" where
  "balanced_std fs =
     (if length fs = 2 then f64_div \<bar>f64_sub (fs ! 0) (fs ! 1)\<bar> 2
      else if 2 < length fs
      then (let total = fold (\<lambda>f t. f64_add t f) fs 0;
                mean = f64_div total (of_nat (length fs));
                squares = map (\<lambda>f. f64_mul (f64_sub f mean) (f64_sub f mean)) fs;
                variance = f64_div (fold (\<lambda>f t. f64_add t f) squares 0) (of_nat (length fs))
            in f64_sqrt variance)
      else 0)"

definition balanced_resource_scorer :: "u64 list \<Rightarrow> u64 list \<Rightarrow> u64" where
  "balanced_resource_scorer req alloc =
     f64_as_u64 (f64_mul (f64_sub 1 (balanced_std (resource_fractions req alloc))) 100)"

definition balanced_score :: "cycle_state \<Rightarrow> pod_info \<Rightarrow> node_info \<Rightarrow> int \<times> status" where
  "balanced_score st pod node =
     (case cs_read as_balanced_pre_score st ''PreScoreNodeResourcesBalancedAllocation'' of
        Some req \<Rightarrow>
          (let pod_requests_list = resource_list balanced_resources req;
               node_allocatable_list = resource_list balanced_resources (allocatable node);
               node_requested_list = resource_list balanced_resources (requested node);
               total_requested = map (\<lambda>(n, p). n + p) (zip node_requested_list pod_requests_list)
           in (sint (balanced_resource_scorer total_requested node_allocatable_list),
               status_default))
      | None \<Rightarrow> (0, status_new Error [''can't read state'']))"

definition balanced_pre_score_plugin :: pre_score_plugin where
  "balanced_pre_score_plugin =
     \<lparr>psp_name = ''NodeResourcesBalancedAllocation'', pre_score = balanced_pre_score\<rparr>"
definition balanced_score_plugin :: score_plugin where
  "balanced_score_plugin =
     \<lparr>sp_name = ''NodeResourcesBalancedAllocation'', score = balanced_score,
      normalize_score = default_normalize_score 100 False\<rparr>"
definition balanced_enqueue_extension :: enqueue_extension where
  "balanced_enqueue_extension =
     \<lparr>ee_name = ''NodeResourcesBalancedAllocation'',
      events_to_register = balanced_events_to_register\<rparr>"

section \<open>NodeGpuResourcesFit\<close>

definition is_gpu_fit :: "pod_info \<Rightarrow> node_info \<Rightarrow> bool" where
  "is_gpu_fit pod node =
     (if ps_gpu_request (pod_spec pod) = 0 then True
      else case gpu_resources node of
             None \<Rightarrow> False
           | Some gpu \<Rightarrow>
               if saturating_sub (gpu_total gpu) (gpu_requested gpu) < ps_gpu_request (pod_spec pod)
               then False
               else (case ps_gpu_memory_request (pod_spec pod) of
                       Some req_mem \<Rightarrow> \<not> (req_mem > gpu_memory_per_gpu gpu)
                     | None \<Rightarrow> True))"

definition gpu_is_schedulable_after_pod_event :: "pod_info \<Rightarrow> event_inner \<Rightarrow> hint_result" where
  "gpu_is_schedulable_after_pod_event pod ev =
     (case ev of
        EvPod _ modified \<Rightarrow> if modified = None then Inr HintQueue else Inr HintSkip
      | EvNode _ _ \<Rightarrow> Inl err_not_pod)"

definition gpu_is_schedulable_after_node_change :: "pod_info \<Rightarrow> event_inner \<Rightarrow> hint_result" where
  "gpu_is_schedulable_after_node_change pod ev =
     (case ev of
        EvNode _ modified \<Rightarrow> if is_gpu_fit pod modified then Inr HintQueue else Inr HintSkip
      | EvPod _ _ \<Rightarrow> Inl err_not_node)"

definition gpu_events_to_register :: "cluster_event_with_hint list" where
  "gpu_events_to_register =
     [\<lparr>ceh_event = \<lparr>ce_resource = PodResource, ce_action_type = Action_Delete\<rparr>,
       ceh_hint_fn = Some gpu_is_schedulable_after_pod_event\<rparr>,
      \<lparr>ceh_event = \<lparr>ce_resource = NodeResource,
                    ce_action_type = or Action_Add Action_UpdateNodeAllocatable\<rparr>,
       ceh_hint_fn = Some gpu_is_schedulable_after_node_change\<rparr>]"

definition gpu_pre_filter ::
    "cycle_state \<Rightarrow> pod_info \<Rightarrow> node_info list \<Rightarrow> cycle_state \<times> string list \<times> status" where
  "gpu_pre_filter st pod nodes =
     (if ps_gpu_request (pod_spec pod) = 0 then (st, [], status_new Skip [])
      else (cs_write ''PreFilterNodeGpuResourcesFit''
              (CV_GpuPreFilter
                 \<lparr>gpf_gpu_request = ps_gpu_request (pod_spec pod),
                  gpf_gpu_memory_request = ps_gpu_memory_request (pod_spec pod)\<rparr>) st,
            [], status_default))"

definition gpu_filter :: "cycle_state \<Rightarrow> pod_info \<Rightarrow> node_info \<Rightarrow> status" where
  "gpu_filter st pod node =
     (case cs_read as_gpu_pre_filter st ''PreFilterNodeGpuResourcesFit'' of
        None \<Rightarrow> status_default
      | Some s \<Rightarrow>
          (case gpu_resources node of
             None \<Rightarrow> status_new Unschedulable [''node has no GPU resources'']
           | Some gpu \<Rightarrow>
               if saturating_sub (gpu_total gpu) (gpu_requested gpu) < gpf_gpu_request s
               then status_new Unschedulable [''node(s) didn't have enough GPU(s)'']
               else if (case gpf_gpu_memory_request s of
                          Some req_mem \<Rightarrow> req_mem > gpu_memory_per_gpu gpu
                        | None \<Rightarrow> False)
               then status_new Unschedulable [''node(s) didn't have enough GPU memory per card'']
               else status_default))"

definition gpu_pre_score ::
    "cycle_state \<Rightarrow> pod_info \<Rightarrow> node_info list \<Rightarrow> cycle_state \<times> status" where
  "gpu_pre_score st pod nodes =
     (if ps_gpu_request (pod_spec pod) = 0 then (st, status_new Skip [])
      else (cs_write ''PreScoreNodeGpuResourcesFit''
              (CV_GpuPreScore (ps_gpu_request (pod_spec pod))) st,
            status_default))"

definition gpu_score :: "cycle_state \<Rightarrow> pod_info \<Rightarrow> node_info \<Rightarrow> int \<times> status" where
  "gpu_score st pod node =
     (case cs_read as_gpu_pre_score st ''PreScoreNodeGpuResourcesFit'' of
        None \<Rightarrow> (0, status_error ''missing GPU prescore state'')
      | Some req \<Rightarrow>
          (case gpu_resources node of
             None \<Rightarrow> (0, status_default)
           | Some gpu \<Rightarrow>
               if gpu_total gpu = 0 then (0, status_default)
               else
                 (let used_after = min (saturating_add (gpu_requested gpu) req) (gpu_total gpu);
                      free_after = saturating_sub (gpu_total gpu) used_after
                  in (i64_div (wrap_i64 (uint free_after * 100)) (uint (gpu_total gpu)),
                      status_default))))"

definition gpu_pre_filter_plugin :: pre_filter_plugin where
  "gpu_pre_filter_plugin = \<lparr>pfp_name = ''NodeGpuResourcesFit'', pre_filter = gpu_pre_filter\<rparr>"
definition gpu_filter_plugin :: filter_plugin where
  "gpu_filter_plugin = \<lparr>fp_name = ''NodeGpuResourcesFit'', filter_node = gpu_filter\<rparr>"
definition gpu_pre_score_plugin :: pre_score_plugin where
  "gpu_pre_score_plugin = \<lparr>psp_name = ''NodeGpuResourcesFit'', pre_score = gpu_pre_score\<rparr>"
definition gpu_score_plugin :: score_plugin where
  "gpu_score_plugin =
     \<lparr>sp_name = ''NodeGpuResourcesFit'', score = gpu_score,
      normalize_score = default_normalize_score 100 False\<rparr>"
definition gpu_enqueue_extension :: enqueue_extension where
  "gpu_enqueue_extension =
     \<lparr>ee_name = ''NodeGpuResourcesFit'', events_to_register = gpu_events_to_register\<rparr>"

section \<open>Fit is the comparison of totals\<close>

text \<open>While nothing is over-committed, the fit test compares the true sums.\<close>

definition within_allocatable :: "node_info \<Rightarrow> bool" where
  "within_allocatable n \<longleftrightarrow>
     res_cpu (requested n) \<le> res_cpu (allocatable n) \<and>
     res_memory (requested n) \<le> res_memory (allocatable n)"

lemma word_fit_iff:
  fixes p a r :: "'a::len word"
  assumes "r \<le> a"
  shows "\<not> (p > 0 \<and> p > a - r) \<longleftrightarrow> unat r + unat p \<le> unat a"
  using assms by (auto simp: word_le_nat_alt word_less_nat_alt unat_sub)

lemma is_fit_iff:
  assumes "within_allocatable n"
  shows "is_fit r n \<longleftrightarrow>
           unat (res_cpu (requested n)) + unat (res_cpu r) \<le> unat (res_cpu (allocatable n)) \<and>
           unat (res_memory (requested n)) + unat (res_memory r) \<le> unat (res_memory (allocatable n))"
  using assms word_fit_iff [of "res_cpu (requested n)" "res_cpu (allocatable n)" "res_cpu r"]
    word_fit_iff [of "res_memory (requested n)" "res_memory (allocatable n)" "res_memory r"]
  by (auto simp: is_fit_def within_allocatable_def)

lemma balanced_is_fit_eq: "balanced_is_fit = is_fit"
  by (intro ext) (simp add: balanced_is_fit_def is_fit_def)

section \<open>Ranges of the scores\<close>

lemma utilization_nonneg: "0 \<le> utilization r p a"
  by (auto simp: utilization_def f64_div_def intro!: f64_round_ge_0 divide_nonneg_nonneg)

lemma utilization_le_1:
  assumes "r + p \<le> a"
  shows "utilization r p a \<le> 1"
proof (cases "a > 0")
  case True
  have "f64_of_u64 (r + p) \<le> f64_of_u64 a" using assms by (rule f64_of_u64_mono)
  then have "f64_of_u64 (r + p) / f64_of_u64 a \<le> 1"
    using f64_of_u64_nonneg [of a]
    by (cases "f64_of_u64 a = 0") (auto simp: divide_le_eq_1 simp del: f64_of_u64_nonneg)
  then show ?thesis
    using True by (simp add: utilization_def f64_div_def f64_round_le)
next
  case False
  then show ?thesis by (simp add: utilization_def)
qed

lemma most_allocated_nonneg: "0 \<le> calculate_most_allocated_score r n"
proof -
  have "0 \<le> f64_mul (f64_div (f64_add (utilization a b c) (utilization d e f)) 2) 100" for a b c d e f
    by (auto simp: f64_mul_def f64_div_def f64_add_def utilization_nonneg intro!: f64_round_ge_0
        divide_nonneg_nonneg mult_nonneg_nonneg add_nonneg_nonneg)
  then show ?thesis
    by (simp add: calculate_most_allocated_score_def Let_def f64_as_i64_nonneg)
qed

lemma most_allocated_le_100:
  assumes "res_cpu (requested n) + res_cpu r \<le> res_cpu (allocatable n)"
    and "res_memory (requested n) + res_memory r \<le> res_memory (allocatable n)"
  shows "calculate_most_allocated_score r n \<le> 100"
proof -
  let ?c = "utilization (res_cpu (requested n)) (res_cpu r) (res_cpu (allocatable n))"
  let ?m = "utilization (res_memory (requested n)) (res_memory r) (res_memory (allocatable n))"
  have "f64_add ?c ?m \<le> 2"
    using utilization_le_1 [OF assms(1)] utilization_le_1 [OF assms(2)]
    by (simp add: f64_add_def f64_round_le)
  then have "f64_div (f64_add ?c ?m) 2 \<le> 1"
    by (simp add: f64_div_def f64_round_le)
  then have "f64_mul (f64_div (f64_add ?c ?m) 2) 100 \<le> 100"
    by (simp add: f64_mul_def f64_round_le)
  then have "f64_as_i64 (f64_mul (f64_div (f64_add ?c ?m) 2) 100) \<le> f64_as_i64 100"
    by (rule f64_as_i64_mono)
  then show ?thesis
    by (simp add: calculate_most_allocated_score_def Let_def f64_as_i64_def rat_trunc_def)
qed

lemma least_allocated_range:
  assumes "res_cpu (requested n) + res_cpu r \<le> res_cpu (allocatable n)"
    and "res_memory (requested n) + res_memory r \<le> res_memory (allocatable n)"
  shows "0 \<le> calculate_least_allocated_score r n" "calculate_least_allocated_score r n \<le> 100"
  using most_allocated_nonneg [of r n] most_allocated_le_100 [OF assms]
  by (simp_all add: calculate_least_allocated_score_def in_i64_def)

text \<open>More load on a node never raises its least-allocated score.\<close>

lemma utilization_mono:
  assumes "r + p \<le> r' + p'"
  shows "utilization r p a \<le> utilization r' p' a"
  using f64_of_u64_mono [OF assms]
  by (auto simp: utilization_def f64_div_def intro!: f64_round_mono divide_right_mono)

lemma most_allocated_mono:
  assumes "res_cpu (requested n) + res_cpu r \<le> res_cpu (requested n') + res_cpu r"
    and "res_memory (requested n) + res_memory r \<le> res_memory (requested n') + res_memory r"
    and "allocatable n = allocatable n'"
  shows "calculate_most_allocated_score r n \<le> calculate_most_allocated_score r n'"
  using utilization_mono [OF assms(1), of "res_cpu (allocatable n')"]
    utilization_mono [OF assms(2), of "res_memory (allocatable n')"] assms(3)
  unfolding calculate_most_allocated_score_def Let_def f64_mul_def f64_div_def f64_add_def
  by (intro f64_as_i64_mono f64_round_mono mult_right_mono divide_right_mono) auto

lemma resource_fractions_range: "f \<in> set (resource_fractions req alloc) \<Longrightarrow> 0 \<le> f \<and> f \<le> 1"
  by (auto simp: resource_fractions_def Let_def f64_div_def
      intro!: f64_round_ge_0 divide_nonneg_nonneg)

lemma balanced_std_range:
  assumes "\<forall>f\<in>set fs. 0 \<le> f \<and> f \<le> 1" "length fs \<le> 2"
  shows "0 \<le> balanced_std fs" "balanced_std fs \<le> 1 / 2"
proof -
  have "\<bar>f64_sub (fs ! 0) (fs ! 1)\<bar> \<le> 1" if "length fs = 2"
  proof -
    have "0 \<le> fs ! 0" "fs ! 0 \<le> 1" "0 \<le> fs ! 1" "fs ! 1 \<le> 1" using assms(1) that by simp_all
    then have "- 1 \<le> fs ! 0 - fs ! 1" "fs ! 0 - fs ! 1 \<le> 1" by linarith+
    then show ?thesis
      by (auto simp: f64_sub_def abs_le_iff f64_round_le simp flip: f64_round_minus)
  qed
  then have "length fs = 2 \<Longrightarrow> f64_div \<bar>f64_sub (fs ! 0) (fs ! 1)\<bar> 2 \<le> 1 / 2"
    unfolding f64_div_def by (intro f64_round_le) simp_all
  then show "0 \<le> balanced_std fs" "balanced_std fs \<le> 1 / 2"
    using assms(2) by (auto simp: balanced_std_def f64_div_def intro!: f64_round_ge_0)
qed

lemma balanced_scorer_range:
  assumes "length req \<le> 2"
  shows "50 \<le> uint (balanced_resource_scorer req alloc)"
    and "uint (balanced_resource_scorer req alloc) \<le> 100"
proof -
  let ?s = "balanced_std (resource_fractions req alloc)"
  have "length (resource_fractions req alloc) \<le> 2"
    using assms unfolding resource_fractions_def length_map
    by (intro order.trans [OF length_filter_le]) simp
  then have "0 \<le> ?s" "?s \<le> 1 / 2"
    using balanced_std_range resource_fractions_range by blast+
  then have "1 / 2 \<le> f64_sub 1 ?s" "f64_sub 1 ?s \<le> 1"
    unfolding f64_sub_def by (intro f64_round_ge f64_round_le; simp)+
  then have "50 \<le> f64_mul (f64_sub 1 ?s) 100" "f64_mul (f64_sub 1 ?s) 100 \<le> 100"
    by (simp_all add: f64_mul_def f64_round_le f64_round_ge)
  then have "rat_trunc 50 \<le> rat_trunc (f64_mul (f64_sub 1 ?s) 100)"
    "rat_trunc (f64_mul (f64_sub 1 ?s) 100) \<le> rat_trunc 100"
    by (blast intro: rat_trunc_mono)+
  then have t: "50 \<le> rat_trunc (f64_mul (f64_sub 1 ?s) 100)"
    "rat_trunc (f64_mul (f64_sub 1 ?s) 100) \<le> 100"
    by (simp_all add: rat_trunc_def)
  then have "uint (balanced_resource_scorer req alloc) = rat_trunc (f64_mul (f64_sub 1 ?s) 100)"
    by (simp add: balanced_resource_scorer_def f64_as_u64_def uint_word_of_int)
  with t show "50 \<le> uint (balanced_resource_scorer req alloc)"
    "uint (balanced_resource_scorer req alloc) \<le> 100" by simp_all
qed

lemma sint_eq_uint_small:
  assumes "uint (w :: u64) \<le> 100"
  shows "sint w = uint w"
proof -
  have "- (2 ^ 63) \<le> uint w" by (rule order.trans [of _ 0]) simp_all
  moreover have "uint w < 2 ^ 63" using assms by simp
  ultimately show ?thesis by (simp add: sint_uint signed_take_bit_int_eq_self)
qed

lemma balanced_score_range:
  "0 \<le> fst (balanced_score st pod n) \<and> fst (balanced_score st pod n) \<le> 100"
proof (cases "cs_read as_balanced_pre_score st ''PreScoreNodeResourcesBalancedAllocation''")
  case None
  then show ?thesis by (simp add: balanced_score_def)
next
  case (Some req)
  let ?t = "map (\<lambda>(n, p). n + p) (zip (resource_list balanced_resources (requested n))
      (resource_list balanced_resources req))"
  have "length ?t \<le> 2" by (simp add: resource_list_def balanced_resources_def)
  then show ?thesis
    using balanced_scorer_range [of ?t "resource_list balanced_resources (allocatable n)"] Some
    by (simp add: balanced_score_def Let_def sint_eq_uint_small)
qed

lemma gpu_score_range: "0 \<le> fst (gpu_score st pod n) \<and> fst (gpu_score st pod n) \<le> 100"
proof -
  have *: "0 \<le> i64_div (wrap_i64 (uint (saturating_sub t u) * 100)) (uint t) \<and>
           i64_div (wrap_i64 (uint (saturating_sub t u) * 100)) (uint t) \<le> 100"
    if t: "t \<noteq> 0" for t u :: u32
  proof -
    have t0: "0 < uint t" using t by (simp add: word_neq_0_conv word_less_def)
    have f: "0 \<le> uint (saturating_sub t u)" "uint (saturating_sub t u) \<le> uint t"
      unfolding uint_nat unat_saturating_sub by linarith+
    have t32: "uint t < 4294967296" using uint_lt2p [of t] by simp
    have "in_i64 (uint (saturating_sub t u) * 100)"
      using f t32 by (intro in_i64_nonnegI) linarith+
    moreover have "uint (saturating_sub t u) * 100 div uint t \<le> uint t * 100 div uint t"
      using f t0 by (intro zdiv_mono1) auto
    ultimately show ?thesis
      using f t0 by (simp add: i64_div_nonneg pos_imp_zdiv_nonneg_iff)
  qed
  show ?thesis
    using * by (auto simp: gpu_score_def Let_def split: option.splits)
qed

text \<open>
  The scorers meet the contract of the framework: the GPU and the balanced scorer on every node, the fit
  scorer on the nodes whose totals stay within the allocatable amounts, for either of its two formulas.
\<close>

definition room_for :: "resources_requirements \<Rightarrow> node_info \<Rightarrow> bool" where
  "room_for r n \<longleftrightarrow>
     res_cpu (requested n) + res_cpu r \<le> res_cpu (allocatable n) \<and>
     res_memory (requested n) + res_memory r \<le> res_memory (allocatable n)"

interpretation gpu_scorer: bounded_scorer "\<lambda>n. fst (gpu_score st pod n)" "\<lambda>_. True" 100
  for st pod
  by unfold_locales (use gpu_score_range in auto)

interpretation balanced_scorer: bounded_scorer "\<lambda>n. fst (balanced_score st pod n)" "\<lambda>_. True" 100
  for st pod
  by unfold_locales (use balanced_score_range in auto)

interpretation least_allocated_scorer:
  bounded_scorer "calculate_least_allocated_score r" "room_for r" 100
  for r
  by unfold_locales (use least_allocated_range in \<open>auto simp: room_for_def\<close>)

interpretation most_allocated_scorer:
  bounded_scorer "calculate_most_allocated_score r" "room_for r" 100
  for r
  by unfold_locales (use most_allocated_nonneg most_allocated_le_100 in \<open>auto simp: room_for_def\<close>)

lemma is_fit_room_for:
  assumes "within_allocatable n" "is_fit r n"
  shows "room_for r n"
proof -
  have u: "unat a + unat b \<le> unat c \<Longrightarrow> a + b \<le> c" for a b c :: u64
    using unsigned_less [of c, where 'a = nat] by (simp add: word_le_nat_alt unat_word_ariths)
  show ?thesis
    using assms is_fit_iff [OF assms(1), of r] by (auto simp: room_for_def intro: u)
qed

section \<open>The GPU filter\<close>

lemma gpu_filter_pre_filter:
  assumes "gpu_pre_filter st pod nodes = (st', ns, s)" "st_code s \<noteq> Skip"
  shows "st_code (gpu_filter st' pod n) = (if is_gpu_fit pod n then Success else Unschedulable)"
  using assms
  by (auto simp: gpu_pre_filter_def gpu_filter_def is_gpu_fit_def as_gpu_pre_filter_def
      split: option.splits if_splits)

lemma is_gpu_fit_iff:
  "is_gpu_fit pod n \<longleftrightarrow>
     ps_gpu_request (pod_spec pod) = 0 \<or>
     (\<exists>g. gpu_resources n = Some g \<and>
        unat (gpu_requested g) + unat (ps_gpu_request (pod_spec pod)) \<le> unat (gpu_total g) \<and>
        (case ps_gpu_memory_request (pod_spec pod) of
           None \<Rightarrow> True | Some m \<Rightarrow> m \<le> gpu_memory_per_gpu g))"
proof -
  have *: "saturating_sub t u < p \<longleftrightarrow> \<not> unat u + unat p \<le> unat t" if "p \<noteq> 0" for t u p :: u32
  proof -
    have "0 < unat p" using that by (simp add: unat_gt_0)
    then show ?thesis by (auto simp: word_less_nat_alt unat_saturating_sub)
  qed
  show ?thesis
    by (cases "ps_gpu_request (pod_spec pod) = 0")
      (auto simp: is_gpu_fit_def * not_less split: option.splits)
qed

end
