(* ===== verification/Sched_Cache.thy ===== *)
theory Sched_Cache
  imports Plugin_Resources
begin

text \<open>
  The scheduler's cache of the cluster, \<open>libscheduler/src/cache.rs\<close>: pods and nodes by name, and the
  resources requested on each node. A \<open>get_mut\<close> that is written through is a lookup followed by an insert at
  the same key. The release build wraps on \<open>+=\<close> and \<open>-=\<close>, which are the operations of \<open>u64\<close> words;
  the GPU counter saturates.

  The invariant of the cache is that the resources requested on a node are the sum over the pods whose
  \<open>scheduled\<close> field names it. It is stated in word arithmetic, so it holds through any wrap-around; the
  lemmas say which operations keep it, and under which condition \<open>assume\<close> and \<open>update_pod\<close> do.
\<close>

record cache =
  cache_pods :: "(string, pod_info) hashmap"
  cache_nodes :: "(string, node_info) hashmap"

definition cache_new :: cache where
  "cache_new = \<lparr>cache_pods = [], cache_nodes = []\<rparr>"

section \<open>Operations\<close>

definition set_nodes :: "node_info list \<Rightarrow> cache \<Rightarrow> cache" where
  "set_nodes nodes c =
     c\<lparr>cache_nodes := fold (\<lambda>n m. hm_insert (node_name n) n m) nodes (cache_nodes c)\<rparr>"

definition add_fail :: "string \<Rightarrow> cache \<Rightarrow> cache \<times> bool" where
  "add_fail pname c =
     (case hm_get (cache_pods c) pname of
        None \<Rightarrow> (c, False)
      | Some p \<Rightarrow>
          (c\<lparr>cache_pods :=
               hm_insert pname
                 (p\<lparr>queued_info := (queued_info p)\<lparr>attempts := attempts (queued_info p) + 1\<rparr>\<rparr>)
                 (cache_pods c)\<rparr>,
           True))"

text \<open>The effect of a placement on the node, and its reversal.\<close>

definition charge_node :: "pod_info \<Rightarrow> node_info \<Rightarrow> node_info" where
  "charge_node p n =
     (let n' = n\<lparr>requested :=
            \<lparr>res_cpu = res_cpu (requested n) + res_cpu (ps_resources (pod_spec p)),
             res_memory = res_memory (requested n) + res_memory (ps_resources (pod_spec p))\<rparr>\<rparr>
      in case gpu_resources n of
           Some g \<Rightarrow>
             if ps_gpu_request (pod_spec p) > 0
             then n'\<lparr>gpu_resources :=
                    Some (g\<lparr>gpu_requested :=
                       saturating_add (gpu_requested g) (ps_gpu_request (pod_spec p))\<rparr>)\<rparr>
             else n'
         | None \<Rightarrow> n')"

definition release_node :: "pod_info \<Rightarrow> node_info \<Rightarrow> node_info" where
  "release_node p n =
     (let n' = n\<lparr>requested :=
            \<lparr>res_cpu = res_cpu (requested n) - res_cpu (ps_resources (pod_spec p)),
             res_memory = res_memory (requested n) - res_memory (ps_resources (pod_spec p))\<rparr>\<rparr>
      in case gpu_resources n of
           Some g \<Rightarrow>
             if ps_gpu_request (pod_spec p) > 0
             then n'\<lparr>gpu_resources :=
                    Some (g\<lparr>gpu_requested :=
                       saturating_sub (gpu_requested g) (ps_gpu_request (pod_spec p))\<rparr>)\<rparr>
             else n'
         | None \<Rightarrow> n')"

definition assume_pod :: "string \<Rightarrow> string \<Rightarrow> cache \<Rightarrow> cache \<times> bool" where
  "assume_pod pname nname c =
     (case hm_get (cache_pods c) pname of
        None \<Rightarrow> (c, False)
      | Some pod \<Rightarrow>
          if scheduled pod = Some nname then (c, True)
          else (case hm_get (cache_nodes c) nname of
                  None \<Rightarrow> (c, False)
                | Some node \<Rightarrow>
                    (c\<lparr>cache_pods := hm_insert pname (pod\<lparr>scheduled := Some nname\<rparr>) (cache_pods c),
                       cache_nodes := hm_insert nname (charge_node pod node) (cache_nodes c)\<rparr>,
                     True)))"

definition unassume_pod :: "string \<Rightarrow> cache \<Rightarrow> cache \<times> pod_info option" where
  "unassume_pod pname c =
     (case hm_get (cache_pods c) pname of
        None \<Rightarrow> (c, None)
      | Some pod \<Rightarrow>
          (case scheduled pod of
             None \<Rightarrow> (c, None)
           | Some nname \<Rightarrow>
               (case hm_get (cache_nodes c) nname of
                  None \<Rightarrow> (c, None)
                | Some node \<Rightarrow>
                    (c\<lparr>cache_pods := hm_insert pname (pod\<lparr>scheduled := None\<rparr>) (cache_pods c),
                       cache_nodes := hm_insert nname (release_node pod node) (cache_nodes c)\<rparr>,
                     Some (pod\<lparr>scheduled := None\<rparr>)))))"

definition update_pod :: "pod_info \<Rightarrow> cache \<Rightarrow> cache \<times> pod_info option" where
  "update_pod pod c =
     (c\<lparr>cache_pods := hm_insert (pod_name pod) pod (cache_pods c)\<rparr>,
      hm_get (cache_pods c) (pod_name pod))"

definition remove_pod :: "string \<Rightarrow> cache \<Rightarrow> cache \<times> pod_info option" where
  "remove_pod pname c =
     (let c' =
        (case hm_get (cache_pods c) pname of
           None \<Rightarrow> c
         | Some p \<Rightarrow>
             (case scheduled p of
                None \<Rightarrow> c
              | Some n \<Rightarrow>
                  (case hm_get (cache_nodes c) n of
                     None \<Rightarrow> c
                   | Some node \<Rightarrow>
                       c\<lparr>cache_nodes := hm_insert n (release_node p node) (cache_nodes c)\<rparr>)))
      in (c'\<lparr>cache_pods := hm_remove pname (cache_pods c')\<rparr>, hm_get (cache_pods c') pname))"

text \<open>
  On an update the function returns the entry after it has been overwritten, not the one it replaced.
\<close>

definition update_node :: "node_info \<Rightarrow> cache \<Rightarrow> cache \<times> node_info option" where
  "update_node new_node c =
     (case hm_get (cache_nodes c) (node_name new_node) of
        Some old_node \<Rightarrow>
          (let gpu_req = (case gpu_resources old_node of Some g \<Rightarrow> gpu_requested g | None \<Rightarrow> 0);
               old_node' =
                 old_node\<lparr>node_labels := node_labels new_node,
                          node_spec := node_spec new_node,
                          allocatable := allocatable new_node,
                          requested := requested old_node,
                          gpu_resources :=
                            map_option (\<lambda>g. g\<lparr>gpu_requested := gpu_req\<rparr>) (gpu_resources new_node)\<rparr>
           in (c\<lparr>cache_nodes := hm_insert (node_name new_node) old_node' (cache_nodes c)\<rparr>,
               Some old_node'))
      | None \<Rightarrow>
          (c\<lparr>cache_nodes := hm_insert (node_name new_node) new_node (cache_nodes c)\<rparr>, None))"

definition scheduled_on :: "string \<Rightarrow> pod_info \<Rightarrow> bool" where
  "scheduled_on nname p \<longleftrightarrow> scheduled p = Some nname"

definition pop_pod_on_node :: "string \<Rightarrow> cache \<Rightarrow> cache \<times> pod_name_with_priority list" where
  "pop_pod_on_node nname c =
     (c\<lparr>cache_pods :=
          hm_map_values
            (\<lambda>p. if scheduled_on nname p
                  then p\<lparr>scheduled := None, queued_info := (queued_info p)\<lparr>attempts := 0\<rparr>\<rparr>
                  else p)
            (cache_pods c)\<rparr>,
      map (\<lambda>p. (ps_priority (pod_spec p), pod_name p))
        (filter (scheduled_on nname) (hm_values (cache_pods c))))"

definition remove_node :: "string \<Rightarrow> cache \<Rightarrow> cache" where
  "remove_node nname c = c\<lparr>cache_nodes := hm_remove nname (cache_nodes c)\<rparr>"

definition get_nodes :: "cache \<Rightarrow> node_info list" where
  "get_nodes c = hm_values (cache_nodes c)"

definition get_pods :: "cache \<Rightarrow> (string, pod_info) hashmap" where
  "get_pods c = cache_pods c"

definition get_pod :: "string \<Rightarrow> cache \<Rightarrow> pod_info option" where
  "get_pod pname c = hm_get (cache_pods c) pname"

lemmas cache_op_defs =
  set_nodes_def add_fail_def assume_pod_def unassume_pod_def update_pod_def remove_pod_def
  update_node_def pop_pod_on_node_def remove_node_def

section \<open>Well-formedness\<close>

definition cache_wf :: "cache \<Rightarrow> bool" where
  "cache_wf c \<longleftrightarrow>
     hm_wf (cache_pods c) \<and> hm_wf (cache_nodes c)
     \<and> (\<forall>k p. hm_get (cache_pods c) k = Some p \<longrightarrow> pod_name p = k)
     \<and> (\<forall>k n. hm_get (cache_nodes c) k = Some n \<longrightarrow> node_name n = k)"

lemma charge_release_name [simp]:
  "node_name (charge_node p n) = node_name n" "node_name (release_node p n) = node_name n"
  "node_labels (charge_node p n) = node_labels n" "node_labels (release_node p n) = node_labels n"
  "node_spec (charge_node p n) = node_spec n" "node_spec (release_node p n) = node_spec n"
  "allocatable (charge_node p n) = allocatable n" "allocatable (release_node p n) = allocatable n"
  by (auto simp: charge_node_def release_node_def Let_def split: option.splits)

lemma charge_release_requested [simp]:
  "res_cpu (requested (charge_node p n)) = res_cpu (requested n) + res_cpu (ps_resources (pod_spec p))"
  "res_memory (requested (charge_node p n)) =
     res_memory (requested n) + res_memory (ps_resources (pod_spec p))"
  "res_cpu (requested (release_node p n)) = res_cpu (requested n) - res_cpu (ps_resources (pod_spec p))"
  "res_memory (requested (release_node p n)) =
     res_memory (requested n) - res_memory (ps_resources (pod_spec p))"
  by (auto simp: charge_node_def release_node_def Let_def split: option.splits)

lemma cache_wf_new: "cache_wf cache_new"
  by (simp add: cache_wf_def cache_new_def)

lemma cache_wf_add_fail: "cache_wf c \<Longrightarrow> cache_wf (fst (add_fail p c))"
  by (auto simp: add_fail_def cache_wf_def split: option.splits if_splits)

lemma cache_wf_assume: "cache_wf c \<Longrightarrow> cache_wf (fst (assume_pod p n c))"
  by (auto simp: assume_pod_def cache_wf_def split: option.splits if_splits)

lemma cache_wf_unassume: "cache_wf c \<Longrightarrow> cache_wf (fst (unassume_pod p c))"
  by (auto simp: unassume_pod_def cache_wf_def split: option.splits if_splits)

lemma cache_wf_update_pod: "cache_wf c \<Longrightarrow> cache_wf (fst (update_pod p c))"
  by (auto simp: update_pod_def cache_wf_def split: option.splits if_splits)

lemma cache_wf_remove_pod: "cache_wf c \<Longrightarrow> cache_wf (fst (remove_pod p c))"
  by (auto simp: remove_pod_def cache_wf_def Let_def split: option.splits if_splits)

lemma cache_wf_update_node: "cache_wf c \<Longrightarrow> cache_wf (fst (update_node n c))"
  by (auto simp: update_node_def cache_wf_def Let_def split: option.splits if_splits)

lemma cache_wf_pop: "cache_wf c \<Longrightarrow> cache_wf (fst (pop_pod_on_node n c))"
  by (auto simp: pop_pod_on_node_def cache_wf_def split: if_splits)

lemma cache_wf_remove_node: "cache_wf c \<Longrightarrow> cache_wf (remove_node n c)"
  by (auto simp: remove_node_def cache_wf_def split: if_splits)

lemma cache_wf_set_nodes: "cache_wf c \<Longrightarrow> cache_wf (set_nodes ns c)"
proof (induction ns arbitrary: c)
  case Nil
  then show ?case by (simp add: set_nodes_def)
next
  case (Cons n ns)
  have "cache_wf (c\<lparr>cache_nodes := hm_insert (node_name n) n (cache_nodes c)\<rparr>)"
    using Cons.prems by (auto simp: cache_wf_def split: if_splits)
  from Cons.IH [OF this] show ?case by (simp add: set_nodes_def)
qed

lemmas cache_wf_ops =
  cache_wf_new cache_wf_add_fail cache_wf_assume cache_wf_unassume cache_wf_update_pod
  cache_wf_remove_pod cache_wf_update_node cache_wf_pop cache_wf_remove_node cache_wf_set_nodes

lemma cache_wf_get_nodes:
  assumes "cache_wf c" "n \<in> set (get_nodes c)"
  shows "hm_get (cache_nodes c) (node_name n) = Some n"
  using assms hm_values_get [of "cache_nodes c" n] by (auto simp: cache_wf_def get_nodes_def)

section \<open>Sums over a map\<close>

definition hm_sum :: "('v \<Rightarrow> 'a::ab_group_add) \<Rightarrow> ('k, 'v) hashmap \<Rightarrow> 'a" where
  "hm_sum g m = sum_list (map g (hm_values m))"

lemma hm_sum_simps [simp]: "hm_sum g [] = 0" "hm_sum g ((k, v) # m) = g v + hm_sum g m"
  by (simp_all add: hm_sum_def hm_values_def)

lemma hm_sum_insert:
  "hm_wf m \<Longrightarrow>
     hm_sum g (hm_insert k v m) = hm_sum g m - (case hm_get m k of Some u \<Rightarrow> g u | None \<Rightarrow> 0) + g v"
  by (induction m) (auto simp: hm_insert_def hm_get_def hm_wf_def)

lemma hm_sum_remove:
  "hm_wf m \<Longrightarrow>
     hm_sum g (hm_remove k m) = hm_sum g m - (case hm_get m k of Some u \<Rightarrow> g u | None \<Rightarrow> 0)"
proof (induction m)
  case Nil
  then show ?case by (simp add: hm_remove_def hm_get_def)
next
  case (Cons a m)
  then have "map_of m (fst a) = None" by (simp add: hm_wf_def map_of_eq_None_iff)
  with Cons show ?case
    by (cases a) (auto simp: hm_remove_def hm_get_def hm_wf_def)
qed

section \<open>The accounting invariant\<close>

text \<open>The share of a pod in the load of a node.\<close>

definition load_cpu :: "string \<Rightarrow> pod_info \<Rightarrow> u64" where
  "load_cpu n p = (if scheduled_on n p then res_cpu (ps_resources (pod_spec p)) else 0)"

definition load_memory :: "string \<Rightarrow> pod_info \<Rightarrow> u64" where
  "load_memory n p = (if scheduled_on n p then res_memory (ps_resources (pod_spec p)) else 0)"

definition node_accounted :: "cache \<Rightarrow> string \<Rightarrow> node_info \<Rightarrow> bool" where
  "node_accounted c k n \<longleftrightarrow>
     res_cpu (requested n) = hm_sum (load_cpu k) (cache_pods c) \<and>
     res_memory (requested n) = hm_sum (load_memory k) (cache_pods c)"

definition accounted :: "cache \<Rightarrow> bool" where
  "accounted c \<longleftrightarrow> (\<forall>k n. hm_get (cache_nodes c) k = Some n \<longrightarrow> node_accounted c k n)"

lemma load_simps [simp]:
  "load_cpu n (p\<lparr>scheduled := Some m\<rparr>) = (if m = n then res_cpu (ps_resources (pod_spec p)) else 0)"
  "load_memory n (p\<lparr>scheduled := Some m\<rparr>) =
     (if m = n then res_memory (ps_resources (pod_spec p)) else 0)"
  "load_cpu n (p\<lparr>scheduled := None\<rparr>) = 0" "load_memory n (p\<lparr>scheduled := None\<rparr>) = 0"
  "load_cpu n (p\<lparr>queued_info := q\<rparr>) = load_cpu n p"
  "load_memory n (p\<lparr>queued_info := q\<rparr>) = load_memory n p"
  by (auto simp: load_cpu_def load_memory_def scheduled_on_def)

lemma load_unscheduled:
  "scheduled p = None \<Longrightarrow> load_cpu n p = 0" "scheduled p = None \<Longrightarrow> load_memory n p = 0"
  "scheduled p = Some m \<Longrightarrow>
     load_cpu n p = (if m = n then res_cpu (ps_resources (pod_spec p)) else 0)"
  "scheduled p = Some m \<Longrightarrow>
     load_memory n p = (if m = n then res_memory (ps_resources (pod_spec p)) else 0)"
  by (auto simp: load_cpu_def load_memory_def scheduled_on_def)

lemma load_elsewhere:
  "\<not> scheduled_on n p \<Longrightarrow> load_cpu n p = 0" "\<not> scheduled_on n p \<Longrightarrow> load_memory n p = 0"
  "scheduled_on m p \<Longrightarrow> n \<noteq> m \<Longrightarrow> load_cpu n p = 0"
  "scheduled_on m p \<Longrightarrow> n \<noteq> m \<Longrightarrow> load_memory n p = 0"
  by (auto simp: load_cpu_def load_memory_def scheduled_on_def)

lemma accounted_add_fail:
  "cache_wf c \<Longrightarrow> accounted c \<Longrightarrow> accounted (fst (add_fail p c))"
  by (auto simp: add_fail_def accounted_def node_accounted_def cache_wf_def hm_sum_insert
      split: option.splits)

lemma accounted_assume:
  assumes "cache_wf c" "accounted c"
    and "\<And>p. get_pod pname c = Some p \<Longrightarrow> scheduled p \<in> {None, Some nname}"
  shows "accounted (fst (assume_pod pname nname c))"
  using assms
  by (fastforce simp: assume_pod_def accounted_def node_accounted_def cache_wf_def hm_sum_insert
      get_pod_def load_unscheduled split: option.splits if_splits)

lemma accounted_unassume:
  assumes "cache_wf c" "accounted c"
  shows "accounted (fst (unassume_pod pname c))"
  using assms
  by (auto simp: unassume_pod_def accounted_def node_accounted_def cache_wf_def hm_sum_insert
      load_unscheduled split: option.splits if_splits)

lemma accounted_remove_pod:
  assumes "cache_wf c" "accounted c"
  shows "accounted (fst (remove_pod pname c))"
  using assms
  by (auto simp: remove_pod_def accounted_def node_accounted_def cache_wf_def hm_sum_remove Let_def
      load_unscheduled split: option.splits if_splits)

text \<open>An update of a pod keeps the invariant when it leaves placement and requests alone.\<close>

definition same_load :: "pod_info \<Rightarrow> pod_info option \<Rightarrow> bool" where
  "same_load p old \<longleftrightarrow>
     (case old of
        None \<Rightarrow> scheduled p = None
      | Some q \<Rightarrow>
          scheduled p = scheduled q \<and>
          (scheduled p = None \<or> ps_resources (pod_spec p) = ps_resources (pod_spec q)))"

lemma accounted_update_pod:
  assumes "cache_wf c" "accounted c" "same_load p (get_pod (pod_name p) c)"
  shows "accounted (fst (update_pod p c))"
  using assms
  by (auto simp: update_pod_def accounted_def node_accounted_def cache_wf_def hm_sum_insert
      get_pod_def same_load_def load_cpu_def load_memory_def scheduled_on_def
      split: option.splits if_splits)

lemma accounted_update_node_known:
  assumes "cache_wf c" "accounted c" "hm_get (cache_nodes c) (node_name n) \<noteq> None"
  shows "accounted (fst (update_node n c))"
  using assms
  by (auto simp: update_node_def accounted_def node_accounted_def Let_def split: option.splits if_splits)

lemma hm_sum_pop:
  "hm_sum (load_cpu k) (cache_pods (fst (pop_pod_on_node n c))) =
     (if k = n then 0 else hm_sum (load_cpu k) (cache_pods c))"
  "hm_sum (load_memory k) (cache_pods (fst (pop_pod_on_node n c))) =
     (if k = n then 0 else hm_sum (load_memory k) (cache_pods c))"
proof -
  let ?clear = "\<lambda>p. if scheduled_on n p
    then p\<lparr>scheduled := None, queued_info := (queued_info p)\<lparr>attempts := 0\<rparr>\<rparr> else p"
  have "hm_sum (load_cpu k) (hm_map_values ?clear m) =
      (if k = n then 0 else hm_sum (load_cpu k) m)" for m :: "(string, pod_info) hashmap"
    by (induction m) (auto simp: hm_map_values_def load_elsewhere)
  moreover have "hm_sum (load_memory k) (hm_map_values ?clear m) =
      (if k = n then 0 else hm_sum (load_memory k) m)" for m :: "(string, pod_info) hashmap"
    by (induction m) (auto simp: hm_map_values_def load_elsewhere)
  ultimately show
    "hm_sum (load_cpu k) (cache_pods (fst (pop_pod_on_node n c))) =
       (if k = n then 0 else hm_sum (load_cpu k) (cache_pods c))"
    "hm_sum (load_memory k) (cache_pods (fst (pop_pod_on_node n c))) =
       (if k = n then 0 else hm_sum (load_memory k) (cache_pods c))"
    by (simp_all add: pop_pod_on_node_def)
qed

lemma accounted_pop_remove_node:
  assumes "accounted c"
  shows "accounted (remove_node n (fst (pop_pod_on_node n c)))"
  using assms hm_sum_pop [of _ n c]
  by (auto simp: remove_node_def accounted_def node_accounted_def pop_pod_on_node_def
      split: if_splits)

text \<open>A node that is new to the cache must come with the load of the pods already recorded on it.\<close>

lemma accounted_update_node_new:
  assumes "cache_wf c" "accounted c" "hm_get (cache_nodes c) (node_name n) = None"
    and "node_accounted c (node_name n) n"
  shows "accounted (fst (update_node n c))"
  using assms
  by (auto simp: update_node_def accounted_def node_accounted_def split: option.splits if_splits)

end
