(* ===== verification/Sched_Queue.thy ===== *)
theory Sched_Queue
  imports Sched_Framework
begin

text \<open>
  \<open>SchedulingQueue\<close> of \<open>libscheduler/src/scheduler.rs\<close>: the active and backoff heaps, the list of
  unschedulable pods, and the moves between them. \<open>Instant::now()\<close> is an argument of the operations that
  read the clock. \<open>Instant + Duration\<close> panics when the sum leaves the clock's 64-bit seconds; the
  operations that compute an expiry return \<open>None\<close> in that case.

  \<open>BinaryHeap\<close> is a list with \<open>pop\<close> removing a greatest element. What the queue relies on is the locale
  \<open>max_heap\<close>, interpreted for both orders the source defines. The lemmas: a pop takes the pod of highest
  priority, the flush of the backoff heap moves exactly the pods that are due, a hint moves exactly the pods
  some hint function asks for, and what each operation does to the pods held by the queue as a whole.
\<close>

section \<open>Heaps\<close>

fun best_by :: "('a \<Rightarrow> 'a \<Rightarrow> bool) \<Rightarrow> 'a \<Rightarrow> 'a list \<Rightarrow> 'a" where
  "best_by le x [] = x"
| "best_by le x (y # ys) = best_by le (if le x y then y else x) ys"

definition heap_push :: "'a \<Rightarrow> 'a list \<Rightarrow> 'a list" where
  "heap_push x h = x # h"

definition heap_pop :: "('a \<Rightarrow> 'a \<Rightarrow> bool) \<Rightarrow> 'a list \<Rightarrow> ('a \<times> 'a list) option" where
  "heap_pop le h =
     (case h of
        [] \<Rightarrow> None
      | x # xs \<Rightarrow> (let b = best_by le x xs in Some (b, remove1 b h)))"

definition heap_peek :: "('a \<Rightarrow> 'a \<Rightarrow> bool) \<Rightarrow> 'a list \<Rightarrow> 'a option" where
  "heap_peek le h = (case h of [] \<Rightarrow> None | x # xs \<Rightarrow> Some (best_by le x xs))"

locale max_heap =
  fixes le :: "'a \<Rightarrow> 'a \<Rightarrow> bool"
    and elems :: "'h \<Rightarrow> 'a multiset"
    and push :: "'a \<Rightarrow> 'h \<Rightarrow> 'h"
    and pop :: "'h \<Rightarrow> ('a \<times> 'h) option"
    and peek :: "'h \<Rightarrow> 'a option"
  assumes le_trans: "le x y \<Longrightarrow> le y z \<Longrightarrow> le x z"
    and elems_push: "elems (push x h) = add_mset x (elems h)"
    and pop_None: "pop h = None \<longleftrightarrow> elems h = {#}"
    and pop_Some: "pop h = Some (x, h') \<Longrightarrow> elems h = add_mset x (elems h')"
    and pop_max: "pop h = Some (x, h') \<Longrightarrow> y \<in># elems h \<Longrightarrow> le y x"
    and peek_pop: "peek h = map_option fst (pop h)"
begin

lemma pop_size: "pop h = Some (x, h') \<Longrightarrow> size (elems h') < size (elems h)"
  by (simp add: pop_Some)

lemma push_pop_nonempty: "pop (push x h) \<noteq> None"
  by (simp add: pop_None elems_push)

text \<open>When the greatest element is not due, none is, for every notion of due that respects the order.\<close>

lemma not_due_all:
  assumes "peek h = Some x" "\<not> due x" "\<And>a b. le a b \<Longrightarrow> due a \<Longrightarrow> due b"
  shows "filter_mset due (elems h) = {#}"
proof -
  obtain h' where "pop h = Some (x, h')" using assms(1) by (auto simp: peek_pop)
  then have "\<forall>y \<in># elems h. \<not> due y" using pop_max assms(2,3) by blast
  then have "filter_mset due (elems h) = filter_mset (\<lambda>_. False) (elems h)"
    by (intro filter_mset_cong) auto
  then show ?thesis by simp
qed

end

lemma best_by_in: "best_by le x xs \<in> set (x # xs)"
  by (induction le x xs rule: best_by.induct) (auto split: if_splits)

lemma best_by_max:
  assumes total: "\<And>a b. le a b \<or> le b a" and trans: "\<And>a b c. le a b \<Longrightarrow> le b c \<Longrightarrow> le a c"
  shows "y \<in> set (x # xs) \<Longrightarrow> le y (best_by le x xs)"
proof (induction xs arbitrary: x y)
  case Nil
  then show ?case using total by auto
next
  case (Cons z zs)
  let ?m = "if le x z then z else x"
  have m: "le x ?m" "le z ?m" using total by auto
  have head: "le ?m (best_by le ?m zs)" by (rule Cons.IH) simp
  show ?case
  proof (cases "y \<in> set zs")
    case True
    then show ?thesis using Cons.IH [of y ?m] by simp
  next
    case False
    then have "y = x \<or> y = z" using Cons.prems by auto
    then have "le y ?m" using m by blast
    then show ?thesis using trans [OF _ head] by simp
  qed
qed

definition active_le :: "pod_name_with_priority \<Rightarrow> pod_name_with_priority \<Rightarrow> bool" where
  "active_le a b \<longleftrightarrow> a \<le> b"

lemma heap_laws:
  fixes le :: "'a \<Rightarrow> 'a \<Rightarrow> bool"
  assumes "\<And>a b. le a b \<or> le b a" "\<And>a b c. le a b \<Longrightarrow> le b c \<Longrightarrow> le a c"
  shows "max_heap le mset heap_push (heap_pop le) (heap_peek le)"
proof
  fix x y :: 'a and h h' :: "'a list"
  show "mset (heap_push x h) = add_mset x (mset h)" by (simp add: heap_push_def)
  show "heap_pop le h = None \<longleftrightarrow> mset h = {#}"
    by (auto simp: heap_pop_def Let_def split: list.splits)
  show "heap_peek le h = map_option fst (heap_pop le h)"
    by (auto simp: heap_pop_def heap_peek_def Let_def split: list.splits)
  assume pop: "heap_pop le h = Some (x, h')"
  then obtain z zs where h: "h = z # zs" "x = best_by le z zs" "h' = remove1 x h"
    by (auto simp: heap_pop_def Let_def split: list.splits)
  then have "x \<in> set h" using best_by_in [of le z zs] by simp
  then show "mset h = add_mset x (mset h')" by (simp add: h(3))
  assume "y \<in># mset h"
  then show "le y x" using best_by_max [of le y z zs, OF _ _ _] assms h by auto
qed (rule assms(2))

interpretation active_heap:
  max_heap active_le mset heap_push "heap_pop active_le" "heap_peek active_le"
  by (rule heap_laws) (auto simp: active_le_def)

interpretation backoff_heap:
  max_heap backoff_pod_le mset heap_push "heap_pop backoff_pod_le" "heap_peek backoff_pod_le"
  by (rule heap_laws) (auto simp: backoff_pod_le_def)

section \<open>The queue\<close>

record scheduling_queue =
  active_queue :: "pod_name_with_priority list"
  backoff_queue :: "backoff_pod list"
  unschedulable_queue :: "(backoff_pod \<times> instant) list"
  pod_events_hint :: "cluster_event_with_hint list"
  node_events_hint :: "cluster_event_with_hint list"
  status_count :: u64

definition queue_new :: "cluster_event_with_hint list \<Rightarrow> scheduling_queue" where
  "queue_new hints =
     (let (node_hints, pod_hints) = partition (\<lambda>e. ce_resource (ceh_event e) = NodeResource) hints
      in \<lparr>active_queue = [], backoff_queue = [], unschedulable_queue = [],
          pod_events_hint = pod_hints, node_events_hint = node_hints, status_count = 0\<rparr>)"

text \<open>\<open>next_pod\<close> waits while the active heap is empty; \<open>None\<close> is that wait.\<close>

definition next_pod :: "scheduling_queue \<Rightarrow> (pod_name_with_priority \<times> scheduling_queue) option" where
  "next_pod q =
     (case heap_pop active_le (active_queue q) of
        None \<Rightarrow> None
      | Some (p, h) \<Rightarrow> Some (p, q\<lparr>active_queue := h\<rparr>))"

definition add_count :: "scheduling_queue \<Rightarrow> scheduling_queue" where
  "add_count q = q\<lparr>status_count := status_count q + 1\<rparr>"

definition queue_push :: "string \<Rightarrow> u64 \<Rightarrow> scheduling_queue \<Rightarrow> scheduling_queue" where
  "queue_push pname priority q =
     add_count (q\<lparr>active_queue := heap_push (priority, pname) (active_queue q)\<rparr>)"

function flush_backoff_loop ::
    "instant \<Rightarrow> pod_name_with_priority list \<Rightarrow> backoff_pod list
       \<Rightarrow> pod_name_with_priority list \<times> backoff_pod list" where
  "flush_backoff_loop now active backoff =
     (case heap_peek backoff_pod_le backoff of
        None \<Rightarrow> (active, backoff)
      | Some first \<Rightarrow>
          if bo_expire first \<le> now
          then (case heap_pop backoff_pod_le backoff of
                  None \<Rightarrow> (active, backoff)
                | Some (pod, backoff') \<Rightarrow>
                    flush_backoff_loop now (heap_push (bo_pod pod) active) backoff')
          else (active, backoff))"
  by pat_completeness auto
termination
  by (relation "measure (\<lambda>(_, _, b). length b)")
    (auto dest: backoff_heap.pop_size simp flip: size_mset)

declare flush_backoff_loop.simps [simp del]

definition flush_backoff_completed :: "instant \<Rightarrow> scheduling_queue \<Rightarrow> scheduling_queue" where
  "flush_backoff_completed now q =
     (let (a, b) = flush_backoff_loop now (active_queue q) (backoff_queue q)
      in add_count (q\<lparr>active_queue := a, backoff_queue := b\<rparr>))"

text \<open>Durations in nanoseconds.\<close>

definition secs :: "nat \<Rightarrow> nat" where "secs n = n * 1000000000"

definition flush_unschedulable_left_over :: "instant \<Rightarrow> scheduling_queue \<Rightarrow> scheduling_queue" where
  "flush_unschedulable_left_over now q =
     (let (a, b) =
        fold
          (\<lambda>(p, t) (a, b).
             if now - t > secs (5 * 60)
             then (if now \<ge> bo_expire p then (heap_push (bo_pod p) a, b) else (a, heap_push p b))
             else (a, b))
          (unschedulable_queue q) (active_queue q, backoff_queue q)
      in add_count (q\<lparr>active_queue := a, backoff_queue := b, unschedulable_queue := []\<rparr>))"

definition instant_add :: "instant \<Rightarrow> nat \<Rightarrow> instant option" where
  "instant_add now d = (if now + d < secs (2 ^ 63) then Some (now + d) else None)"

text \<open>\<open>2_u64.pow(attempts as u32)\<close> seconds; the power wraps in \<open>u64\<close>.\<close>

definition backoff_secs :: "u64 \<Rightarrow> nat" where
  "backoff_secs att = unat ((2 :: u64) ^ unat (ucast att :: u32))"

definition backoff_expire :: "instant \<Rightarrow> u64 \<Rightarrow> instant option" where
  "backoff_expire now att = instant_add now (secs (backoff_secs att))"

definition push_unschedulable ::
    "instant \<Rightarrow> pod_info \<Rightarrow> scheduling_queue \<Rightarrow> scheduling_queue option" where
  "push_unschedulable now pod q =
     (let att = attempts (queued_info pod) + 1
      in case backoff_expire now att of
           None \<Rightarrow> None
         | Some expire \<Rightarrow>
             Some (q\<lparr>unschedulable_queue := unschedulable_queue q @
                       [(\<lparr>bo_pod = (ps_priority (pod_spec pod), pod_name pod), bo_expire = expire\<rparr>,
                         now)]\<rparr>))"

definition push_backoff ::
    "instant \<Rightarrow> pod_info \<Rightarrow> scheduling_queue \<Rightarrow> scheduling_queue option" where
  "push_backoff now pod q =
     (let att = attempts (queued_info pod) + 1
      in case backoff_expire now att of
           None \<Rightarrow> None
         | Some expire \<Rightarrow>
             (let backoff_pod =
                \<lparr>bo_pod = (ps_priority (pod_spec pod), pod_name pod), bo_expire = expire\<rparr>
              in if att > 8
                 then Some (q\<lparr>unschedulable_queue := unschedulable_queue q @ [(backoff_pod, now)]\<rparr>)
                 else Some (q\<lparr>backoff_queue := heap_push backoff_pod (backoff_queue q)\<rparr>)))"

definition hint_wants ::
    "cluster_event_with_hint list \<Rightarrow> event_inner \<Rightarrow> (string, pod_info) hashmap \<Rightarrow> backoff_pod \<Rightarrow> bool" where
  "hint_wants hint_fn event pods p =
     list_ex
       (\<lambda>f. case ceh_hint_fn f of
               Some func \<Rightarrow>
                 (case hm_get pods (snd (bo_pod p)) of
                    Some pod_info \<Rightarrow> func pod_info event = Inr HintQueue
                  | None \<Rightarrow> False)
             | None \<Rightarrow> False)
       hint_fn"

definition hint ::
    "event_inner \<Rightarrow> (string, pod_info) hashmap \<Rightarrow> scheduling_queue \<Rightarrow> scheduling_queue" where
  "hint event pods_snapshot q =
     (let hint_fn = (case event of EvNode _ _ \<Rightarrow> node_events_hint q | EvPod _ _ \<Rightarrow> pod_events_hint q);
          (backoff_to_active, remain_backoff) =
            partition (hint_wants hint_fn event pods_snapshot) (backoff_queue q);
          (unschedulable_to_active, remain_unschedulable) =
            partition (\<lambda>p. hint_wants hint_fn event pods_snapshot (fst p)) (unschedulable_queue q);
          q1 = q\<lparr>backoff_queue := remain_backoff, unschedulable_queue := remain_unschedulable\<rparr>;
          q2 = fold (\<lambda>bp. queue_push (snd (bo_pod bp)) (fst (bo_pod bp))) backoff_to_active q1
      in fold (\<lambda>(bp, _). queue_push (snd (bo_pod bp)) (fst (bo_pod bp))) unschedulable_to_active q2)"

section \<open>The pods a queue holds\<close>

definition queued_pods :: "scheduling_queue \<Rightarrow> pod_name_with_priority multiset" where
  "queued_pods q =
     mset (active_queue q) + image_mset bo_pod (mset (backoff_queue q))
       + image_mset (\<lambda>p. bo_pod (fst p)) (mset (unschedulable_queue q))"

lemma add_count_simps [simp]:
  "active_queue (add_count q) = active_queue q" "backoff_queue (add_count q) = backoff_queue q"
  "unschedulable_queue (add_count q) = unschedulable_queue q"
  "pod_events_hint (add_count q) = pod_events_hint q"
  "node_events_hint (add_count q) = node_events_hint q"
  by (simp_all add: add_count_def)

lemma queued_pods_add_count [simp]: "queued_pods (add_count q) = queued_pods q"
  by (simp add: queued_pods_def)

lemma queue_push_simps [simp]:
  "mset (active_queue (queue_push n p q)) = add_mset (p, n) (mset (active_queue q))"
  "backoff_queue (queue_push n p q) = backoff_queue q"
  "unschedulable_queue (queue_push n p q) = unschedulable_queue q"
  by (simp_all add: queue_push_def heap_push_def)

lemma queued_pods_push [simp]: "queued_pods (queue_push n p q) = add_mset (p, n) (queued_pods q)"
  by (simp add: queued_pods_def)

lemma next_pod_Some:
  assumes "next_pod q = Some (p, q')"
  shows "queued_pods q = add_mset p (queued_pods q')" "p \<in># mset (active_queue q)"
    and "\<forall>r \<in># mset (active_queue q). r \<le> p"
proof -
  obtain h where h: "heap_pop active_le (active_queue q) = Some (p, h)" "q' = q\<lparr>active_queue := h\<rparr>"
    using assms by (auto simp: next_pod_def split: option.splits)
  note e = active_heap.pop_Some [OF h(1)]
  show "queued_pods q = add_mset p (queued_pods q')" "p \<in># mset (active_queue q)"
    using e h(2) by (simp_all add: queued_pods_def)
  show "\<forall>r \<in># mset (active_queue q). r \<le> p"
    using active_heap.pop_max [OF h(1)] by (auto simp: active_le_def)
qed

lemma next_pod_None: "next_pod q = None \<longleftrightarrow> active_queue q = []"
  using active_heap.pop_None [of "active_queue q"] by (auto simp: next_pod_def split: option.splits)

text \<open>The flush of the backoff heap.\<close>

definition due :: "instant \<Rightarrow> backoff_pod \<Rightarrow> bool" where
  "due now p \<longleftrightarrow> bo_expire p \<le> now"

lemma flush_backoff_loop_mset:
  "flush_backoff_loop now a b = (a', b') \<Longrightarrow>
     mset a' = mset a + image_mset bo_pod (filter_mset (due now) (mset b)) \<and>
     mset b' = filter_mset (\<lambda>p. \<not> due now p) (mset b)"
proof (induction now a b arbitrary: a' b' rule: flush_backoff_loop.induct)
  case (1 now a b)
  have unf: "flush_backoff_loop now a b = (a', b')" by (rule "1.prems")
  show ?case
  proof (cases "heap_peek backoff_pod_le b")
    case None
    then have "b = []" by (auto simp: heap_peek_def split: list.splits)
    with unf show ?thesis by (simp add: flush_backoff_loop.simps heap_peek_def)
  next
    case (Some first)
    then obtain b2 where pop: "heap_pop backoff_pod_le b = Some (first, b2)"
      by (auto simp: backoff_heap.peek_pop)
    show ?thesis
    proof (cases "bo_expire first \<le> now")
      case True
      then have "flush_backoff_loop now (heap_push (bo_pod first) a) b2 = (a', b')"
        using unf Some pop by (simp add: flush_backoff_loop.simps [of now a b])
      from "1.IH" [OF Some True pop refl this] backoff_heap.pop_Some [OF pop] True show ?thesis
        by (simp add: due_def heap_push_def)
    next
      case False
      have no: "filter_mset (due now) (mset b) = {#}"
        by (rule backoff_heap.not_due_all [OF Some])
          (use False in \<open>auto simp: due_def backoff_pod_le_def\<close>)
      moreover have "filter_mset (\<lambda>p. \<not> due now p) (mset b) = mset b"
        by (metis no multiset_partition add_0)
      ultimately show ?thesis
        using unf Some False by (simp add: flush_backoff_loop.simps)
    qed
  qed
qed

lemma flush_backoff_completed_queues:
  "mset (active_queue (flush_backoff_completed now q)) =
     mset (active_queue q) + image_mset bo_pod (filter_mset (due now) (mset (backoff_queue q)))"
  "mset (backoff_queue (flush_backoff_completed now q)) =
     filter_mset (\<lambda>p. \<not> due now p) (mset (backoff_queue q))"
  "unschedulable_queue (flush_backoff_completed now q) = unschedulable_queue q"
  using flush_backoff_loop_mset [of now "active_queue q" "backoff_queue q"]
  by (auto simp: flush_backoff_completed_def split: prod.splits)

lemma image_mset_split:
  "image_mset f M = image_mset f (filter_mset P M) + image_mset f (filter_mset (\<lambda>x. \<not> P x) M)"
  by (metis image_mset_union multiset_partition)

lemma queued_pods_flush_backoff: "queued_pods (flush_backoff_completed now q) = queued_pods q"
  unfolding queued_pods_def flush_backoff_completed_queues
    image_mset_split [of bo_pod "mset (backoff_queue q)" "due now"]
  by (simp only: ac_simps)

text \<open>Hints.\<close>

definition event_hints :: "event_inner \<Rightarrow> scheduling_queue \<Rightarrow> cluster_event_with_hint list" where
  "event_hints event q = (case event of EvNode _ _ \<Rightarrow> node_events_hint q | EvPod _ _ \<Rightarrow> pod_events_hint q)"

lemma fold_queue_push:
  "mset (active_queue (fold (\<lambda>x. queue_push (snd (f x)) (fst (f x))) xs q)) =
     mset (active_queue q) + image_mset f (mset xs)"
  "backoff_queue (fold (\<lambda>x. queue_push (snd (f x)) (fst (f x))) xs q) = backoff_queue q"
  "unschedulable_queue (fold (\<lambda>x. queue_push (snd (f x)) (fst (f x))) xs q) = unschedulable_queue q"
  by (induction xs arbitrary: q) auto

lemma hint_unfold:
  "hint e pods q =
     (let wants = hint_wants (event_hints e q) e pods
      in fold (\<lambda>x. queue_push (snd (bo_pod (fst x))) (fst (bo_pod (fst x))))
           (filter (\<lambda>p. wants (fst p)) (unschedulable_queue q))
           (fold (\<lambda>x. queue_push (snd (bo_pod x)) (fst (bo_pod x)))
              (filter wants (backoff_queue q))
              (q\<lparr>backoff_queue := filter (\<lambda>p. \<not> wants p) (backoff_queue q),
                 unschedulable_queue := filter (\<lambda>p. \<not> wants (fst p)) (unschedulable_queue q)\<rparr>)))"
  unfolding hint_def event_hints_def Let_def partition_filter_conv split_beta o_def by simp

lemma hint_queues:
  "mset (active_queue (hint e pods q)) =
     mset (active_queue q)
     + image_mset bo_pod (filter_mset (hint_wants (event_hints e q) e pods) (mset (backoff_queue q)))
     + image_mset (\<lambda>p. bo_pod (fst p))
         (filter_mset (\<lambda>p. hint_wants (event_hints e q) e pods (fst p)) (mset (unschedulable_queue q)))"
  "backoff_queue (hint e pods q) =
     filter (\<lambda>p. \<not> hint_wants (event_hints e q) e pods p) (backoff_queue q)"
  "unschedulable_queue (hint e pods q) =
     filter (\<lambda>p. \<not> hint_wants (event_hints e q) e pods (fst p)) (unschedulable_queue q)"
  unfolding hint_unfold Let_def
    fold_queue_push [of bo_pod] fold_queue_push [of "\<lambda>p. bo_pod (fst p)"]
  by simp_all

lemma queued_pods_hint: "queued_pods (hint e pods q) = queued_pods q"
  unfolding queued_pods_def hint_queues mset_filter
    image_mset_split [of bo_pod "mset (backoff_queue q)" "hint_wants (event_hints e q) e pods"]
    image_mset_split [of "\<lambda>p. bo_pod (fst p)" "mset (unschedulable_queue q)"
      "\<lambda>p. hint_wants (event_hints e q) e pods (fst p)"]
  by (simp only: ac_simps)

text \<open>The backoff of a failed pod.\<close>

lemma backoff_secs_small:
  assumes "unat att < 64"
  shows "backoff_secs att = 2 ^ unat att"
proof -
  have "unat (ucast att :: u32) = unat att"
    using assms by (simp add: unsigned_ucast_eq take_bit_nat_eq_self)
  moreover have "unat ((2 :: u64) ^ unat att) = 2 ^ unat att"
  proof -
    have "(2 :: nat) ^ unat att < 2 ^ LENGTH(64)"
      using assms by (intro power_strict_increasing) auto
    then have "unat (of_nat (2 ^ unat att) :: u64) = 2 ^ unat att"
      by (simp only: unsigned_of_nat take_bit_nat_eq_self of_nat_id)
    then show ?thesis by simp
  qed
  ultimately show ?thesis
    by (simp add: backoff_secs_def)
qed

lemma push_backoff_pods:
  "push_backoff now p q = Some q' \<Longrightarrow>
     queued_pods q' = add_mset (ps_priority (pod_spec p), pod_name p) (queued_pods q)"
  by (auto simp: push_backoff_def queued_pods_def heap_push_def Let_def split: option.splits if_splits)

lemma push_unschedulable_pods:
  "push_unschedulable now p q = Some q' \<Longrightarrow>
     queued_pods q' = add_mset (ps_priority (pod_spec p), pod_name p) (queued_pods q)"
  by (auto simp: push_unschedulable_def queued_pods_def Let_def split: option.splits)

lemma backoff_expire_total:
  assumes "unat att < 63" "now < secs (2 ^ 62)"
  shows "backoff_expire now att = Some (now + secs (2 ^ unat att))"
proof -
  have "(2 :: nat) ^ unat att \<le> 2 ^ 62" using assms(1) by (intro power_increasing) auto
  then have "now + secs (2 ^ unat att) < secs (2 ^ 63)"
    using assms(2) unfolding secs_def by simp
  moreover have "backoff_secs att = 2 ^ unat att"
    using assms(1) by (intro backoff_secs_small) simp
  ultimately show ?thesis
    by (simp add: backoff_expire_def instant_add_def)
qed

end
