(* ===== verification/Plugin_Node.thy ===== *)
theory Plugin_Node
  imports Sched_Framework
begin

text \<open>
  The plugins that look at one node: \<open>NodeAffinity\<close> (\<open>plugins/node_affinity.rs\<close>), \<open>TaintToleration\<close>
  (\<open>plugins/taint_toleration.rs\<close>), \<open>NodeName\<close> (\<open>plugins/node_name.rs\<close>), \<open>NodeUnschedulable\<close>
  (\<open>plugins/node_unschedulable.rs\<close>) and \<open>SchedulingGates\<close> (\<open>plugins/scheduling_gates.rs\<close>). Status reasons
  keep the literal text of the source; the parts rendered with \<open>Debug\<close> are left out. The lemmas
  characterise the nodes each filter accepts and the events after which a rejected pod is queued again.
\<close>

section \<open>NodeAffinity\<close>

definition rna_matches :: "required_node_affinity \<Rightarrow> node_info \<Rightarrow> bool" where
  "rna_matches a node =
     (let label_match =
        \<not> list_ex (\<lambda>(key, value). \<not> (case hm_get (node_labels node) key of
                                         Some v \<Rightarrow> v = value | None \<Rightarrow> False))
            (rna_label_selector a)
      in label_match \<and> ns_matches (rna_node_selector a) node)"

definition get_required_node_affinity :: "pod_info \<Rightarrow> required_node_affinity" where
  "get_required_node_affinity pod =
     \<lparr>rna_label_selector = ps_node_selector (pod_spec pod),
      rna_node_selector =
        (case ps_affinity (pod_spec pod) of
           None \<Rightarrow> node_selector_default
         | Some a \<Rightarrow>
             (case aff_node_affinity a of
                None \<Rightarrow> node_selector_default
              | Some na \<Rightarrow>
                  (case na_required na of
                     None \<Rightarrow> node_selector_default
                   | Some selector \<Rightarrow> selector)))\<rparr>"

definition na_is_schedulable_after_node_change :: "pod_info \<Rightarrow> event_inner \<Rightarrow> hint_result" where
  "na_is_schedulable_after_node_change pod ev =
     (case ev of
        EvPod _ _ \<Rightarrow> Inl err_not_node
      | EvNode original modified \<Rightarrow>
          (let required = get_required_node_affinity pod
           in if rna_matches required modified
              then (case original of
                      Some old \<Rightarrow>
                        if rna_matches required old then Inr HintSkip else Inr HintQueue
                    | None \<Rightarrow> Inr HintQueue)
              else Inr HintSkip))"

definition na_events_to_register :: "cluster_event_with_hint list" where
  "na_events_to_register =
     [\<lparr>ceh_event = \<lparr>ce_resource = NodeResource,
                    ce_action_type = or Action_Add Action_UpdateNodeLabel\<rparr>,
       ceh_hint_fn = Some na_is_schedulable_after_node_change\<rparr>]"

definition na_pre_filter ::
    "cycle_state \<Rightarrow> pod_info \<Rightarrow> node_info list \<Rightarrow> cycle_state \<times> string list \<times> status" where
  "na_pre_filter st pod nodes =
     (let no_node_affinity =
        (case ps_affinity (pod_spec pod) of
           None \<Rightarrow> True
         | Some a \<Rightarrow>
             (case aff_node_affinity a of None \<Rightarrow> True | Some na \<Rightarrow> na_required na = None))
      in if no_node_affinity \<and> ps_node_selector (pod_spec pod) = []
         then (st, [], status_new Skip [])
         else (cs_write ''PreFilterNodeAffinity''
                 (CV_NodeAffinityPreFilter (get_required_node_affinity pod)) st,
               [], status_default))"

definition na_filter :: "cycle_state \<Rightarrow> pod_info \<Rightarrow> node_info \<Rightarrow> status" where
  "na_filter st pod node =
     (case cs_read as_na_pre_filter st ''PreFilterNodeAffinity'' of
        Some required \<Rightarrow>
          if \<not> rna_matches required node
          then status_new UnschedulableAndUnresolvable
                 [''node(s) didn't match Pod's node affinity/selector'']
          else status_default
      | None \<Rightarrow> status_default)"

definition get_pod_preferred_node_affinity :: "pod_info \<Rightarrow> preferred_scheduling_terms" where
  "get_pod_preferred_node_affinity pod =
     (case ps_affinity (pod_spec pod) of
        None \<Rightarrow> preferred_scheduling_terms_default
      | Some a \<Rightarrow>
          (case aff_node_affinity a of
             None \<Rightarrow> preferred_scheduling_terms_default
           | Some na \<Rightarrow>
               (case na_preferred na of
                  None \<Rightarrow> preferred_scheduling_terms_default
                | Some preferred \<Rightarrow> preferred)))"

definition na_pre_score ::
    "cycle_state \<Rightarrow> pod_info \<Rightarrow> node_info list \<Rightarrow> cycle_state \<times> status" where
  "na_pre_score st pod nodes =
     (let preferred = get_pod_preferred_node_affinity pod
      in if pst_terms preferred = [] then (st, status_new Skip [])
         else (cs_write ''PreScoreNodeAffinity'' (CV_NodeAffinityPreScore preferred) st,
               status_default))"

definition na_score :: "cycle_state \<Rightarrow> pod_info \<Rightarrow> node_info \<Rightarrow> int \<times> status" where
  "na_score st pod node =
     (case cs_read as_na_pre_score st ''PreScoreNodeAffinity'' of
        Some preferred \<Rightarrow> (pst_score preferred node, status_default)
      | None \<Rightarrow> (0, status_error ''NodeAffinity scoring error when get pre-score state''))"

definition na_pre_filter_plugin :: pre_filter_plugin where
  "na_pre_filter_plugin = \<lparr>pfp_name = ''NodeAffinity'', pre_filter = na_pre_filter\<rparr>"
definition na_filter_plugin :: filter_plugin where
  "na_filter_plugin = \<lparr>fp_name = ''NodeAffinity'', filter_node = na_filter\<rparr>"
definition na_pre_score_plugin :: pre_score_plugin where
  "na_pre_score_plugin = \<lparr>psp_name = ''NodeAffinity'', pre_score = na_pre_score\<rparr>"
definition na_score_plugin :: score_plugin where
  "na_score_plugin =
     \<lparr>sp_name = ''NodeAffinity'', score = na_score,
      normalize_score = default_normalize_score 100 False\<rparr>"
definition na_enqueue_extension :: enqueue_extension where
  "na_enqueue_extension =
     \<lparr>ee_name = ''NodeAffinity'', events_to_register = na_events_to_register\<rparr>"

section \<open>TaintToleration\<close>

definition tolerations_tolerate_taint :: "toleration list \<Rightarrow> taint \<Rightarrow> bool" where
  "tolerations_tolerate_taint tols t = list_ex (\<lambda>to. tolerate to t) tols"

definition find_untolerated_taint ::
    "taint list \<Rightarrow> toleration list \<Rightarrow> (taint \<Rightarrow> bool) \<Rightarrow> taint option" where
  "find_untolerated_taint ts tols p =
     List.find (\<lambda>t. \<not> tolerations_tolerate_taint tols t) (filter p ts)"

definition do_not_schedule_taints_filter :: "taint \<Rightarrow> bool" where
  "do_not_schedule_taints_filter t \<longleftrightarrow> taint_effect t = NoSchedule \<or> taint_effect t = NoExecute"

definition tt_filter :: "cycle_state \<Rightarrow> pod_info \<Rightarrow> node_info \<Rightarrow> status" where
  "tt_filter st pod node =
     (case find_untolerated_taint (taints (node_spec node)) (ps_tolerations (pod_spec pod))
             (\<lambda>t. taint_effect t = NoSchedule \<or> taint_effect t = NoExecute) of
        Some t \<Rightarrow>
          status_new UnschedulableAndUnresolvable
            [''node(s) had untolerated taint {'' @ taint_value t @ ''}'']
      | None \<Rightarrow> status_new Success [])"

definition tt_pre_score ::
    "cycle_state \<Rightarrow> pod_info \<Rightarrow> node_info list \<Rightarrow> cycle_state \<times> status" where
  "tt_pre_score st pod nodes =
     (cs_write ''PreScoreTaintToleration''
        (CV_Tolerations
           (filter (\<lambda>t. tol_effect t = Some PreferNoSchedule \<or> tol_effect t = None)
              (ps_tolerations (pod_spec pod)))) st,
      status_default)"

definition tt_score :: "cycle_state \<Rightarrow> pod_info \<Rightarrow> node_info \<Rightarrow> int \<times> status" where
  "tt_score st pod node =
     (case cs_read as_tolerations st ''PreScoreTaintToleration'' of
        Some tols \<Rightarrow>
          (int (length (filter
             (\<lambda>t. taint_effect t = PreferNoSchedule \<and> tolerations_tolerate_taint tols t)
             (taints (node_spec node)))), status_default)
      | None \<Rightarrow> (0, status_error ''PreScoreState not found''))"

definition tt_is_schedulable_after_node_change :: "pod_info \<Rightarrow> event_inner \<Rightarrow> hint_result" where
  "tt_is_schedulable_after_node_change pod ev =
     (case ev of
        EvPod _ _ \<Rightarrow> Inl err_not_node
      | EvNode old new \<Rightarrow>
          (let tols = ps_tolerations (pod_spec pod);
               was_untolerated =
                 (case old of
                    None \<Rightarrow> True
                  | Some o' \<Rightarrow>
                      find_untolerated_taint (taints (node_spec o')) tols
                        do_not_schedule_taints_filter \<noteq> None);
               is_untolerated =
                 find_untolerated_taint (taints (node_spec new)) tols
                   do_not_schedule_taints_filter \<noteq> None
           in if was_untolerated \<and> \<not> is_untolerated then Inr HintQueue else Inr HintSkip))"

definition tt_is_schedulable_after_pod_toleration_change ::
    "pod_info \<Rightarrow> event_inner \<Rightarrow> hint_result" where
  "tt_is_schedulable_after_pod_toleration_change pod ev =
     (case ev of
        EvNode _ _ \<Rightarrow> Inl err_not_pod
      | EvPod old new \<Rightarrow>
          if new \<noteq> None \<and> pod_name (the new) = pod_name pod then Inr HintQueue else Inr HintSkip)"

definition tt_events_to_register :: "cluster_event_with_hint list" where
  "tt_events_to_register =
     [\<lparr>ceh_event = \<lparr>ce_resource = NodeResource,
                    ce_action_type = or Action_Add Action_UpdateNodeTaint\<rparr>,
       ceh_hint_fn = Some tt_is_schedulable_after_node_change\<rparr>,
      \<lparr>ceh_event = \<lparr>ce_resource = PodResource, ce_action_type = Action_UpdatePodToleration\<rparr>,
       ceh_hint_fn = Some tt_is_schedulable_after_pod_toleration_change\<rparr>]"

definition tt_filter_plugin :: filter_plugin where
  "tt_filter_plugin = \<lparr>fp_name = ''TaintToleration'', filter_node = tt_filter\<rparr>"
definition tt_pre_score_plugin :: pre_score_plugin where
  "tt_pre_score_plugin = \<lparr>psp_name = ''TaintToleration'', pre_score = tt_pre_score\<rparr>"
definition tt_score_plugin :: score_plugin where
  "tt_score_plugin =
     \<lparr>sp_name = ''TaintToleration'', score = tt_score,
      normalize_score = default_normalize_score 100 True\<rparr>"
definition tt_enqueue_extension :: enqueue_extension where
  "tt_enqueue_extension =
     \<lparr>ee_name = ''TaintToleration'', events_to_register = tt_events_to_register\<rparr>"

section \<open>NodeName, NodeUnschedulable and SchedulingGates\<close>

definition nn_filter :: "cycle_state \<Rightarrow> pod_info \<Rightarrow> node_info \<Rightarrow> status" where
  "nn_filter st pod node =
     (if ps_node_name (pod_spec pod) = None \<or> the (ps_node_name (pod_spec pod)) = node_name node
      then status_default
      else status_new UnschedulableAndUnresolvable
             [''node(s) didn't match the requested node name''])"

definition nn_events_to_register :: "cluster_event_with_hint list" where
  "nn_events_to_register =
     [\<lparr>ceh_event = \<lparr>ce_resource = NodeResource, ce_action_type = Action_Add\<rparr>, ceh_hint_fn = None\<rparr>]"

definition nn_filter_plugin :: filter_plugin where
  "nn_filter_plugin = \<lparr>fp_name = ''NodeName'', filter_node = nn_filter\<rparr>"
definition nn_enqueue_extension :: enqueue_extension where
  "nn_enqueue_extension = \<lparr>ee_name = ''NodeName'', events_to_register = nn_events_to_register\<rparr>"

definition nu_filter :: "cycle_state \<Rightarrow> pod_info \<Rightarrow> node_info \<Rightarrow> status" where
  "nu_filter st pod node =
     (if \<not> unschedulable (node_spec node) then status_default
      else if list_ex (\<lambda>tol. tolerate tol (taint_new NodeUnschedulable NoSchedule))
                (ps_tolerations (pod_spec pod))
      then status_default
      else status_new UnschedulableAndUnresolvable [''node(s) were unschedulable''])"

definition nu_filter_plugin :: filter_plugin where
  "nu_filter_plugin = \<lparr>fp_name = ''NodeUnschedulable'', filter_node = nu_filter\<rparr>"

definition sg_pre_enqueue :: "pod_info \<Rightarrow> status" where
  "sg_pre_enqueue pod =
     (if ps_scheduling_gates (pod_spec pod) = [] then status_default
      else status_new UnschedulableAndUnresolvable [''waiting for scheduling gates: ''])"

definition sg_pre_enqueue_plugin :: pre_enqueue_plugin where
  "sg_pre_enqueue_plugin = \<lparr>pe_name = ''SchedulingGates'', pre_enqueue = sg_pre_enqueue\<rparr>"

section \<open>Which nodes the filters accept\<close>

text \<open>The node selector of the pod and its required affinity, as a predicate on a node.\<close>

definition required_affinity_ok :: "pod_info \<Rightarrow> node_info \<Rightarrow> bool" where
  "required_affinity_ok pod n \<longleftrightarrow>
     (\<forall>(k, v)\<in>set (ps_node_selector (pod_spec pod)). hm_get (node_labels n) k = Some v) \<and>
     (\<forall>a na s. ps_affinity (pod_spec pod) = Some a \<and> aff_node_affinity a = Some na \<and>
        na_required na = Some s \<longrightarrow> ns_matches s n)"

lemma rna_matches_required: "rna_matches (get_required_node_affinity pod) n = required_affinity_ok pod n"
  by (auto simp: rna_matches_def get_required_node_affinity_def required_affinity_ok_def
      list_ex_iff ns_matches_def node_selector_default_def split: option.splits)

lemma na_filter_code:
  assumes "na_pre_filter st pod nodes = (st', ns, s)" "st_code s \<noteq> Skip"
  shows "st_code (na_filter st' pod n) =
           (if required_affinity_ok pod n then Success else UnschedulableAndUnresolvable)"
  using assms
  by (auto simp: na_pre_filter_def Let_def na_filter_def as_na_pre_filter_def rna_matches_required
      split: if_splits)

lemma na_pre_filter_skip:
  assumes "na_pre_filter st pod nodes = (st', ns, s)" "st_code s = Skip"
  shows "required_affinity_ok pod n"
  using assms
  by (auto simp: na_pre_filter_def Let_def required_affinity_ok_def split: if_splits option.splits)

definition taints_tolerated :: "pod_info \<Rightarrow> node_info \<Rightarrow> bool" where
  "taints_tolerated pod n \<longleftrightarrow>
     (\<forall>t\<in>set (taints (node_spec n)). taint_effect t \<noteq> PreferNoSchedule \<longrightarrow>
        (\<exists>tol\<in>set (ps_tolerations (pod_spec pod)). tolerate tol t))"

lemma hard_taint_iff: "do_not_schedule_taints_filter t \<longleftrightarrow> taint_effect t \<noteq> PreferNoSchedule"
  by (cases "taint_effect t") (simp_all add: do_not_schedule_taints_filter_def)

lemma find_untolerated_None_iff:
  "find_untolerated_taint (taints (node_spec n)) (ps_tolerations (pod_spec pod))
     do_not_schedule_taints_filter = None \<longleftrightarrow> taints_tolerated pod n"
  by (auto simp: find_untolerated_taint_def find_None_iff tolerations_tolerate_taint_def list_ex_iff
      taints_tolerated_def hard_taint_iff)

lemma tt_filter_code:
  "st_code (tt_filter st pod n) =
     (if taints_tolerated pod n then Success else UnschedulableAndUnresolvable)"
proof -
  have "(\<lambda>t. taint_effect t = NoSchedule \<or> taint_effect t = NoExecute) = do_not_schedule_taints_filter"
    by (intro ext) (simp add: do_not_schedule_taints_filter_def)
  then show ?thesis
    using find_untolerated_None_iff [of n pod] by (auto simp: tt_filter_def split: option.splits)
qed

lemma nn_filter_code:
  "st_code (nn_filter st pod n) =
     (if ps_node_name (pod_spec pod) \<in> {None, Some (node_name n)} then Success
      else UnschedulableAndUnresolvable)"
  by (cases "ps_node_name (pod_spec pod)") (simp_all add: nn_filter_def)

definition cordon_ok :: "pod_info \<Rightarrow> node_info \<Rightarrow> bool" where
  "cordon_ok pod n \<longleftrightarrow>
     unschedulable (node_spec n) \<longrightarrow>
       (\<exists>tol\<in>set (ps_tolerations (pod_spec pod)). tolerate tol (taint_new NodeUnschedulable NoSchedule))"

lemma nu_filter_code:
  "st_code (nu_filter st pod n) = (if cordon_ok pod n then Success else UnschedulableAndUnresolvable)"
  by (auto simp: nu_filter_def cordon_ok_def list_ex_iff)

section \<open>Queueing hints\<close>

text \<open>A node event queues a pod iff it turns the plugin's verdict on that node from reject to accept.\<close>

lemma na_hint_iff:
  "na_is_schedulable_after_node_change pod (EvNode old new) = Inr HintQueue \<longleftrightarrow>
     required_affinity_ok pod new \<and>
     (case old of None \<Rightarrow> True | Some o' \<Rightarrow> \<not> required_affinity_ok pod o')"
  by (auto simp: na_is_schedulable_after_node_change_def Let_def rna_matches_required
      split: option.splits)

lemma tt_hint_iff:
  "tt_is_schedulable_after_node_change pod (EvNode old new) = Inr HintQueue \<longleftrightarrow>
     taints_tolerated pod new \<and>
     (case old of None \<Rightarrow> True | Some o' \<Rightarrow> \<not> taints_tolerated pod o')"
  by (auto simp: tt_is_schedulable_after_node_change_def Let_def
      simp flip: find_untolerated_None_iff split: option.splits)

section \<open>Scores\<close>

lemma tt_score_range:
  "0 \<le> fst (tt_score st pod n) \<and> fst (tt_score st pod n) \<le> int (length (taints (node_spec n)))"
  by (auto simp: tt_score_def split: option.splits)

interpretation tt_scorer:
  bounded_scorer "\<lambda>n. fst (tt_score st pod n)" "\<lambda>n. length (taints (node_spec n)) \<le> 2 ^ 32" "2 ^ 32"
  for st pod
proof unfold_locales
  fix n :: node_info
  assume "length (taints (node_spec n)) \<le> 2 ^ 32"
  then have "int (length (taints (node_spec n))) \<le> 2 ^ 32" by simp
  then show "0 \<le> fst (tt_score st pod n) \<and> fst (tt_score st pod n) \<le> 2 ^ 32"
    using tt_score_range [of st pod n] by simp
qed simp

text \<open>The preferred terms have non-negative weights whose sum stays far below the \<open>i64\<close> range.\<close>

definition sane_terms :: "preferred_scheduling_terms \<Rightarrow> bool" where
  "sane_terms p \<longleftrightarrow>
     (\<forall>t\<in>set (pst_terms p). 0 \<le> pst_weight t) \<and> sum_list (map pst_weight (pst_terms p)) \<le> 2 ^ 32"

lemma pst_score_range:
  assumes "sane_terms p"
  shows "0 \<le> pst_score p n \<and> pst_score p n \<le> 2 ^ 32"
  using assms pst_score_sum [of p n]
    sum_list_filter_le [of "pst_terms p" pst_weight "\<lambda>t. nsr_matches (match_label t) n"]
  by (auto simp: sane_terms_def)

end
