(* ===== verification/Plugin_Pod_Affinity.thy ===== *)
theory Plugin_Pod_Affinity
  imports Sched_Framework
begin

text \<open>
  The \<open>PodAffinity\<close> plugin (\<open>plugins/pod_affinity.rs\<close>): required and preferred affinity and anti-affinity
  to pods already placed, by topology domain. A \<open>HashSet\<close> that is only iterated is a list without
  duplicates. The main lemma says that the two-level index built in \<open>pre_filter\<close> answers exactly the
  question of the specification: which placed pods share a topology domain with a node.
\<close>

section \<open>Label selectors and terms\<close>

definition requirement_matches :: "label_selector_requirement \<Rightarrow> pod_info \<Rightarrow> bool" where
  "requirement_matches req pod =
     (let pod_value = hm_get (pod_labels pod) (lsr_key req)
      in case lsr_operator req of
           LabelSelIn \<Rightarrow>
             (case pod_value of Some v \<Rightarrow> list_ex (\<lambda>val. val = v) (lsr_values req) | None \<Rightarrow> False)
         | LabelSelNotIn \<Rightarrow>
             (case pod_value of
                Some v \<Rightarrow> \<not> list_ex (\<lambda>val. val = v) (lsr_values req)
              | None \<Rightarrow> True)
         | LabelSelExists \<Rightarrow> pod_value \<noteq> None
         | LabelSelDoesNotExist \<Rightarrow> pod_value = None)"

definition pod_matches_label_selector :: "pod_info \<Rightarrow> label_selector \<Rightarrow> bool" where
  "pod_matches_label_selector pod sel =
     (list_all
        (\<lambda>(key, expected).
           case hm_get (pod_labels pod) key of Some actual \<Rightarrow> actual = expected | None \<Rightarrow> False)
        (match_labels sel)
      \<and> list_all (\<lambda>req. requirement_matches req pod) (ls_match_expressions sel))"

definition get_scheduled_node :: "pod_info \<Rightarrow> string option" where
  "get_scheduled_node pod =
     (case scheduled pod of Some n \<Rightarrow> Some n | None \<Rightarrow> ps_node_name (pod_spec pod))"

definition terms_or_empty :: "'a list option \<Rightarrow> 'a list" where
  "terms_or_empty o' = (case o' of Some ts \<Rightarrow> ts | None \<Rightarrow> [])"

definition extract_pod_affinity_terms ::
    "pod_info \<Rightarrow> pod_affinity_term list \<times> pod_affinity_term list \<times>
       weighted_pod_affinity_term list \<times> weighted_pod_affinity_term list" where
  "extract_pod_affinity_terms pod =
     (case ps_affinity (pod_spec pod) of
        None \<Rightarrow> ([], [], [], [])
      | Some a \<Rightarrow>
          (let (ra, pa) = (case aff_pod_affinity a of
                 Some x \<Rightarrow> (terms_or_empty (pa_required x), terms_or_empty (pa_preferred x))
               | None \<Rightarrow> ([], []));
               (raa, paa) = (case aff_pod_anti_affinity a of
                 Some x \<Rightarrow> (terms_or_empty (pa_required x), terms_or_empty (pa_preferred x))
               | None \<Rightarrow> ([], []))
           in (ra, raa, pa, paa)))"

definition topology_keys_of ::
    "pod_affinity_term list \<Rightarrow> pod_affinity_term list \<Rightarrow> weighted_pod_affinity_term list
       \<Rightarrow> weighted_pod_affinity_term list \<Rightarrow> string list" where
  "topology_keys_of ra raa pa paa =
     remdups (map pat_topology_key ra @ map pat_topology_key raa
              @ map (\<lambda>t. pat_topology_key (wpat_term t)) pa
              @ map (\<lambda>t. pat_topology_key (wpat_term t)) paa)"

section \<open>Queueing hints\<close>

definition pa_check_pod :: "pod_affinity_term list \<Rightarrow> pod_info \<Rightarrow> bool" where
  "pa_check_pod all_terms p =
     list_ex
       (\<lambda>term. case pat_label_selector term of
                  Some sel \<Rightarrow> pod_matches_label_selector p sel
                | None \<Rightarrow> False)
       all_terms"

definition pa_is_schedulable_after_pod_change :: "pod_info \<Rightarrow> event_inner \<Rightarrow> hint_result" where
  "pa_is_schedulable_after_pod_change pod ev =
     (case ev of
        EvPod old_pod new_pod \<Rightarrow>
          (let (ra, raa, pa, paa) = extract_pod_affinity_terms pod;
               all_terms = ra @ raa @ map wpat_term pa @ map wpat_term paa
           in if (case old_pod of Some old \<Rightarrow> pa_check_pod all_terms old | None \<Rightarrow> False)
              then Inr HintQueue
              else if (case new_pod of Some new \<Rightarrow> pa_check_pod all_terms new | None \<Rightarrow> False)
              then Inr HintQueue
              else Inr HintSkip)
      | EvNode _ _ \<Rightarrow> Inl err_not_pod)"

definition pa_is_schedulable_after_node_change :: "pod_info \<Rightarrow> event_inner \<Rightarrow> hint_result" where
  "pa_is_schedulable_after_node_change pod ev =
     (case ev of
        EvNode old_node new_node \<Rightarrow>
          (let (ra, raa, pa, paa) = extract_pod_affinity_terms pod
           in if list_ex
                   (\<lambda>key.
                      (case old_node of Some n \<Rightarrow> hm_get (node_labels n) key | None \<Rightarrow> None)
                        \<noteq> hm_get (node_labels new_node) key)
                   (topology_keys_of ra raa pa paa)
              then Inr HintQueue
              else Inr HintSkip)
      | EvPod _ _ \<Rightarrow> Inl err_not_node)"

definition pa_events_to_register :: "cluster_event_with_hint list" where
  "pa_events_to_register =
     [\<lparr>ceh_event = \<lparr>ce_resource = PodResource,
                    ce_action_type =
                      or (or Action_Add Action_UpdatePodLabel) Action_Delete\<rparr>,
       ceh_hint_fn = Some pa_is_schedulable_after_pod_change\<rparr>,
      \<lparr>ceh_event = \<lparr>ce_resource = NodeResource,
                    ce_action_type = or Action_Add Action_UpdateNodeLabel\<rparr>,
       ceh_hint_fn = Some pa_is_schedulable_after_node_change\<rparr>]"

section \<open>Topology maps\<close>

definition build_node_topology_map :: "node_info list \<Rightarrow> (string, labels) hashmap" where
  "build_node_topology_map nodes =
     fold
       (\<lambda>node m.
          let topology = fold (\<lambda>(key, value) t. hm_insert key value t) (node_labels node) []
          in hm_insert (node_name node) topology m)
       nodes []"

definition get_matching_pods :: "pod_info list \<Rightarrow> label_selector option \<Rightarrow> pod_info list" where
  "get_matching_pods pods sel =
     (case sel of
        Some s \<Rightarrow> filter (\<lambda>p. pod_matches_label_selector p s) pods
      | None \<Rightarrow> [])"

text \<open>\<open>map.entry(k).or_default().entry(v).or_default().push(pod)\<close> and the matching lookup.\<close>

definition push_topology_pod ::
    "string \<Rightarrow> string \<Rightarrow> pod_info \<Rightarrow> (string, (string, pod_info list) hashmap) hashmap
       \<Rightarrow> (string, (string, pod_info list) hashmap) hashmap" where
  "push_topology_pod k v pod m =
     (let inner = (case hm_get m k of Some i \<Rightarrow> i | None \<Rightarrow> []);
          pods = (case hm_get inner v of Some ps \<Rightarrow> ps | None \<Rightarrow> [])
      in hm_insert k (hm_insert v (pods @ [pod]) inner) m)"

definition pods_in_topology ::
    "(string, (string, pod_info list) hashmap) hashmap \<Rightarrow> string \<Rightarrow> string \<Rightarrow> pod_info list" where
  "pods_in_topology m k v =
     (case hm_get m k of
        None \<Rightarrow> []
      | Some inner \<Rightarrow> (case hm_get inner v of None \<Rightarrow> [] | Some pods \<Rightarrow> pods))"

definition index_pod ::
    "(string, labels) hashmap \<Rightarrow> string list \<Rightarrow> pod_info
       \<Rightarrow> (string, (string, pod_info list) hashmap) hashmap
       \<Rightarrow> (string, (string, pod_info list) hashmap) hashmap" where
  "index_pod ntm keys pod m =
     (case get_scheduled_node pod of
        None \<Rightarrow> m
      | Some n \<Rightarrow>
          (case hm_get ntm n of
             None \<Rightarrow> m
           | Some node_topology \<Rightarrow>
               fold (\<lambda>k m. case hm_get node_topology k of
                              Some v \<Rightarrow> push_topology_pod k v pod m
                            | None \<Rightarrow> m)
                 keys m))"

definition build_topology_pods_map ::
    "(string, labels) hashmap \<Rightarrow> string list \<Rightarrow> pod_info list
       \<Rightarrow> (string, (string, pod_info list) hashmap) hashmap" where
  "build_topology_pods_map ntm keys pods = fold (index_pod ntm keys) pods []"

section \<open>Evaluation of the terms\<close>

definition required_term_ok ::
    "node_info \<Rightarrow> (string, (string, pod_info list) hashmap) hashmap \<Rightarrow> bool \<Rightarrow> pod_affinity_term \<Rightarrow> bool" where
  "required_term_ok node tpm is_anti_affinity term =
     (case hm_get (node_labels node) (pat_topology_key term) of
        None \<Rightarrow> is_anti_affinity
      | Some node_topology_value \<Rightarrow>
          (let pods_in_same_topology =
                 pods_in_topology tpm (pat_topology_key term) node_topology_value;
               found_matching_pod =
                 list_ex
                   (\<lambda>p. pod_matches_label_selector p
                          (case pat_label_selector term of
                             Some s \<Rightarrow> s | None \<Rightarrow> label_selector_default))
                   pods_in_same_topology
           in if is_anti_affinity then \<not> found_matching_pod else found_matching_pod))"

definition evaluate_required_pod_affinity_terms ::
    "node_info \<Rightarrow> pod_affinity_term list \<Rightarrow> (string, (string, pod_info list) hashmap) hashmap
       \<Rightarrow> bool \<Rightarrow> bool" where
  "evaluate_required_pod_affinity_terms node terms tpm is_anti_affinity =
     (if terms = [] then True
      else list_all (required_term_ok node tpm is_anti_affinity) terms)"

definition found_in_same_topology ::
    "node_info \<Rightarrow> string \<Rightarrow> (string, labels) hashmap \<Rightarrow> pod_info list \<Rightarrow> bool" where
  "found_in_same_topology node key ntm matching_pods =
     list_ex
       (\<lambda>p. case get_scheduled_node p of
               None \<Rightarrow> False
             | Some n \<Rightarrow>
                 (case hm_get ntm n of
                    None \<Rightarrow> False
                  | Some node_topology \<Rightarrow>
                      (case hm_get node_topology key of
                         None \<Rightarrow> False
                       | Some v \<Rightarrow> hm_get (node_labels node) key = Some v)))
       matching_pods"

definition evaluate_preferred_pod_affinity_terms ::
    "node_info \<Rightarrow> weighted_pod_affinity_term list \<Rightarrow> pod_info list \<Rightarrow> (string, labels) hashmap
       \<Rightarrow> bool \<Rightarrow> int" where
  "evaluate_preferred_pod_affinity_terms node terms all_pods ntm is_anti_affinity =
     fold
       (\<lambda>term score.
          let matching_pods = get_matching_pods all_pods (pat_label_selector (wpat_term term))
          in if matching_pods = []
             then (if \<not> is_anti_affinity then score else wrap_i64 (score + wpat_weight term))
             else
               (let found =
                  found_in_same_topology node (pat_topology_key (wpat_term term)) ntm matching_pods
                in if is_anti_affinity
                   then (if \<not> found then wrap_i64 (score + wpat_weight term) else score)
                   else (if found then wrap_i64 (score + wpat_weight term) else score)))
       terms 0"

section \<open>The extension points\<close>

definition empty_key_message ::
    "pod_affinity_term list \<Rightarrow> pod_affinity_term list \<Rightarrow> weighted_pod_affinity_term list
       \<Rightarrow> weighted_pod_affinity_term list \<Rightarrow> string option" where
  "empty_key_message ra raa pa paa =
     (if list_ex (\<lambda>t. pat_topology_key t = []) ra
      then Some ''pod affinity term has empty topology key''
      else if list_ex (\<lambda>t. pat_topology_key t = []) raa
      then Some ''pod anti-affinity term has empty topology key''
      else if list_ex (\<lambda>t. pat_topology_key (wpat_term t) = []) pa
      then Some ''preferred pod affinity term has empty topology key''
      else if list_ex (\<lambda>t. pat_topology_key (wpat_term t) = []) paa
      then Some ''preferred pod anti-affinity term has empty topology key''
      else None)"

definition pa_pre_filter ::
    "cycle_state \<Rightarrow> pod_info \<Rightarrow> node_info list \<Rightarrow> cycle_state \<times> string list \<times> status" where
  "pa_pre_filter st pod nodes =
     (let (ra, raa, pa, paa) = extract_pod_affinity_terms pod
      in case empty_key_message ra raa pa paa of
           Some msg \<Rightarrow> (st, [], status_new UnschedulableAndUnresolvable [msg])
         | None \<Rightarrow>
             if ra = [] \<and> raa = [] \<and> pa = [] \<and> paa = [] then (st, [], status_new Skip [])
             else
               (let node_topology_map = build_node_topology_map nodes;
                    all_pods = (case cs_read as_pods st ''AllScheduledPods'' of
                                  Some ps \<Rightarrow> ps | None \<Rightarrow> []);
                    topology_keys = topology_keys_of ra raa pa paa;
                    topology_pods_map =
                      build_topology_pods_map node_topology_map topology_keys all_pods;
                    pre_filter_state =
                      \<lparr>pf_required_affinity_terms = ra, pf_required_anti_affinity_terms = raa,
                       pf_preferred_affinity_terms = pa, pf_preferred_anti_affinity_terms = paa,
                       pf_node_topology_map = node_topology_map,
                       pf_topology_pods_map = topology_pods_map\<rparr>
                in (cs_write ''PreFilterPodAffinity'' (CV_PodAffinityPreFilter pre_filter_state) st,
                    [], status_default)))"

definition pa_filter :: "cycle_state \<Rightarrow> pod_info \<Rightarrow> node_info \<Rightarrow> status" where
  "pa_filter st pod node =
     (case cs_read as_pa_pre_filter st ''PreFilterPodAffinity'' of
        None \<Rightarrow> status_default
      | Some s \<Rightarrow>
          if \<not> evaluate_required_pod_affinity_terms node (pf_required_affinity_terms s)
                 (pf_topology_pods_map s) False
          then status_new UnschedulableAndUnresolvable [''node(s) didn't match pod affinity rules'']
          else if \<not> evaluate_required_pod_affinity_terms node (pf_required_anti_affinity_terms s)
                      (pf_topology_pods_map s) True
          then status_new UnschedulableAndUnresolvable
                 [''node(s) didn't match pod anti-affinity rules'']
          else status_default)"

definition pa_pre_score ::
    "cycle_state \<Rightarrow> pod_info \<Rightarrow> node_info list \<Rightarrow> cycle_state \<times> status" where
  "pa_pre_score st pod nodes =
     (case cs_read as_pa_pre_filter st ''PreFilterPodAffinity'' of
        None \<Rightarrow> (st, status_new Skip [])
      | Some s \<Rightarrow>
          if pf_preferred_affinity_terms s = [] \<and> pf_preferred_anti_affinity_terms s = []
          then (st, status_new Skip [])
          else
            (cs_write ''PreScorePodAffinity''
               (CV_PodAffinityPreScore
                  \<lparr>sc_preferred_affinity_terms = pf_preferred_affinity_terms s,
                   sc_preferred_anti_affinity_terms = pf_preferred_anti_affinity_terms s,
                   sc_node_topology_map = build_node_topology_map nodes\<rparr>) st,
             status_default))"

definition pa_score :: "cycle_state \<Rightarrow> pod_info \<Rightarrow> node_info \<Rightarrow> int \<times> status" where
  "pa_score st pod node =
     (case cs_read as_pa_pre_score st ''PreScorePodAffinity'' of
        None \<Rightarrow> (0, status_default)
      | Some s \<Rightarrow>
          (let all_pods = (case cs_read as_pods st ''AllScheduledPods'' of
                             Some ps \<Rightarrow> ps | None \<Rightarrow> []);
               affinity_score =
                 evaluate_preferred_pod_affinity_terms node (sc_preferred_affinity_terms s)
                   all_pods (sc_node_topology_map s) False;
               anti_affinity_score =
                 evaluate_preferred_pod_affinity_terms node (sc_preferred_anti_affinity_terms s)
                   all_pods (sc_node_topology_map s) True
           in (wrap_i64 (affinity_score + anti_affinity_score), status_default)))"

definition pa_pre_filter_plugin :: pre_filter_plugin where
  "pa_pre_filter_plugin = \<lparr>pfp_name = ''PodAffinity'', pre_filter = pa_pre_filter\<rparr>"
definition pa_filter_plugin :: filter_plugin where
  "pa_filter_plugin = \<lparr>fp_name = ''PodAffinity'', filter_node = pa_filter\<rparr>"
definition pa_pre_score_plugin :: pre_score_plugin where
  "pa_pre_score_plugin = \<lparr>psp_name = ''PodAffinity'', pre_score = pa_pre_score\<rparr>"
definition pa_score_plugin :: score_plugin where
  "pa_score_plugin =
     \<lparr>sp_name = ''PodAffinity'', score = pa_score,
      normalize_score = default_normalize_score 100 False\<rparr>"
definition pa_enqueue_extension :: enqueue_extension where
  "pa_enqueue_extension =
     \<lparr>ee_name = ''PodAffinity'', events_to_register = pa_events_to_register\<rparr>"

section \<open>The index answers the specification\<close>

text \<open>Node names are unique and every label map is a map: what the scheduler cache hands to the plugins.\<close>

definition nodes_wf :: "node_info list \<Rightarrow> bool" where
  "nodes_wf nodes \<longleftrightarrow>
     distinct (map node_name nodes) \<and> (\<forall>n\<in>set nodes. hm_wf (node_labels n))"

text \<open>The specification: \<open>p\<close> runs on a known node whose label \<open>key\<close> is \<open>v\<close>.\<close>

definition placed_in :: "node_info list \<Rightarrow> pod_info \<Rightarrow> string \<Rightarrow> string \<Rightarrow> bool" where
  "placed_in nodes p key v \<longleftrightarrow>
     (\<exists>m\<in>set nodes. get_scheduled_node p = Some (node_name m) \<and> hm_get (node_labels m) key = Some v)"

lemma hm_get_copy:
  assumes "hm_wf m"
  shows "hm_get (fold (\<lambda>(k, v) t. hm_insert k v t) m []) k = hm_get m k"
proof -
  have "map_of (rev m) = map_of m"
    using assms by (subst map_of_inject_set) (simp_all add: hm_wf_def flip: rev_map)
  then have "hm_get (fold (\<lambda>(k, v) t. hm_insert k v t) m []) k =
      (case map_of m k of None \<Rightarrow> hm_get [] k | Some v \<Rightarrow> Some v)"
    by (simp add: hm.get_fold_insert)
  then show ?thesis
    by (auto simp: hm_get_def split: option.splits)
qed

lemma find_SomeD: "List.find P xs = Some x \<Longrightarrow> x \<in> set xs \<and> P x"
  by (induction xs) (auto split: if_splits)

lemma topology_map_fold:
  "hm_get (fold (\<lambda>node m. hm_insert (node_name node) (f node) m) nodes m0) n =
     (case List.find (\<lambda>x. node_name x = n) (rev nodes) of
        None \<Rightarrow> hm_get m0 n | Some x \<Rightarrow> Some (f x))"
proof (induction nodes arbitrary: m0)
  case Nil
  then show ?case by simp
next
  case (Cons a nodes)
  have "List.find P (xs @ [a]) =
      (case List.find P xs of None \<Rightarrow> if P a then Some a else None | Some y \<Rightarrow> Some y)"
    for P xs
    by (induction xs) auto
  then show ?case
    using Cons by (auto split: option.splits)
qed

lemma hm_get_topology_map:
  assumes "nodes_wf nodes"
  shows "(\<exists>t. hm_get (build_node_topology_map nodes) n = Some t \<and> hm_get t key = Some v) \<longleftrightarrow>
           (\<exists>m\<in>set nodes. node_name m = n \<and> hm_get (node_labels m) key = Some v)"
proof -
  let ?f = "\<lambda>node. fold (\<lambda>(key, value) t. hm_insert key value t) (node_labels node) []"
  have uniq: "x = y" if "x \<in> set nodes" "y \<in> set nodes" "node_name x = node_name y" for x y
    using assms that by (auto simp: nodes_wf_def distinct_map dest: inj_onD)
  have get: "hm_get (?f x) key = hm_get (node_labels x) key" if "x \<in> set nodes" for x
    using assms that by (simp add: nodes_wf_def hm_get_copy)
  have eq: "hm_get (build_node_topology_map nodes) n =
      (case List.find (\<lambda>x. node_name x = n) (rev nodes) of None \<Rightarrow> None | Some x \<Rightarrow> Some (?f x))"
    unfolding build_node_topology_map_def Let_def topology_map_fold hm.get_empty by (rule refl)
  show ?thesis
  proof (cases "List.find (\<lambda>x. node_name x = n) (rev nodes)")
    case None
    then have "\<forall>m\<in>set nodes. node_name m \<noteq> n" by (simp add: find_None_iff)
    moreover have "hm_get (build_node_topology_map nodes) n = None"
      unfolding eq None by simp
    ultimately show ?thesis by auto
  next
    case (Some x)
    then have x: "x \<in> set nodes" "node_name x = n"
      using find_SomeD [OF Some] by simp_all
    have "hm_get (build_node_topology_map nodes) n = Some (?f x)"
      unfolding eq Some by simp
    then have "(\<exists>t. hm_get (build_node_topology_map nodes) n = Some t \<and> hm_get t key = Some v) \<longleftrightarrow>
        hm_get (node_labels x) key = Some v"
      using get [OF x(1)] by simp
    also have "\<dots> \<longleftrightarrow> (\<exists>m\<in>set nodes. node_name m = n \<and> hm_get (node_labels m) key = Some v)"
      using x uniq [OF _ x(1)] by metis
    finally show ?thesis .
  qed
qed

lemma pods_in_push:
  "pods_in_topology (push_topology_pod k v p m) k' v' =
     pods_in_topology m k' v' @ (if k' = k \<and> v' = v then [p] else [])"
  by (auto simp: pods_in_topology_def push_topology_pod_def Let_def split: option.splits)

lemma pods_in_push_keys:
  "set (pods_in_topology
          (fold (\<lambda>k m. case hm_get t k of Some v \<Rightarrow> push_topology_pod k v p m | None \<Rightarrow> m) keys m) k' v') =
     set (pods_in_topology m k' v') \<union> (if k' \<in> set keys \<and> hm_get t k' = Some v' then {p} else {})"
  by (induction keys arbitrary: m) (auto simp: pods_in_push split: option.splits)

lemma pods_in_index_pod:
  assumes "nodes_wf nodes"
  shows "set (pods_in_topology (index_pod (build_node_topology_map nodes) keys p m) k v) =
           set (pods_in_topology m k v) \<union> (if k \<in> set keys \<and> placed_in nodes p k v then {p} else {})"
proof (cases "get_scheduled_node p")
  case None
  then show ?thesis by (simp add: index_pod_def placed_in_def)
next
  case (Some n)
  have "placed_in nodes p k v \<longleftrightarrow>
      (\<exists>t. hm_get (build_node_topology_map nodes) n = Some t \<and> hm_get t k = Some v)"
    using hm_get_topology_map [OF assms] Some by (auto simp: placed_in_def)
  then show ?thesis
    using Some by (auto simp: index_pod_def pods_in_push_keys split: option.splits)
qed

lemma pods_in_build:
  assumes "nodes_wf nodes"
  shows "set (pods_in_topology (build_topology_pods_map (build_node_topology_map nodes) keys pods) k v) =
           {p \<in> set pods. k \<in> set keys \<and> placed_in nodes p k v}"
proof -
  have "set (pods_in_topology (fold (index_pod (build_node_topology_map nodes) keys) pods m) k v) =
      set (pods_in_topology m k v) \<union> {p \<in> set pods. k \<in> set keys \<and> placed_in nodes p k v}" for m
    by (induction pods arbitrary: m) (auto simp: pods_in_index_pod [OF assms])
  then show ?thesis
    by (simp add: build_topology_pods_map_def pods_in_topology_def)
qed

text \<open>
  The specification of a required term on a node: some placed pod that the selector matches shares
  the node's topology domain. A missing selector selects every pod, as the code has it.
\<close>

definition co_located ::
    "node_info list \<Rightarrow> pod_info list \<Rightarrow> node_info \<Rightarrow> pod_affinity_term \<Rightarrow> bool" where
  "co_located nodes pods node term \<longleftrightarrow>
     (\<exists>v. hm_get (node_labels node) (pat_topology_key term) = Some v \<and>
        (\<exists>p\<in>set pods. placed_in nodes p (pat_topology_key term) v \<and>
           pod_matches_label_selector p
             (case pat_label_selector term of Some s \<Rightarrow> s | None \<Rightarrow> label_selector_default)))"

lemma required_term_ok_iff:
  assumes "nodes_wf nodes" "pat_topology_key term \<in> set keys"
  shows "required_term_ok node
             (build_topology_pods_map (build_node_topology_map nodes) keys pods) anti term
         \<longleftrightarrow> (co_located nodes pods node term \<noteq> anti)"
  using assms
  by (auto simp: required_term_ok_def co_located_def Let_def list_ex_iff pods_in_build
      split: option.splits)

lemma evaluate_required_iff:
  assumes "nodes_wf nodes" "pat_topology_key ` set terms \<subseteq> set keys"
  shows "evaluate_required_pod_affinity_terms node terms
             (build_topology_pods_map (build_node_topology_map nodes) keys pods) anti
         \<longleftrightarrow> (\<forall>term\<in>set terms. co_located nodes pods node term \<noteq> anti)"
  using assms required_term_ok_iff [OF assms(1), of _ keys node pods anti]
  by (force simp: evaluate_required_pod_affinity_terms_def list_all_iff)

definition pod_affinity_ok :: "node_info list \<Rightarrow> pod_info list \<Rightarrow> pod_info \<Rightarrow> node_info \<Rightarrow> bool" where
  "pod_affinity_ok nodes pods pod node \<longleftrightarrow>
     (let (ra, raa, _, _) = extract_pod_affinity_terms pod
      in (\<forall>t\<in>set ra. co_located nodes pods node t) \<and> (\<forall>t\<in>set raa. \<not> co_located nodes pods node t))"

lemma set_topology_keys:
  "set (topology_keys_of ra raa pa paa) =
     pat_topology_key ` (set ra \<union> set raa \<union> wpat_term ` (set pa \<union> set paa))"
  by (auto simp: topology_keys_of_def)

lemma pa_filter_after_pre_filter:
  assumes "nodes_wf nodes" "pa_pre_filter st pod nodes = (st', r, s)" "st_code s = Success"
    and "cs_read as_pods st ''AllScheduledPods'' = Some pods"
  shows "st_code (pa_filter st' pod node) = Success \<longleftrightarrow> pod_affinity_ok nodes pods pod node"
proof -
  obtain ra raa pa paa where t: "extract_pod_affinity_terms pod = (ra, raa, pa, paa)"
    by (metis prod_cases4)
  let ?tpm = "build_topology_pods_map (build_node_topology_map nodes)
    (topology_keys_of ra raa pa paa) pods"
  have "cs_read as_pa_pre_filter st' ''PreFilterPodAffinity'' =
      Some \<lparr>pf_required_affinity_terms = ra, pf_required_anti_affinity_terms = raa,
            pf_preferred_affinity_terms = pa, pf_preferred_anti_affinity_terms = paa,
            pf_node_topology_map = build_node_topology_map nodes, pf_topology_pods_map = ?tpm\<rparr>"
    using assms(2-4) t
    by (auto simp: pa_pre_filter_def Let_def as_pa_pre_filter_def split: option.splits if_splits)
  moreover have "pat_topology_key ` set ra \<subseteq> set (topology_keys_of ra raa pa paa)"
    "pat_topology_key ` set raa \<subseteq> set (topology_keys_of ra raa pa paa)"
    by (auto simp: set_topology_keys)
  ultimately show ?thesis
    using assms(1)
    by (auto simp: pa_filter_def pod_affinity_ok_def t evaluate_required_iff)
qed

lemma pa_pre_filter_Skip:
  assumes "pa_pre_filter st pod nodes = (st', r, s)" "st_code s = Skip"
  shows "st' = st \<and> pod_affinity_ok nodes pods pod node"
  using assms
  by (auto simp: pa_pre_filter_def pod_affinity_ok_def Let_def split: option.splits if_splits prod.splits)

section \<open>Preferred terms\<close>

text \<open>
  The reference value of the preferred terms: the weights of the terms whose pods are found in the
  node's domain (affinity), or are not (anti-affinity). Only pods on the nodes given count.
\<close>

definition preferred_hit ::
    "node_info list \<Rightarrow> pod_info list \<Rightarrow> node_info \<Rightarrow> weighted_pod_affinity_term \<Rightarrow> bool" where
  "preferred_hit nodes pods node t \<longleftrightarrow>
     (\<exists>p\<in>set pods. \<exists>sel v. pat_label_selector (wpat_term t) = Some sel
        \<and> pod_matches_label_selector p sel
        \<and> hm_get (node_labels node) (pat_topology_key (wpat_term t)) = Some v
        \<and> placed_in nodes p (pat_topology_key (wpat_term t)) v)"

lemma found_in_same_topology_iff:
  assumes "nodes_wf nodes"
  shows "found_in_same_topology node key (build_node_topology_map nodes) ps \<longleftrightarrow>
           (\<exists>p\<in>set ps. \<exists>v. hm_get (node_labels node) key = Some v \<and> placed_in nodes p key v)"
proof -
  have "found_in_same_topology node key (build_node_topology_map nodes) ps \<longleftrightarrow>
      (\<exists>p\<in>set ps. \<exists>n v. get_scheduled_node p = Some n \<and> hm_get (node_labels node) key = Some v \<and>
         (\<exists>t. hm_get (build_node_topology_map nodes) n = Some t \<and> hm_get t key = Some v))"
    unfolding found_in_same_topology_def list_ex_iff
    by (intro bex_cong refl) (auto split: option.splits)
  also have "\<dots> \<longleftrightarrow>
      (\<exists>p\<in>set ps. \<exists>v. hm_get (node_labels node) key = Some v \<and> placed_in nodes p key v)"
    unfolding hm_get_topology_map [OF assms] placed_in_def by metis
  finally show ?thesis .
qed

text \<open>One turn of the loop adds the weight when the term hits (affinity) or misses (anti-affinity).\<close>

definition term_hits ::
    "node_info \<Rightarrow> pod_info list \<Rightarrow> (string, labels) hashmap \<Rightarrow> weighted_pod_affinity_term \<Rightarrow> bool" where
  "term_hits node pods ntm t \<longleftrightarrow>
     found_in_same_topology node (pat_topology_key (wpat_term t)) ntm
       (get_matching_pods pods (pat_label_selector (wpat_term t)))"

lemma evaluate_preferred_unfold:
  "evaluate_preferred_pod_affinity_terms node terms pods ntm anti =
     fold (\<lambda>t c. if term_hits node pods ntm t \<noteq> anti then wrap_i64 (c + wpat_weight t) else c) terms 0"
  unfolding evaluate_preferred_pod_affinity_terms_def
  by (intro fold_cong refl) (auto simp: term_hits_def found_in_same_topology_def Let_def intro!: ext)

lemma term_hits_iff:
  assumes "nodes_wf nodes"
  shows "term_hits node pods (build_node_topology_map nodes) t \<longleftrightarrow> preferred_hit nodes pods node t"
  unfolding term_hits_def found_in_same_topology_iff [OF assms] preferred_hit_def get_matching_pods_def
  by (cases "pat_label_selector (wpat_term t)") (simp_all, blast)

definition sane_weights :: "weighted_pod_affinity_term list \<Rightarrow> bool" where
  "sane_weights ts \<longleftrightarrow> (\<forall>t\<in>set ts. 0 \<le> wpat_weight t) \<and> sum_list (map wpat_weight ts) \<le> 2 ^ 32"

lemma evaluate_preferred_sum:
  assumes "nodes_wf nodes" "sane_weights ts"
  shows "evaluate_preferred_pod_affinity_terms node ts pods (build_node_topology_map nodes) anti =
           sum_list (map wpat_weight (filter (\<lambda>t. preferred_hit nodes pods node t \<noteq> anti) ts))"
  unfolding evaluate_preferred_unfold term_hits_iff [OF assms(1)]
  using assms(2) by (subst weight_fold) (auto simp: sane_weights_def)

lemma evaluate_preferred_range:
  assumes "sane_weights ts"
  shows "0 \<le> evaluate_preferred_pod_affinity_terms node ts pods ntm anti"
    and "evaluate_preferred_pod_affinity_terms node ts pods ntm anti \<le> 2 ^ 32"
proof -
  have "evaluate_preferred_pod_affinity_terms node ts pods ntm anti =
      sum_list (map wpat_weight (filter (\<lambda>t. term_hits node pods ntm t \<noteq> anti) ts))"
    unfolding evaluate_preferred_unfold
    using assms by (subst weight_fold) (auto simp: sane_weights_def)
  then show "0 \<le> evaluate_preferred_pod_affinity_terms node ts pods ntm anti"
    "evaluate_preferred_pod_affinity_terms node ts pods ntm anti \<le> 2 ^ 32"
    using assms sum_list_filter_le [of ts wpat_weight "\<lambda>t. term_hits node pods ntm t \<noteq> anti"]
    by (auto simp: sane_weights_def)
qed

end
