(* ===== verification/Gang_State.thy ===== *)
theory Gang_State
  imports Sched_Framework
begin

text \<open>
  Gang scheduling: \<open>libscheduler/src/gang_state.rs\<close>, the store of partially placed gangs, and the
  \<open>TopologyCoAffinityFilter\<close> plugin (\<open>plugins/topology_coaffinity.rs\<close>), which keeps the members of a gang on
  nodes with equal topology labels. The store's lock is held for each operation, so an operation is one
  step. The lemmas: a gang is complete exactly when its number of distinct members reaches its size, and
  a filter that accepts a node keeps the gang's labels uniform.
\<close>

section \<open>The store\<close>

record gang_entry =
  ge_size :: u32
  ge_assumed :: "(string, string) hashmap"
  ge_created_at :: instant

type_synonym gang_store = "(string, gang_entry) hashmap"

definition gang_entry_or_new :: "instant \<Rightarrow> string \<Rightarrow> u32 \<Rightarrow> gang_store \<Rightarrow> gang_entry" where
  "gang_entry_or_new now gid sz gs =
     (case hm_get gs gid of
        Some e \<Rightarrow> e
      | None \<Rightarrow> \<lparr>ge_size = sz, ge_assumed = [], ge_created_at = now\<rparr>)"

definition gang_full :: "gang_entry \<Rightarrow> bool" where
  "gang_full e \<longleftrightarrow> of_nat (length (ge_assumed e)) \<ge> ge_size e"

definition add_member ::
    "instant \<Rightarrow> string \<Rightarrow> u32 \<Rightarrow> string \<Rightarrow> string \<Rightarrow> gang_store \<Rightarrow> gang_store \<times> bool" where
  "add_member now gid sz pod node gs =
     (let entry = gang_entry_or_new now gid sz gs;
          entry' = entry\<lparr>ge_assumed := hm_insert pod node (ge_assumed entry)\<rparr>
      in (hm_insert gid entry' gs, gang_full entry'))"

definition take_and_clear :: "string \<Rightarrow> gang_store \<Rightarrow> gang_store \<times> (string, string) hashmap option" where
  "take_and_clear gid gs = (hm_remove gid gs, map_option ge_assumed (hm_get gs gid))"

definition assumed_nodes :: "string \<Rightarrow> gang_store \<Rightarrow> string list" where
  "assumed_nodes gid gs =
     (case hm_get gs gid of Some e \<Rightarrow> hm_values (ge_assumed e) | None \<Rightarrow> [])"

definition gang_timed_out :: "instant \<Rightarrow> nat \<Rightarrow> gang_entry \<Rightarrow> bool" where
  "gang_timed_out now timeout e \<longleftrightarrow>
     of_nat (length (ge_assumed e)) < ge_size e \<and> now - ge_created_at e > timeout"

definition collect_timed_out :: "instant \<Rightarrow> nat \<Rightarrow> gang_store \<Rightarrow> string list" where
  "collect_timed_out now timeout gs =
     map fst (filter (\<lambda>(_, e). gang_timed_out now timeout e) gs)"

fun take_ids :: "string list \<Rightarrow> gang_store \<Rightarrow> gang_store \<times> (string \<times> (string, string) hashmap) list" where
  "take_ids [] gs = (gs, [])"
| "take_ids (i # is) gs =
     (case hm_get gs i of
        None \<Rightarrow> take_ids is gs
      | Some e \<Rightarrow>
          (let (gs', rest) = take_ids is (hm_remove i gs) in (gs', (i, ge_assumed e) # rest)))"

definition take_timed_out ::
    "instant \<Rightarrow> nat \<Rightarrow> gang_store \<Rightarrow> gang_store \<times> (string \<times> (string, string) hashmap) list" where
  "take_timed_out now timeout gs = take_ids (collect_timed_out now timeout gs) gs"

section \<open>The co-affinity plugin\<close>

fun pick_label_value :: "string list \<Rightarrow> string \<Rightarrow> node_info list \<Rightarrow> string option" where
  "pick_label_value [] key nodes = None"
| "pick_label_value (name # names) key nodes =
     (case List.find (\<lambda>n. node_name n = name) nodes of
        None \<Rightarrow> pick_label_value names key nodes
      | Some node \<Rightarrow>
          (case hm_get (node_labels node) key of
             Some v \<Rightarrow> Some v
           | None \<Rightarrow> pick_label_value names key nodes))"

text \<open>The loop over the constraints; \<open>None\<close> is the early return with \<open>Unschedulable\<close>.\<close>

fun collect_required ::
    "string list \<Rightarrow> node_info list \<Rightarrow> topology_constraint list \<Rightarrow> (string, string) hashmap
       \<Rightarrow> (string, string) hashmap option" where
  "collect_required assumed nodes [] req = Some req"
| "collect_required assumed nodes (c # cs) req =
     (if \<not> same_value c then collect_required assumed nodes cs req
      else case pick_label_value assumed (topology_key c) nodes of
             Some v \<Rightarrow> collect_required assumed nodes cs (hm_insert (topology_key c) v req)
           | None \<Rightarrow> None)"

definition topo_pre_filter ::
    "gang_store \<Rightarrow> cycle_state \<Rightarrow> pod_info \<Rightarrow> node_info list \<Rightarrow> cycle_state \<times> string list \<times> status" where
  "topo_pre_filter gs st pod nodes =
     (case ps_gang (pod_spec pod) of
        None \<Rightarrow> (st, [], status_new Skip [])
      | Some gang \<Rightarrow>
          if ps_topology_constraints (pod_spec pod) = [] then (st, [], status_new Skip [])
          else
            (let assumed = assumed_nodes (gang_id gang) gs
             in case (if assumed \<noteq> []
                      then collect_required assumed nodes (ps_topology_constraints (pod_spec pod)) []
                      else Some []) of
                  None \<Rightarrow>
                    (st, [], status_new Unschedulable [''assumed gang member missing topology label''])
                | Some required \<Rightarrow>
                    (cs_write ''PreFilterTopologyCoAffinity'' (CV_TopologyPreFilter required) st,
                     [], status_default)))"

definition topo_filter :: "cycle_state \<Rightarrow> pod_info \<Rightarrow> node_info \<Rightarrow> status" where
  "topo_filter st pod node =
     (case cs_read as_topology st ''PreFilterTopologyCoAffinity'' of
        None \<Rightarrow> status_default
      | Some required \<Rightarrow>
          if required = [] then status_default
          else (case List.find (\<lambda>(k, v). hm_get (node_labels node) k \<noteq> Some v) required of
                  Some (k, v) \<Rightarrow>
                    status_new Unschedulable
                      [''node label '' @ k @ '' mismatch for gang topology'']
                | None \<Rightarrow> status_default))"

definition topo_pre_filter_plugin :: "gang_store \<Rightarrow> pre_filter_plugin" where
  "topo_pre_filter_plugin gs =
     \<lparr>pfp_name = ''TopologyCoAffinityFilter'', pre_filter = topo_pre_filter gs\<rparr>"
definition topo_filter_plugin :: filter_plugin where
  "topo_filter_plugin = \<lparr>fp_name = ''TopologyCoAffinityFilter'', filter_node = topo_filter\<rparr>"

section \<open>Completeness of a gang\<close>

definition gang_wf :: "gang_store \<Rightarrow> bool" where
  "gang_wf gs \<longleftrightarrow> hm_wf gs \<and> (\<forall>e\<in>set (hm_values gs). hm_wf (ge_assumed e))"

lemma gang_wf_get: "gang_wf gs \<Longrightarrow> hm_get gs g = Some e \<Longrightarrow> hm_wf (ge_assumed e)"
  by (auto simp: gang_wf_def dest: hm_get_in_values)

lemma hm_wf_values_insert:
  assumes "hm_wf m"
  shows "set (hm_values (hm_insert k v m)) \<subseteq> insert v (set (hm_values m))"
proof
  fix x
  assume "x \<in> set (hm_values (hm_insert k v m))"
  then obtain k' where "hm_get (hm_insert k v m) k' = Some x"
    using hm_values_get assms by (metis hm.wf_insert)
  then show "x \<in> insert v (set (hm_values m))"
    by (auto split: if_splits dest: hm_get_in_values)
qed

lemma hm_wf_values_remove:
  assumes "hm_wf m"
  shows "set (hm_values (hm_remove k m)) \<subseteq> set (hm_values m)"
proof
  fix x
  assume "x \<in> set (hm_values (hm_remove k m))"
  then obtain k' where "hm_get (hm_remove k m) k' = Some x"
    using hm_values_get assms by (metis hm.wf_remove)
  then show "x \<in> set (hm_values m)"
    by (auto split: if_splits dest: hm_get_in_values)
qed

lemma gang_wf_entry: "gang_wf gs \<Longrightarrow> hm_wf (ge_assumed (gang_entry_or_new now g s gs))"
  by (auto simp: gang_entry_or_new_def split: option.splits dest: gang_wf_get)

lemma gang_wf_add_member: "gang_wf gs \<Longrightarrow> gang_wf (fst (add_member now g s p n gs))"
  using hm_wf_values_insert [of gs] gang_wf_entry [of gs now g s]
  by (fastforce simp: add_member_def Let_def gang_wf_def)

lemma gang_wf_remove: "gang_wf gs \<Longrightarrow> gang_wf (hm_remove g gs)"
  using hm_wf_values_remove [of gs g] by (auto simp: gang_wf_def)

lemma gang_wf_take_ids: "gang_wf gs \<Longrightarrow> gang_wf (fst (take_ids is gs))"
  by (induction "is" gs rule: take_ids.induct)
    (auto split: option.splits prod.splits simp: gang_wf_remove)

lemma gang_wf_take_timed_out: "gang_wf gs \<Longrightarrow> gang_wf (fst (take_timed_out now t gs))"
  by (simp add: take_timed_out_def gang_wf_take_ids)

text \<open>A gang that times out is taken with all its members, and no complete gang is.\<close>

lemma hm_get_take_ids:
  "hm_get (fst (take_ids is gs)) g = (if g \<in> set is then None else hm_get gs g)"
proof (induction "is" gs rule: take_ids.induct)
  case (1 gs)
  then show ?case by simp
next
  case (2 i "is" gs)
  then show ?case
    by (cases "hm_get gs i") (auto split: prod.splits)
qed

lemma set_take_ids:
  "distinct is \<Longrightarrow>
     set (snd (take_ids is gs)) = {(i, ge_assumed e) |i e. i \<in> set is \<and> hm_get gs i = Some e}"
proof (induction "is" gs rule: take_ids.induct)
  case (1 gs)
  then show ?case by simp
next
  case (2 i "is" gs)
  show ?case
  proof (cases "hm_get gs i")
    case None
    with 2 show ?thesis by auto
  next
    case (Some e)
    have "{(j, ge_assumed f) |j f. j \<in> set is \<and> hm_get (hm_remove i gs) j = Some f}
        = {(j, ge_assumed f) |j f. j \<in> set is \<and> hm_get gs j = Some f}"
      using "2.prems" by auto
    with 2 Some show ?thesis by (auto split: prod.splits)
  qed
qed

lemma collect_timed_out_iff:
  assumes "hm_wf gs"
  shows "g \<in> set (collect_timed_out now t gs) \<longleftrightarrow>
           (\<exists>e. hm_get gs g = Some e \<and> gang_timed_out now t e)"
  using assms by (force simp: collect_timed_out_def hm_get_Some_iff)

lemma distinct_collect_timed_out: "hm_wf gs \<Longrightarrow> distinct (collect_timed_out now t gs)"
  by (simp add: collect_timed_out_def hm_wf_def distinct_map_filter)

section \<open>Uniform topology\<close>

lemma pick_label_value_Some:
  "pick_label_value names key nodes = Some v \<Longrightarrow>
     \<exists>m\<in>set nodes. node_name m \<in> set names \<and> hm_get (node_labels m) key = Some v"
proof (induction names key nodes rule: pick_label_value.induct)
  case (1 key nodes)
  then show ?case by simp
next
  case (2 name names key nodes)
  then show ?case
    by (cases "List.find (\<lambda>n. node_name n = name) nodes")
      (fastforce simp: find_Some_iff split: option.splits)+
qed

lemma collect_required_get:
  assumes "collect_required assumed nodes cs req = Some r"
  shows "\<exists>v. hm_get r k = (if (\<exists>c\<in>set cs. same_value c \<and> topology_key c = k) then Some v else hm_get req k)
           \<and> ((\<exists>c\<in>set cs. same_value c \<and> topology_key c = k) \<longrightarrow>
                pick_label_value assumed k nodes = Some v)"
  using assms
proof (induction assumed nodes cs req rule: collect_required.induct)
  case (1 assumed nodes req)
  then show ?case by simp
next
  case (2 assumed nodes c cs req)
  then show ?case
    by (cases "same_value c") (auto split: option.splits if_splits)
qed

lemma hm_wf_collect_required:
  "collect_required assumed nodes cs req = Some r \<Longrightarrow> hm_wf req \<Longrightarrow> hm_wf r"
  by (induction assumed nodes cs req rule: collect_required.induct)
    (auto split: if_splits option.splits)

lemma topo_filter_code:
  assumes "cs_read as_topology st ''PreFilterTopologyCoAffinity'' = Some req" "hm_wf req"
  shows "st_code (topo_filter st pod n) = Success \<longleftrightarrow>
           (\<forall>k v. hm_get req k = Some v \<longrightarrow> hm_get (node_labels n) k = Some v)"
proof -
  have "st_code (topo_filter st pod n) = Success \<longleftrightarrow>
          List.find (\<lambda>(k, v). hm_get (node_labels n) k \<noteq> Some v) req = None"
    using assms(1) by (auto simp: topo_filter_def split: option.splits)
  then show ?thesis
    using assms(2) by (auto simp: find_None_iff hm_get_Some_iff)
qed

lemma topo_pre_filter_Success:
  assumes "topo_pre_filter gs st pod nodes = (st', r, s)" "st_code s = Success"
    and "ps_gang (pod_spec pod) = Some g"
  obtains req where "cs_read as_topology st' ''PreFilterTopologyCoAffinity'' = Some req" "hm_wf req"
    "assumed_nodes (gang_id g) gs \<noteq> [] \<Longrightarrow>
       collect_required (assumed_nodes (gang_id g) gs) nodes (ps_topology_constraints (pod_spec pod)) []
         = Some req"
    "assumed_nodes (gang_id g) gs = [] \<Longrightarrow> req = []"
  using assms
  by (auto simp: topo_pre_filter_def Let_def as_topology_def dest: hm_wf_collect_required
      split: if_splits option.splits)

text \<open>All the members of a gang that are placed on known nodes share the value of a label.\<close>

definition gang_uniform :: "node_info list \<Rightarrow> string \<Rightarrow> string list \<Rightarrow> bool" where
  "gang_uniform nodes key names \<longleftrightarrow>
     (\<forall>m\<in>set nodes. \<forall>m'\<in>set nodes. node_name m \<in> set names \<and> node_name m' \<in> set names \<longrightarrow>
        hm_get (node_labels m) key = hm_get (node_labels m') key)"

lemma gang_uniform_mono: "gang_uniform nodes k xs \<Longrightarrow> set ys \<subseteq> set xs \<Longrightarrow> gang_uniform nodes k ys"
  unfolding gang_uniform_def by blast

lemma gang_uniform_Cons:
  assumes "gang_uniform nodes k xs" "\<exists>m\<in>set nodes. node_name m \<in> set xs \<and> hm_get (node_labels m) k = Some v"
    and "n \<in> set nodes" "distinct (map node_name nodes)" "hm_get (node_labels n) k = Some v"
  shows "gang_uniform nodes k (node_name n # xs)"
  unfolding gang_uniform_def
proof (intro ballI impI)
  have one: "hm_get (node_labels m) k = Some v"
    if "m \<in> set nodes" "node_name m \<in> set (node_name n # xs)" for m
  proof (cases "node_name m = node_name n")
    case True
    then show ?thesis
      using assms(3,4,5) that(1) by (metis inj_onD distinct_map)
  next
    case False
    then show ?thesis
      using assms(1,2) that unfolding gang_uniform_def by (metis set_ConsD)
  qed
  fix m m'
  assume "m \<in> set nodes" "m' \<in> set nodes"
    "node_name m \<in> set (node_name n # xs) \<and> node_name m' \<in> set (node_name n # xs)"
  then show "hm_get (node_labels m) k = hm_get (node_labels m') k"
    using one by simp
qed

lemma assumed_nodes_add_member:
  assumes "gang_wf gs"
  shows "set (assumed_nodes gid (fst (add_member now gid sz pod n gs)))
           \<subseteq> insert n (set (assumed_nodes gid gs))"
  using hm_wf_values_insert [OF gang_wf_entry [OF assms, of now gid sz], of pod n]
  by (auto simp: add_member_def Let_def assumed_nodes_def gang_entry_or_new_def hm_values_def
      split: option.splits)

end
