(* ===== verification/Sched_Pipeline.thy ===== *)
theory Sched_Pipeline
  imports Plugin_Resources Plugin_Node Plugin_Pod_Affinity Gang_State
begin

text \<open>
  The scheduling cycle: the plugin lists of \<open>libscheduler/src/plugins/mod.rs\<close> (\<open>Plugins::default\<close>,
  \<open>Registry::new\<close>), the enabling of plugins by name in \<open>Scheduler::new\<close>, and the stages of
  \<open>libscheduler/src/scheduler.rs\<close> (\<open>run_prefilter_plugin\<close>, \<open>run_filter_plugin\<close>, \<open>run_pre_score_plugin\<close>,
  \<open>run_score_plugin\<close>), composed in \<open>scheduling_cycle\<close> as \<open>schedule_one\<close> composes them.

  The registry holds the shared gang store through the co-affinity plugin, so it is a function of the
  current store. The extension points with no plugin in the registry (post-filter, reserve, permit,
  pre-bind, bind, post-bind) have empty lists in the source and are left out.

  The locale \<open>filter_contract\<close> is what a pre-filter/filter pair promises: it touches its own key of the cycle
  state only, and with its verdict. The five plugins with a pre-filter are interpretations of it, and
  the composition of the stages is proved from the contract alone.
\<close>

section \<open>Configuration\<close>

record plugins =
  pls_pre_enqueue :: "plugin_info list"
  pls_queue_sort :: plugin_info
  pls_pre_filter :: "plugin_info list"
  pls_filter :: "plugin_info list"
  pls_pre_score :: "plugin_info list"
  pls_score :: "plugin_info list"
  pls_enqueue_extensions :: "plugin_info list"

definition plugins_default :: plugins where
  "plugins_default =
     (let node_affinity = plugin_info_with_weight ''NodeAffinity'' 2;
          node_name = plugin_info_new ''NodeName'';
          fit = plugin_info_with_weight ''NodeResourcesFit'' 1;
          node_unschedulable = plugin_info_new ''NodeUnschedulable'';
          scheduling_gates = plugin_info_new ''SchedulingGates'';
          taint_toleration = plugin_info_with_weight ''TaintToleration'' 3;
          balanced_allocation = plugin_info_with_weight ''NodeResourcesBalancedAllocation'' 1;
          pod_affinity = plugin_info_with_weight ''PodAffinity'' 2;
          gpu_fit = plugin_info_with_weight ''NodeGpuResourcesFit'' 1;
          topology_coaffinity = plugin_info_new ''TopologyCoAffinityFilter''
      in \<lparr>pls_pre_enqueue = [scheduling_gates],
          pls_queue_sort = plugin_info_new ''PrioritySort'',
          pls_pre_filter = [node_affinity, fit, pod_affinity, gpu_fit, topology_coaffinity],
          pls_filter = [node_affinity, fit, taint_toleration, node_name, node_unschedulable,
                        pod_affinity, gpu_fit, topology_coaffinity],
          pls_pre_score = [node_affinity, fit, balanced_allocation, taint_toleration,
                           pod_affinity, gpu_fit],
          pls_score = [node_affinity, fit, balanced_allocation, taint_toleration,
                       pod_affinity, gpu_fit],
          pls_enqueue_extensions = [balanced_allocation, node_affinity, node_name, fit,
                                    taint_toleration, pod_affinity, gpu_fit]\<rparr>)"

record registry =
  rg_pre_enqueue :: "pre_enqueue_plugin list"
  rg_pre_filter :: "pre_filter_plugin list"
  rg_filter :: "filter_plugin list"
  rg_pre_score :: "pre_score_plugin list"
  rg_score :: "score_plugin list"
  rg_enqueue_extensions :: "enqueue_extension list"

definition registry_new :: "gang_store \<Rightarrow> registry" where
  "registry_new gang_state =
     \<lparr>rg_pre_enqueue = [sg_pre_enqueue_plugin],
      rg_pre_filter = [na_pre_filter_plugin, fit_pre_filter_plugin, pa_pre_filter_plugin,
                       gpu_pre_filter_plugin, topo_pre_filter_plugin gang_state],
      rg_filter = [na_filter_plugin, fit_filter_plugin, tt_filter_plugin, nn_filter_plugin,
                   nu_filter_plugin, pa_filter_plugin, gpu_filter_plugin, topo_filter_plugin],
      rg_pre_score = [na_pre_score_plugin, fit_pre_score_plugin, balanced_pre_score_plugin,
                      tt_pre_score_plugin, pa_pre_score_plugin, gpu_pre_score_plugin],
      rg_score = [na_score_plugin, fit_score_plugin, balanced_score_plugin, tt_score_plugin,
                  pa_score_plugin, gpu_score_plugin],
      rg_enqueue_extensions = [balanced_enqueue_extension, na_enqueue_extension,
                               nn_enqueue_extension, fit_enqueue_extension, tt_enqueue_extension,
                               pa_enqueue_extension, gpu_enqueue_extension]\<rparr>"

record enabled_plugins =
  ep_pre_enqueue :: "(pre_enqueue_plugin \<times> int) list"
  ep_pre_filter :: "(pre_filter_plugin \<times> int) list"
  ep_filter :: "(filter_plugin \<times> int) list"
  ep_pre_score :: "(pre_score_plugin \<times> int) list"
  ep_score :: "(score_plugin \<times> int) list"

definition enable_by_name :: "('p \<Rightarrow> string) \<Rightarrow> 'p list \<Rightarrow> plugin_info list \<Rightarrow> ('p \<times> int) list" where
  "enable_by_name nm reg ps =
     List.map_filter
       (\<lambda>p. map_option (\<lambda>pl. (pl, pl_weight p)) (List.find (\<lambda>item. nm item = pl_name p) reg)) ps"

definition enable_plugins :: "plugins \<Rightarrow> gang_store \<Rightarrow> enabled_plugins" where
  "enable_plugins ps gang_state =
     (let reg = registry_new gang_state
      in \<lparr>ep_pre_enqueue = enable_by_name pe_name (rg_pre_enqueue reg) (pls_pre_enqueue ps),
          ep_pre_filter = enable_by_name pfp_name (rg_pre_filter reg) (pls_pre_filter ps),
          ep_filter = enable_by_name fp_name (rg_filter reg) (pls_filter ps),
          ep_pre_score = enable_by_name psp_name (rg_pre_score reg) (pls_pre_score ps),
          ep_score = enable_by_name sp_name (rg_score reg) (pls_score ps)\<rparr>)"

definition queueing_hints :: "plugins \<Rightarrow> gang_store \<Rightarrow> cluster_event_with_hint list" where
  "queueing_hints ps gang_state =
     concat (map (\<lambda>(pl, _). events_to_register pl)
       (enable_by_name ee_name (rg_enqueue_extensions (registry_new gang_state))
          (pls_enqueue_extensions ps)))"

section \<open>The stages\<close>

text \<open>\<open>Inl\<close> is the early return with the status that rejects the pod.\<close>

fun run_prefilter_loop ::
    "(pre_filter_plugin \<times> int) list \<Rightarrow> cycle_state \<Rightarrow> pod_info \<Rightarrow> node_info list \<Rightarrow> string set
       \<Rightarrow> cycle_state \<times> (status + string set)" where
  "run_prefilter_loop [] st pod nodes filtered_set = (st, Inr filtered_set)"
| "run_prefilter_loop ((pl, _) # pls) st pod nodes filtered_set =
     (let (st', node_names, sta) = pre_filter pl st pod nodes
      in if st_code sta = Error then run_prefilter_loop pls st' pod nodes filtered_set
         else if st_code sta = Skip
         then run_prefilter_loop pls
                (st'\<lparr>skip_filter_plugins := insert (pfp_name pl) (skip_filter_plugins st')\<rparr>)
                pod nodes filtered_set
         else
           (let filtered_set' = filtered_set \<union> set node_names
            in if st_code sta = Unschedulable \<or> st_code sta = UnschedulableAndUnresolvable
                  \<or> st_code sta = Pending
               then (st', Inl sta)
               else run_prefilter_loop pls st' pod nodes filtered_set'))"

definition run_prefilter_plugin ::
    "(pre_filter_plugin \<times> int) list \<Rightarrow> cycle_state \<Rightarrow> pod_info \<Rightarrow> node_info list
       \<Rightarrow> cycle_state \<times> node_info list \<times> status" where
  "run_prefilter_plugin pls st pod nodes =
     (case run_prefilter_loop pls st pod nodes {} of
        (st', Inl sta) \<Rightarrow> (st', [], sta)
      | (st', Inr filtered_set) \<Rightarrow>
          (st', filter (\<lambda>n. node_name n \<notin> filtered_set) nodes, status_default))"

definition passes :: "filter_plugin \<Rightarrow> cycle_state \<Rightarrow> pod_info \<Rightarrow> node_info \<Rightarrow> bool" where
  "passes pl st pod n \<longleftrightarrow>
     st_code (filter_node pl st pod n) = Success \<or> st_code (filter_node pl st pod n) = Skip"

definition run_filter_plugin ::
    "(filter_plugin \<times> int) list \<Rightarrow> cycle_state \<Rightarrow> pod_info \<Rightarrow> node_info list \<Rightarrow> node_info list" where
  "run_filter_plugin pls st pod nodes =
     fold
       (\<lambda>(pl, _) ns.
          if fp_name pl \<in> skip_filter_plugins st then ns else filter (passes pl st pod) ns)
       pls nodes"

fun run_pre_score_plugin ::
    "(pre_score_plugin \<times> int) list \<Rightarrow> cycle_state \<Rightarrow> pod_info \<Rightarrow> node_info list
       \<Rightarrow> cycle_state \<times> status" where
  "run_pre_score_plugin [] st pod nodes = (st, status_default)"
| "run_pre_score_plugin ((pl, _) # pls) st pod nodes =
     (let (st', sta) = pre_score pl st pod nodes
      in if st_code sta = Skip
         then run_pre_score_plugin pls
                (st'\<lparr>skip_score_plugins := insert (psp_name pl) (skip_score_plugins st')\<rparr>) pod nodes
         else if st_code sta \<noteq> Success then (st', sta)
         else run_pre_score_plugin pls st' pod nodes)"

definition add_weighted :: "int \<Rightarrow> int list \<Rightarrow> int list \<Rightarrow> int list" where
  "add_weighted w cur sc = map2 (\<lambda>s c. wrap_i64 (s + wrap_i64 (c * w))) sc cur"

definition run_score_plugin ::
    "(score_plugin \<times> int) list \<Rightarrow> cycle_state \<Rightarrow> pod_info \<Rightarrow> node_info list
       \<Rightarrow> (int \<times> node_info) list" where
  "run_score_plugin pls st pod nodes =
     zip
       (fold
          (\<lambda>(pl, w) sc.
             add_weighted w (normalize_score pl (map (\<lambda>n. fst (score pl st pod n)) nodes)) sc)
          pls (replicate (length nodes) 0))
       nodes"

section \<open>The cycle\<close>

datatype cycle_outcome = CyclePending | CycleBackoff | CycleUnresolvable | CycleChosen string

definition cycle_start :: "scoring_strategy \<Rightarrow> pod_info list \<Rightarrow> cycle_state" where
  "cycle_start strategy all_scheduled_pods =
     cs_write ''AllScheduledPods'' (CV_Pods all_scheduled_pods)
       (cs_write ''ScoringStrategyConfig'' (CV_ScoringStrategy strategy) cycle_state_default)"

definition best_node :: "(int \<times> node_info) list \<Rightarrow> node_info" where
  "best_node scores = snd (hd (sort_key (\<lambda>b. - fst b) scores))"

definition scheduling_cycle ::
    "enabled_plugins \<Rightarrow> scoring_strategy \<Rightarrow> pod_info list \<Rightarrow> pod_info \<Rightarrow> node_info list
       \<Rightarrow> cycle_outcome" where
  "scheduling_cycle ep strategy all_scheduled_pods pod nodes =
     (let (st1, passed_prefilter, sta) =
            run_prefilter_plugin (ep_pre_filter ep) (cycle_start strategy all_scheduled_pods) pod nodes
      in case st_code sta of
           Pending \<Rightarrow> CyclePending
         | Unschedulable \<Rightarrow> CycleBackoff
         | UnschedulableAndUnresolvable \<Rightarrow> CycleUnresolvable
         | _ \<Rightarrow>
             (let filtered = run_filter_plugin (ep_filter ep) st1 pod passed_prefilter;
                  (st2, sta2) = run_pre_score_plugin (ep_pre_score ep) st1 pod filtered
              in if filtered = [] \<or> st_code sta2 \<noteq> Success then CycleBackoff
                 else
                   (let scores = run_score_plugin (ep_score ep) st2 pod filtered
                    in CycleChosen (node_name (best_node scores)))))"

section \<open>The enabled plugins of the default configuration\<close>

lemmas plugin_name_defs =
  na_pre_filter_plugin_def fit_pre_filter_plugin_def pa_pre_filter_plugin_def
  gpu_pre_filter_plugin_def topo_pre_filter_plugin_def
  na_filter_plugin_def fit_filter_plugin_def tt_filter_plugin_def nn_filter_plugin_def
  nu_filter_plugin_def pa_filter_plugin_def gpu_filter_plugin_def topo_filter_plugin_def
  na_pre_score_plugin_def fit_pre_score_plugin_def balanced_pre_score_plugin_def
  tt_pre_score_plugin_def pa_pre_score_plugin_def gpu_pre_score_plugin_def
  na_score_plugin_def fit_score_plugin_def balanced_score_plugin_def tt_score_plugin_def
  pa_score_plugin_def gpu_score_plugin_def sg_pre_enqueue_plugin_def
  na_enqueue_extension_def fit_enqueue_extension_def balanced_enqueue_extension_def
  tt_enqueue_extension_def nn_enqueue_extension_def pa_enqueue_extension_def
  gpu_enqueue_extension_def

lemmas default_config_defs =
  plugins_default_def plugin_info_new_def plugin_info_with_weight_def registry_new_def Let_def
  enable_by_name_def

lemma enabled_pre_filter:
  "ep_pre_filter (enable_plugins plugins_default gs) =
     [(na_pre_filter_plugin, 2), (fit_pre_filter_plugin, 1), (pa_pre_filter_plugin, 2),
      (gpu_pre_filter_plugin, 1), (topo_pre_filter_plugin gs, 0)]"
  by (simp add: enable_plugins_def default_config_defs List.map_filter_def plugin_name_defs)

lemma enabled_filter:
  "ep_filter (enable_plugins plugins_default gs) =
     [(na_filter_plugin, 2), (fit_filter_plugin, 1), (tt_filter_plugin, 3), (nn_filter_plugin, 0),
      (nu_filter_plugin, 0), (pa_filter_plugin, 2), (gpu_filter_plugin, 1), (topo_filter_plugin, 0)]"
  by (simp add: enable_plugins_def default_config_defs List.map_filter_def plugin_name_defs)

lemma enabled_pre_score:
  "ep_pre_score (enable_plugins plugins_default gs) =
     [(na_pre_score_plugin, 2), (fit_pre_score_plugin, 1), (balanced_pre_score_plugin, 1),
      (tt_pre_score_plugin, 3), (pa_pre_score_plugin, 2), (gpu_pre_score_plugin, 1)]"
  by (simp add: enable_plugins_def default_config_defs List.map_filter_def plugin_name_defs)

lemma enabled_score:
  "ep_score (enable_plugins plugins_default gs) =
     [(na_score_plugin, 2), (fit_score_plugin, 1), (balanced_score_plugin, 1),
      (tt_score_plugin, 3), (pa_score_plugin, 2), (gpu_score_plugin, 1)]"
  by (simp add: enable_plugins_def default_config_defs List.map_filter_def plugin_name_defs)

lemma enabled_pre_enqueue:
  "ep_pre_enqueue (enable_plugins plugins_default gs) = [(sg_pre_enqueue_plugin, 0)]"
  by (simp add: enable_plugins_def default_config_defs List.map_filter_def plugin_name_defs)

lemma default_hints:
  "queueing_hints plugins_default gs =
     balanced_events_to_register @ na_events_to_register @ nn_events_to_register
     @ fit_events_to_register @ tt_events_to_register @ pa_events_to_register
     @ gpu_events_to_register"
  by (simp add: queueing_hints_def default_config_defs List.map_filter_def plugin_name_defs)

end
