(* ===== verification/Sched_Feasible.thy ===== *)
theory Sched_Feasible
  imports Sched_Pipeline
begin

text \<open>
  The filter stages compute the set of feasible nodes. The locale \<open>filter_contract\<close> states what the pair of a
  pre-filter and a filter promises to the stages that run them: the pair uses one key of the cycle state,
  the pre-filter leaves everything else alone, a \<open>Skip\<close> means that every node is acceptable, and after
  a \<open>Success\<close> the filter accepts exactly the nodes of the plugin's verdict. The plugins with a
  pre-filter are interpretations; the composition lemma is proved once from the contract. The
  result is that the pre-filter and filter stages of the default configuration keep exactly the nodes
  that satisfy \<open>feasible\<close>, a predicate with no cycle state in it.
\<close>

section \<open>The contract\<close>

type_synonym verdict = "pod_info list \<Rightarrow> node_info list \<Rightarrow> pod_info \<Rightarrow> node_info \<Rightarrow> bool"

definition accepts :: "status \<Rightarrow> bool" where
  "accepts s \<longleftrightarrow> st_code s = Success \<or> st_code s = Skip"

text \<open>
  A plugin function that writes at most one key of the cycle state. \<open>'r\<close> is what the function returns
  besides the state.
\<close>

locale key_writer =
  fixes key :: string
    and pre :: "cycle_state \<Rightarrow> pod_info \<Rightarrow> node_info list \<Rightarrow> cycle_state \<times> 'r"
  assumes pre_frame:
      "pre st pod nodes = (st', x) \<Longrightarrow> k \<noteq> key \<Longrightarrow> hm_get (storage st') k = hm_get (storage st) k"
begin

lemma read_other: "pre st pod nodes = (st', x) \<Longrightarrow> k \<noteq> key \<Longrightarrow> cs_read d st' k = cs_read d st k"
  by (simp add: cs_read_def pre_frame)

end

locale filter_contract =
  key_writer key pre
  for key :: string
    and pre :: "cycle_state \<Rightarrow> pod_info \<Rightarrow> node_info list \<Rightarrow> cycle_state \<times> string list \<times> status" +
  fixes flt :: "cycle_state \<Rightarrow> pod_info \<Rightarrow> node_info \<Rightarrow> status"
    and ok :: verdict
  assumes pre_skips: "pre st pod nodes = (st', r, s) \<Longrightarrow> skip_filter_plugins st' = skip_filter_plugins st"
    and pre_names: "pre st pod nodes = (st', r, s) \<Longrightarrow> r = []"
    and pre_codes:
      "pre st pod nodes = (st', r, s) \<Longrightarrow>
         st_code s \<in> {Success, Skip, Unschedulable, UnschedulableAndUnresolvable}"
    and pre_skip: "pre st pod nodes = (st', r, s) \<Longrightarrow> st_code s = Skip \<Longrightarrow> ok pods nodes pod n"
    and pre_success:
      "pre st pod nodes = (st', r, s) \<Longrightarrow> st_code s = Success \<Longrightarrow> nodes_wf nodes \<Longrightarrow>
         cs_read as_pods st ''AllScheduledPods'' = Some pods \<Longrightarrow>
         accepts (flt st' pod n) \<longleftrightarrow> ok pods nodes pod n"
    and flt_local:
      "hm_get (storage s1) key = hm_get (storage s2) key \<Longrightarrow> flt s1 pod n = flt s2 pod n"
    and key_private: "key \<noteq> ''AllScheduledPods''"
begin

text \<open>The verdict survives every later change of the cycle state that spares the key.\<close>

lemma verdict_stable:
  assumes "pre st pod nodes = (st', r, s)" "st_code s = Success" "nodes_wf nodes"
    and "cs_read as_pods st ''AllScheduledPods'' = Some pods"
    and "hm_get (storage st'') key = hm_get (storage st') key"
  shows "accepts (flt st'' pod n) \<longleftrightarrow> ok pods nodes pod n"
  using pre_success [OF assms(1-4)] flt_local [OF assms(5)] by simp

lemma pods_kept:
  assumes "pre st pod nodes = (st', r, s)"
  shows "cs_read as_pods st' ''AllScheduledPods'' = cs_read as_pods st ''AllScheduledPods''"
  using read_other [OF assms] key_private by metis

end

section \<open>The plugins keep it\<close>

definition na_ok :: verdict where
  "na_ok pods nodes pod n \<longleftrightarrow> required_affinity_ok pod n"
definition fit_ok :: verdict where
  "fit_ok pods nodes pod n \<longleftrightarrow> is_fit (ps_resources (pod_spec pod)) n"
definition gpu_ok :: verdict where
  "gpu_ok pods nodes pod n \<longleftrightarrow> is_gpu_fit pod n"

text \<open>
  A member of a gang with some members already placed: the node carries, for each same-value
  constraint, the label value found on the placed members' nodes.
\<close>

definition topo_ok :: "gang_store \<Rightarrow> verdict" where
  "topo_ok gs pods nodes pod n \<longleftrightarrow>
     (\<forall>g c. ps_gang (pod_spec pod) = Some g \<and> c \<in> set (ps_topology_constraints (pod_spec pod)) \<and>
        same_value c \<and> assumed_nodes (gang_id g) gs \<noteq> [] \<longrightarrow>
        (\<exists>v. pick_label_value (assumed_nodes (gang_id g) gs) (topology_key c) nodes = Some v \<and>
             hm_get (node_labels n) (topology_key c) = Some v))"

lemma cs_write_frame:
  "k \<noteq> key \<Longrightarrow> hm_get (storage (cs_write key v st)) k = hm_get (storage st) k"
  by (simp add: cs_write_def)

lemma cs_read_local:
  "hm_get (storage s1) k = hm_get (storage s2) k \<Longrightarrow> cs_read d s1 k = cs_read d s2 k"
  by (simp add: cs_read_def)

interpretation na_contract: filter_contract "''PreFilterNodeAffinity''" na_pre_filter na_filter na_ok
proof unfold_locales
  fix st st' s1 s2 pod n nodes r s k pods x
  show "hm_get (storage s1) ''PreFilterNodeAffinity'' = hm_get (storage s2) ''PreFilterNodeAffinity''
    \<Longrightarrow> na_filter s1 pod n = na_filter s2 pod n"
    using cs_read_local [of s1 _ s2 as_na_pre_filter] by (simp add: na_filter_def)
  show "na_pre_filter st pod nodes = (st', x) \<Longrightarrow> k \<noteq> ''PreFilterNodeAffinity'' \<Longrightarrow>
      hm_get (storage st') k = hm_get (storage st) k"
    by (auto simp: na_pre_filter_def Let_def cs_write_frame split: if_splits option.splits prod.splits)
  assume pre: "na_pre_filter st pod nodes = (st', r, s)"
  show "skip_filter_plugins st' = skip_filter_plugins st" "r = []"
    "st_code s \<in> {Success, Skip, Unschedulable, UnschedulableAndUnresolvable}"
    using pre by (auto simp: na_pre_filter_def Let_def cs_write_frame split: if_splits)
  show "st_code s = Skip \<Longrightarrow> na_ok pods nodes pod n"
    using na_pre_filter_skip [OF pre] by (simp add: na_ok_def)
  show "st_code s = Success \<Longrightarrow> nodes_wf nodes \<Longrightarrow>
      cs_read as_pods st ''AllScheduledPods'' = Some pods \<Longrightarrow>
      accepts (na_filter st' pod n) = na_ok pods nodes pod n"
    using na_filter_code [OF pre] by (simp add: na_ok_def accepts_def)
qed simp

interpretation fit_contract:
  filter_contract "''PreFilterNodeResourcesFit''" fit_pre_filter fit_filter fit_ok
proof unfold_locales
  fix st st' s1 s2 pod n nodes r s k pods x
  show "hm_get (storage s1) ''PreFilterNodeResourcesFit'' = hm_get (storage s2) ''PreFilterNodeResourcesFit''
    \<Longrightarrow> fit_filter s1 pod n = fit_filter s2 pod n"
    using cs_read_local [of s1 _ s2 as_fit_pre_filter] by (simp add: fit_filter_def)
  show "fit_pre_filter st pod nodes = (st', x) \<Longrightarrow> k \<noteq> ''PreFilterNodeResourcesFit'' \<Longrightarrow>
      hm_get (storage st') k = hm_get (storage st) k"
    by (auto simp: fit_pre_filter_def cs_write_frame split: if_splits option.splits prod.splits)
  assume pre: "fit_pre_filter st pod nodes = (st', r, s)"
  show "skip_filter_plugins st' = skip_filter_plugins st" "r = []"
    "st_code s \<in> {Success, Skip, Unschedulable, UnschedulableAndUnresolvable}"
    "st_code s = Skip \<Longrightarrow> fit_ok pods nodes pod n"
    using pre by (auto simp: fit_pre_filter_def cs_write_frame)
  show "st_code s = Success \<Longrightarrow> nodes_wf nodes \<Longrightarrow>
      cs_read as_pods st ''AllScheduledPods'' = Some pods \<Longrightarrow>
      accepts (fit_filter st' pod n) = fit_ok pods nodes pod n"
    using pre by (auto simp: fit_pre_filter_def fit_filter_def fit_ok_def accepts_def as_fit_pre_filter_def
        split: if_splits)
qed simp

interpretation gpu_contract:
  filter_contract "''PreFilterNodeGpuResourcesFit''" gpu_pre_filter gpu_filter gpu_ok
proof unfold_locales
  fix st st' s1 s2 pod n nodes r s k pods x
  show "hm_get (storage s1) ''PreFilterNodeGpuResourcesFit'' =
      hm_get (storage s2) ''PreFilterNodeGpuResourcesFit''
    \<Longrightarrow> gpu_filter s1 pod n = gpu_filter s2 pod n"
    using cs_read_local [of s1 _ s2 as_gpu_pre_filter] by (simp add: gpu_filter_def)
  show "gpu_pre_filter st pod nodes = (st', x) \<Longrightarrow> k \<noteq> ''PreFilterNodeGpuResourcesFit'' \<Longrightarrow>
      hm_get (storage st') k = hm_get (storage st) k"
    by (auto simp: gpu_pre_filter_def cs_write_frame split: if_splits option.splits prod.splits)
  assume pre: "gpu_pre_filter st pod nodes = (st', r, s)"
  show "skip_filter_plugins st' = skip_filter_plugins st" "r = []"
    "st_code s \<in> {Success, Skip, Unschedulable, UnschedulableAndUnresolvable}"
    "st_code s = Skip \<Longrightarrow> gpu_ok pods nodes pod n"
    using pre by (auto simp: gpu_pre_filter_def cs_write_frame gpu_ok_def is_gpu_fit_def split: if_splits)
  show "st_code s = Success \<Longrightarrow> nodes_wf nodes \<Longrightarrow>
      cs_read as_pods st ''AllScheduledPods'' = Some pods \<Longrightarrow>
      accepts (gpu_filter st' pod n) = gpu_ok pods nodes pod n"
    using gpu_filter_pre_filter [OF pre] by (simp add: gpu_ok_def accepts_def)
qed simp

definition pa_ok :: verdict where
  "pa_ok pods nodes pod n \<longleftrightarrow> pod_affinity_ok nodes pods pod n"

interpretation pa_contract: filter_contract "''PreFilterPodAffinity''" pa_pre_filter pa_filter pa_ok
proof unfold_locales
  fix st st' s1 s2 pod n nodes r s k pods x
  show "hm_get (storage s1) ''PreFilterPodAffinity'' = hm_get (storage s2) ''PreFilterPodAffinity''
    \<Longrightarrow> pa_filter s1 pod n = pa_filter s2 pod n"
    using cs_read_local [of s1 _ s2 as_pa_pre_filter] by (simp add: pa_filter_def)
  show "pa_pre_filter st pod nodes = (st', x) \<Longrightarrow> k \<noteq> ''PreFilterPodAffinity'' \<Longrightarrow>
      hm_get (storage st') k = hm_get (storage st) k"
    by (auto simp: pa_pre_filter_def Let_def cs_write_frame split: if_splits option.splits prod.splits)
  assume pre: "pa_pre_filter st pod nodes = (st', r, s)"
  show "skip_filter_plugins st' = skip_filter_plugins st" "r = []"
    "st_code s \<in> {Success, Skip, Unschedulable, UnschedulableAndUnresolvable}"
    using pre
    by (auto simp: pa_pre_filter_def Let_def cs_write_frame split: if_splits option.splits prod.splits)
  show "st_code s = Skip \<Longrightarrow> pa_ok pods nodes pod n"
    using pa_pre_filter_Skip [OF pre] by (simp add: pa_ok_def)
  show "st_code s = Success \<Longrightarrow> nodes_wf nodes \<Longrightarrow>
      cs_read as_pods st ''AllScheduledPods'' = Some pods \<Longrightarrow>
      accepts (pa_filter st' pod n) = pa_ok pods nodes pod n"
    using pa_filter_after_pre_filter [OF _ pre]
    by (auto simp: accepts_def pa_ok_def pa_filter_def split: option.splits if_splits)
qed simp

lemma topo_filter_verdict:
  assumes "topo_pre_filter gs st pod nodes = (st', r, s)" "st_code s = Success"
  shows "accepts (topo_filter st' pod n) \<longleftrightarrow> topo_ok gs pods nodes pod n"
proof -
  obtain g where g: "ps_gang (pod_spec pod) = Some g"
    using assms by (auto simp: topo_pre_filter_def split: option.splits)
  obtain req where req: "cs_read as_topology st' ''PreFilterTopologyCoAffinity'' = Some req" "hm_wf req"
    and col: "assumed_nodes (gang_id g) gs \<noteq> [] \<Longrightarrow> collect_required (assumed_nodes (gang_id g) gs)
      nodes (ps_topology_constraints (pod_spec pod)) [] = Some req"
    and emp: "assumed_nodes (gang_id g) gs = [] \<Longrightarrow> req = []"
    using topo_pre_filter_Success [OF assms g] by metis
  have "accepts (topo_filter st' pod n) \<longleftrightarrow> st_code (topo_filter st' pod n) = Success"
    using req(1) by (auto simp: accepts_def topo_filter_def split: option.splits if_splits)
  also have "\<dots> \<longleftrightarrow> (\<forall>k v. hm_get req k = Some v \<longrightarrow> hm_get (node_labels n) k = Some v)"
    by (rule topo_filter_code [OF req])
  also have "\<dots> \<longleftrightarrow> topo_ok gs pods nodes pod n"
  proof (cases "assumed_nodes (gang_id g) gs = []")
    case True
    then show ?thesis using emp g by (simp add: topo_ok_def)
  next
    case False
    let ?K = "\<lambda>k. \<exists>c\<in>set (ps_topology_constraints (pod_spec pod)). same_value c \<and> topology_key c = k"
    have get: "hm_get req k =
        (if ?K k then pick_label_value (assumed_nodes (gang_id g) gs) k nodes else None)"
      and some: "?K k \<Longrightarrow> pick_label_value (assumed_nodes (gang_id g) gs) k nodes \<noteq> None" for k
      using collect_required_get [OF col [OF False], of k] by auto
    show ?thesis
      using g False some unfolding get topo_ok_def by (auto split: if_splits) blast+
  qed
  finally show ?thesis .
qed

interpretation topo_contract:
  filter_contract "''PreFilterTopologyCoAffinity''" "topo_pre_filter gs" topo_filter "topo_ok gs" for gs
proof unfold_locales
  fix st st' s1 s2 pod n nodes r s k pods x
  show "hm_get (storage s1) ''PreFilterTopologyCoAffinity'' =
      hm_get (storage s2) ''PreFilterTopologyCoAffinity''
    \<Longrightarrow> topo_filter s1 pod n = topo_filter s2 pod n"
    using cs_read_local [of s1 _ s2 as_topology] by (simp add: topo_filter_def)
  show "topo_pre_filter gs st pod nodes = (st', x) \<Longrightarrow> k \<noteq> ''PreFilterTopologyCoAffinity'' \<Longrightarrow>
      hm_get (storage st') k = hm_get (storage st) k"
    by (auto simp: topo_pre_filter_def Let_def cs_write_frame split: if_splits option.splits prod.splits)
  assume pre: "topo_pre_filter gs st pod nodes = (st', r, s)"
  show "skip_filter_plugins st' = skip_filter_plugins st" "r = []"
    "st_code s \<in> {Success, Skip, Unschedulable, UnschedulableAndUnresolvable}"
    "st_code s = Skip \<Longrightarrow> topo_ok gs pods nodes pod n"
    using pre
    by (auto simp: topo_pre_filter_def Let_def cs_write_frame topo_ok_def split: if_splits option.splits)
  show "st_code s = Success \<Longrightarrow> nodes_wf nodes \<Longrightarrow>
      cs_read as_pods st ''AllScheduledPods'' = Some pods \<Longrightarrow>
      accepts (topo_filter st' pod n) = topo_ok gs pods nodes pod n"
    using topo_filter_verdict [OF pre] by simp
qed simp

section \<open>Composition\<close>

text \<open>A pre-filter plugin with its weight, the key it uses, its filter and its verdict.\<close>

type_synonym contracted =
  "(pre_filter_plugin \<times> int) \<times> string \<times> (cycle_state \<Rightarrow> pod_info \<Rightarrow> node_info \<Rightarrow> status) \<times> verdict"

definition keeps_contract :: "contracted \<Rightarrow> bool" where
  "keeps_contract c \<longleftrightarrow>
     (case c of ((pl, w), key, flt, ok) \<Rightarrow> filter_contract key (pre_filter pl) flt ok)"

definition c_name :: "contracted \<Rightarrow> string" where "c_name c = pfp_name (fst (fst c))"
definition c_key :: "contracted \<Rightarrow> string" where "c_key c = fst (snd c)"

text \<open>The state after the pre-filters tells the verdict of a plugin.\<close>

definition decides :: "cycle_state \<Rightarrow> contracted \<Rightarrow> pod_info list \<Rightarrow> node_info list \<Rightarrow> pod_info \<Rightarrow> bool" where
  "decides st c pods nodes pod \<longleftrightarrow>
     (case c of ((pl, w), key, flt, ok) \<Rightarrow>
        \<forall>n. (if pfp_name pl \<in> skip_filter_plugins st then ok pods nodes pod n
             else accepts (flt st pod n) = ok pods nodes pod n))"

lemma prefilter_loop_frame:
  assumes "\<forall>c\<in>set cs. keeps_contract c"
    and "run_prefilter_loop (map fst cs) st pod nodes fs = (st', Inr fs')"
  shows "fs' = fs"
    and "k \<notin> c_key ` set cs \<Longrightarrow> hm_get (storage st') k = hm_get (storage st) k"
    and "nm \<notin> c_name ` set cs \<Longrightarrow> nm \<in> skip_filter_plugins st' \<longleftrightarrow> nm \<in> skip_filter_plugins st"
proof -
  have "fs' = fs \<and>
      (k \<notin> c_key ` set cs \<longrightarrow> hm_get (storage st') k = hm_get (storage st) k) \<and>
      (nm \<notin> c_name ` set cs \<longrightarrow> (nm \<in> skip_filter_plugins st' \<longleftrightarrow> nm \<in> skip_filter_plugins st))"
    using assms
  proof (induction cs arbitrary: st fs)
    case Nil
    then show ?case by simp
  next
    case (Cons c cs)
    obtain pl w key flt ok where c: "c = ((pl, w), key, flt, ok)" by (metis prod.exhaust)
    obtain st1 r s where pre: "pre_filter pl st pod nodes = (st1, r, s)" by (metis prod.exhaust)
    have fc: "filter_contract key (pre_filter pl) flt ok"
      using Cons.prems(1) c by (simp add: keeps_contract_def)
    note facts = key_writer.pre_frame [OF filter_contract.axioms(1) [OF fc] pre, of k] filter_contract.pre_skips [OF fc pre]
      filter_contract.pre_names [OF fc pre] filter_contract.pre_codes [OF fc pre]
    show ?case
      using Cons.IH [OF _ , of _ fs] Cons.prems facts
      by (auto simp: c pre c_key_def c_name_def Let_def split: if_splits)
  qed
  then show "fs' = fs"
    "k \<notin> c_key ` set cs \<Longrightarrow> hm_get (storage st') k = hm_get (storage st) k"
    "nm \<notin> c_name ` set cs \<Longrightarrow> nm \<in> skip_filter_plugins st' \<longleftrightarrow> nm \<in> skip_filter_plugins st"
    by auto
qed

lemma prefilter_loop_decides:
  assumes "\<forall>c\<in>set cs. keeps_contract c" "distinct (map c_key cs)" "distinct (map c_name cs)"
    and "nodes_wf nodes" "cs_read as_pods st ''AllScheduledPods'' = Some pods"
    and "skip_filter_plugins st \<inter> c_name ` set cs = {}"
    and "run_prefilter_loop (map fst cs) st pod nodes fs = (st', Inr fs')"
  shows "\<forall>c\<in>set cs. decides st' c pods nodes pod"
  using assms
proof (induction cs arbitrary: st fs)
  case Nil
  then show ?case by simp
next
  case (Cons c cs)
  obtain pl w key flt ok where c: "c = ((pl, w), key, flt, ok)" by (metis prod.exhaust)
  obtain st1 r s where pre: "pre_filter pl st pod nodes = (st1, r, s)" by (metis prod.exhaust)
  have fc: "filter_contract key (pre_filter pl) flt ok"
    using Cons.prems(1) c by (simp add: keeps_contract_def)
  note sk = filter_contract.pre_skips [OF fc pre]
  define st2 where "st2 = (if st_code s = Skip
    then st1\<lparr>skip_filter_plugins := insert (pfp_name pl) (skip_filter_plugins st1)\<rparr> else st1)"
  have s: "st_code s = Skip \<or> st_code s = Success"
    and run: "run_prefilter_loop (map fst cs) st2 pod nodes fs = (st', Inr fs')"
    using Cons.prems(7) filter_contract.pre_codes [OF fc pre] filter_contract.pre_names [OF fc pre]
    by (auto simp: c pre Let_def st2_def split: if_splits)
  have pods: "cs_read as_pods st2 ''AllScheduledPods'' = Some pods"
    using filter_contract.pods_kept [OF fc pre] Cons.prems(5) by (simp add: st2_def)
  have rest: "\<forall>c\<in>set cs. keeps_contract c" using Cons.prems(1) by simp
  have "skip_filter_plugins st2 \<inter> c_name ` set cs = {}"
    using Cons.prems(3,6) sk by (auto simp: st2_def c c_name_def)
  then have "\<forall>c\<in>set cs. decides st' c pods nodes pod"
    using Cons.IH [OF rest _ _ Cons.prems(4) pods _ run] Cons.prems(2,3) by simp
  moreover have "decides st' c pods nodes pod"
  proof -
    have nm: "pfp_name pl \<in> skip_filter_plugins st' \<longleftrightarrow> pfp_name pl \<in> skip_filter_plugins st2"
      using prefilter_loop_frame(3) [OF rest run] Cons.prems(3) by (auto simp: c c_name_def)
    have key: "hm_get (storage st') key = hm_get (storage st1) key"
      using prefilter_loop_frame(2) [OF rest run] Cons.prems(2) by (auto simp: c c_key_def st2_def)
    have "pfp_name pl \<in> skip_filter_plugins st2 \<longleftrightarrow> st_code s = Skip"
      using Cons.prems(6) sk by (auto simp: st2_def c c_name_def)
    then show ?thesis
      using nm s filter_contract.pre_skip [OF fc pre]
        filter_contract.verdict_stable [OF fc pre _ Cons.prems(4,5) key]
      by (auto simp: decides_def c)
  qed
  ultimately show ?case by simp
qed

section \<open>Feasible nodes\<close>

definition feasible :: "gang_store \<Rightarrow> verdict" where
  "feasible gs pods nodes pod n \<longleftrightarrow>
     required_affinity_ok pod n \<and>
     is_fit (ps_resources (pod_spec pod)) n \<and>
     taints_tolerated pod n \<and>
     ps_node_name (pod_spec pod) \<in> {None, Some (node_name n)} \<and>
     cordon_ok pod n \<and>
     pod_affinity_ok nodes pods pod n \<and>
     is_gpu_fit pod n \<and>
     topo_ok gs pods nodes pod n"

definition default_contracts :: "gang_store \<Rightarrow> contracted list" where
  "default_contracts gs =
     [((na_pre_filter_plugin, 2), ''PreFilterNodeAffinity'', na_filter, na_ok),
      ((fit_pre_filter_plugin, 1), ''PreFilterNodeResourcesFit'', fit_filter, fit_ok),
      ((pa_pre_filter_plugin, 2), ''PreFilterPodAffinity'', pa_filter, pa_ok),
      ((gpu_pre_filter_plugin, 1), ''PreFilterNodeGpuResourcesFit'', gpu_filter, gpu_ok),
      ((topo_pre_filter_plugin gs, 0), ''PreFilterTopologyCoAffinity'', topo_filter, topo_ok gs)]"

lemma default_contracts_keep: "c \<in> set (default_contracts gs) \<Longrightarrow> keeps_contract c"
  using na_contract.filter_contract_axioms fit_contract.filter_contract_axioms
    pa_contract.filter_contract_axioms gpu_contract.filter_contract_axioms
    topo_contract.filter_contract_axioms [of gs]
  by (auto simp: default_contracts_def keeps_contract_def plugin_name_defs)

lemma default_contracts_distinct:
  "distinct (map c_key (default_contracts gs))" "distinct (map c_name (default_contracts gs))"
  by (simp_all add: default_contracts_def c_key_def c_name_def plugin_name_defs)

lemma default_contracts_plugins:
  "map fst (default_contracts gs) = ep_pre_filter (enable_plugins plugins_default gs)"
  by (simp add: default_contracts_def enabled_pre_filter)

lemma cycle_start_simps [simp]:
  "cs_read as_pods (cycle_start strategy pods) ''AllScheduledPods'' = Some pods"
  "cs_read as_strategy (cycle_start strategy pods) ''ScoringStrategyConfig'' = Some strategy"
  "skip_filter_plugins (cycle_start strategy pods) = {}"
  by (simp_all add: cycle_start_def as_pods_def as_strategy_def cycle_state_default_def)

lemma prefilter_default:
  assumes "nodes_wf nodes"
    and "run_prefilter_loop (ep_pre_filter (enable_plugins plugins_default gs))
           (cycle_start strategy pods) pod nodes {} = (st', Inr fs')"
  shows "fs' = {}" "\<forall>c\<in>set (default_contracts gs). decides st' c pods nodes pod"
    and "nm \<notin> c_name ` set (default_contracts gs) \<Longrightarrow> nm \<notin> skip_filter_plugins st'"
    and "k \<notin> c_key ` set (default_contracts gs) \<Longrightarrow>
           hm_get (storage st') k = hm_get (storage (cycle_start strategy pods)) k"
  using prefilter_loop_frame [of "default_contracts gs" "cycle_start strategy pods" pod nodes "{}" st' fs']
    prefilter_loop_decides [of "default_contracts gs" nodes "cycle_start strategy pods" pods pod "{}"]
    assms default_contracts_keep default_contracts_distinct
  by (auto simp: default_contracts_plugins)

lemma run_filter_cons:
  "run_filter_plugin ((pl, w) # pls) st pod nodes =
     run_filter_plugin pls st pod
       (if fp_name pl \<in> skip_filter_plugins st then nodes else filter (passes pl st pod) nodes)"
  by (simp add: run_filter_plugin_def)

lemma run_filter_is_filter:
  assumes "\<And>pl w good n. ((pl, w), good) \<in> set ps \<Longrightarrow>
             (if fp_name pl \<in> skip_filter_plugins st then good n else passes pl st pod n = good n)"
  shows "run_filter_plugin (map fst ps) st pod nodes = filter (\<lambda>n. \<forall>(_, good)\<in>set ps. good n) nodes"
  using assms
proof (induction ps arbitrary: nodes)
  case Nil
  then show ?case by (simp add: run_filter_plugin_def)
next
  case (Cons p ps)
  obtain pl w good where p: "p = ((pl, w), good)" by (metis prod.exhaust)
  have hd: "if fp_name pl \<in> skip_filter_plugins st then good n else passes pl st pod n = good n" for n
    by (rule Cons.prems [of pl w]) (simp add: p)
  have "(if fp_name pl \<in> skip_filter_plugins st then nodes else filter (passes pl st pod) nodes)
      = filter good nodes"
    using hd by (auto simp: filter_id_conv split: if_splits intro: filter_cong)
  moreover have "run_filter_plugin (map fst ps) st pod ns = filter (\<lambda>n. \<forall>(_, good)\<in>set ps. good n) ns"
    for ns
    by (rule Cons.IH) (rule Cons.prems, rule list.set_intros(2))
  ultimately show ?case
    by (simp add: p run_filter_cons conj_commute)
qed

lemma default_skip_names:
  "nm \<notin> c_name ` set (default_contracts gs) \<longleftrightarrow>
     nm \<notin> {''NodeAffinity'', ''NodeResourcesFit'', ''PodAffinity'', ''NodeGpuResourcesFit'',
           ''TopologyCoAffinityFilter''}"
  by (auto simp: default_contracts_def c_name_def plugin_name_defs)

definition default_filters ::
    "gang_store \<Rightarrow> pod_info list \<Rightarrow> node_info list \<Rightarrow> pod_info
       \<Rightarrow> ((filter_plugin \<times> int) \<times> (node_info \<Rightarrow> bool)) list" where
  "default_filters gs pods nodes pod =
     [((na_filter_plugin, 2), required_affinity_ok pod),
      ((fit_filter_plugin, 1), is_fit (ps_resources (pod_spec pod))),
      ((tt_filter_plugin, 3), taints_tolerated pod),
      ((nn_filter_plugin, 0), \<lambda>n. ps_node_name (pod_spec pod) \<in> {None, Some (node_name n)}),
      ((nu_filter_plugin, 0), cordon_ok pod),
      ((pa_filter_plugin, 2), pod_affinity_ok nodes pods pod),
      ((gpu_filter_plugin, 1), is_gpu_fit pod),
      ((topo_filter_plugin, 0), topo_ok gs pods nodes pod)]"

lemma passes_accepts: "passes pl st pod n = accepts (filter_node pl st pod n)"
  by (simp add: passes_def accepts_def)

lemma filters_keep_feasible:
  assumes "nodes_wf nodes"
    and "run_prefilter_loop (ep_pre_filter (enable_plugins plugins_default gs))
           (cycle_start strategy pods) pod nodes {} = (st', Inr fs')"
  shows "run_filter_plugin (ep_filter (enable_plugins plugins_default gs)) st' pod nodes
           = filter (feasible gs pods nodes pod) nodes"
proof -
  note pf = prefilter_default [OF assms]
  have d: "if ''NodeAffinity'' \<in> skip_filter_plugins st' then required_affinity_ok pod n
      else accepts (na_filter st' pod n) = required_affinity_ok pod n"
    "if ''NodeResourcesFit'' \<in> skip_filter_plugins st' then is_fit (ps_resources (pod_spec pod)) n
      else accepts (fit_filter st' pod n) = is_fit (ps_resources (pod_spec pod)) n"
    "if ''PodAffinity'' \<in> skip_filter_plugins st' then pod_affinity_ok nodes pods pod n
      else accepts (pa_filter st' pod n) = pod_affinity_ok nodes pods pod n"
    "if ''NodeGpuResourcesFit'' \<in> skip_filter_plugins st' then is_gpu_fit pod n
      else accepts (gpu_filter st' pod n) = is_gpu_fit pod n"
    "if ''TopologyCoAffinityFilter'' \<in> skip_filter_plugins st' then topo_ok gs pods nodes pod n
      else accepts (topo_filter st' pod n) = topo_ok gs pods nodes pod n" for n
    using pf(2)
    unfolding default_contracts_def decides_def plugin_name_defs na_ok_def fit_ok_def pa_ok_def gpu_ok_def
    by simp_all
  have n: "''TaintToleration'' \<notin> skip_filter_plugins st'" "''NodeName'' \<notin> skip_filter_plugins st'"
    "''NodeUnschedulable'' \<notin> skip_filter_plugins st'"
    using pf(3) unfolding default_skip_names by simp_all
  have u: "accepts (tt_filter st' pod n) = taints_tolerated pod n"
    "accepts (nn_filter st' pod n) = (ps_node_name (pod_spec pod) \<in> {None, Some (node_name n)})"
    "accepts (nu_filter st' pod n) = cordon_ok pod n" for n
    by (simp_all add: accepts_def tt_filter_code nn_filter_code nu_filter_code)
  have eq: "map fst (default_filters gs pods nodes pod) = ep_filter (enable_plugins plugins_default gs)"
    unfolding enabled_filter default_filters_def by simp
  have "run_filter_plugin (map fst (default_filters gs pods nodes pod)) st' pod nodes =
      filter (\<lambda>n. \<forall>(_, good)\<in>set (default_filters gs pods nodes pod). good n) nodes"
  proof (rule run_filter_is_filter)
    fix pl w good n
    have "\<forall>((pl, w), good)\<in>set (default_filters gs pods nodes pod).
        if fp_name pl \<in> skip_filter_plugins st' then good n else passes pl st' pod n = good n"
      unfolding default_filters_def passes_accepts plugin_name_defs
      using d [of n] n u [of n] by simp
    then show "((pl, w), good) \<in> set (default_filters gs pods nodes pod) \<Longrightarrow>
        if fp_name pl \<in> skip_filter_plugins st' then good n else passes pl st' pod n = good n"
      by blast
  qed
  also have "\<dots> = filter (feasible gs pods nodes pod) nodes"
    by (intro filter_cong refl) (simp add: default_filters_def feasible_def)
  finally show ?thesis unfolding eq .
qed

section \<open>Choosing a node\<close>

lemma hd_sort_key:
  fixes f :: "'a \<Rightarrow> int"
  assumes "xs \<noteq> []"
  shows "hd (sort_key f xs) \<in> set xs" "\<forall>x\<in>set xs. f (hd (sort_key f xs)) \<le> f x"
proof -
  obtain y ys where y: "sort_key f xs = y # ys"
    using assms by (cases "sort_key f xs") (simp_all flip: set_empty add: set_sort)
  have s: "set (y # ys) = set xs" using y by (metis set_sort)
  have "sorted (map f (y # ys))" using y by (metis sorted_sort_key)
  then show "hd (sort_key f xs) \<in> set xs" "\<forall>x\<in>set xs. f (hd (sort_key f xs)) \<le> f x"
    using s y by auto
qed

lemma best_node_max:
  assumes "scores \<noteq> []"
  shows "\<exists>s. (s, best_node scores) \<in> set scores \<and> (\<forall>(s', n')\<in>set scores. s' \<le> s)"
proof -
  let ?h = "hd (sort_key (\<lambda>b. - fst b) scores)"
  have "?h \<in> set scores" "\<forall>x\<in>set scores. fst x \<le> fst ?h"
    using hd_sort_key [OF assms, of "\<lambda>b. - fst b"] by auto
  then show ?thesis
    unfolding best_node_def by (intro exI [of _ "fst ?h"]) (auto simp: prod.collapse)
qed

lemma length_add_weighted: "length (add_weighted w cur sc) = min (length sc) (length cur)"
  by (simp add: add_weighted_def)

section \<open>Pre-score\<close>

text \<open>What a pre-score plugin promises: it writes its own key only, and never fails.\<close>

locale prescore_contract =
  key_writer key pre
  for key :: string
    and pre :: "cycle_state \<Rightarrow> pod_info \<Rightarrow> node_info list \<Rightarrow> cycle_state \<times> status" +
  fixes val :: "cycle_state \<Rightarrow> pod_info \<Rightarrow> node_info list \<Rightarrow> cycle_value option"
  assumes pre_codes: "pre st pod nodes = (st', s) \<Longrightarrow> st_code s \<in> {Success, Skip}"
    and pre_value:
      "pre st pod nodes = (st', s) \<Longrightarrow>
         hm_get (storage st') key =
           (case val st pod nodes of Some v \<Rightarrow> Some v | None \<Rightarrow> hm_get (storage st) key)"
begin

lemma read_own:
  assumes "pre st pod nodes = (st', s)" "val st pod nodes = Some v"
  shows "cs_read d st' key = d v"
  using pre_value [OF assms(1)] assms(2) by (simp add: cs_read_def)

end

lemma cs_write_own: "hm_get (storage (cs_write key v st)) key = Some v"
  by (simp add: cs_write_def)

interpretation na_prescore: prescore_contract "''PreScoreNodeAffinity''" na_pre_score
  "\<lambda>st pod nodes. if pst_terms (get_pod_preferred_node_affinity pod) = [] then None
     else Some (CV_NodeAffinityPreScore (get_pod_preferred_node_affinity pod))"
  by unfold_locales
    (auto simp: na_pre_score_def Let_def cs_write_frame cs_write_own split: if_splits)

interpretation fit_prescore: prescore_contract "''PreScoreNodeResourcesFit''" fit_pre_score
  "\<lambda>st pod nodes. Some (CV_FitPreScore (ps_resources (pod_spec pod)))"
  by unfold_locales (auto simp: fit_pre_score_def cs_write_frame cs_write_own)

interpretation balanced_prescore:
  prescore_contract "''PreScoreNodeResourcesBalancedAllocation''" balanced_pre_score
  "\<lambda>st pod nodes. if is_best_effort_pod (ps_resources (pod_spec pod)) then None
     else Some (CV_BalancedPreScore (ps_resources (pod_spec pod)))"
  by unfold_locales
    (auto simp: balanced_pre_score_def Let_def cs_write_frame cs_write_own split: if_splits)

interpretation tt_prescore: prescore_contract "''PreScoreTaintToleration''" tt_pre_score
  "\<lambda>st pod nodes. Some (CV_Tolerations
     (filter (\<lambda>t. tol_effect t = Some PreferNoSchedule \<or> tol_effect t = None)
        (ps_tolerations (pod_spec pod))))"
  by unfold_locales (auto simp: tt_pre_score_def cs_write_frame cs_write_own)

interpretation gpu_prescore: prescore_contract "''PreScoreNodeGpuResourcesFit''" gpu_pre_score
  "\<lambda>st pod nodes. if ps_gpu_request (pod_spec pod) = 0 then None
     else Some (CV_GpuPreScore (ps_gpu_request (pod_spec pod)))"
  by unfold_locales
    (auto simp: gpu_pre_score_def cs_write_frame cs_write_own split: if_splits)

interpretation pa_prescore: prescore_contract "''PreScorePodAffinity''" pa_pre_score
  "\<lambda>st pod nodes. case cs_read as_pa_pre_filter st ''PreFilterPodAffinity'' of
       None \<Rightarrow> None
     | Some s \<Rightarrow>
         if pf_preferred_affinity_terms s = [] \<and> pf_preferred_anti_affinity_terms s = [] then None
         else Some (CV_PodAffinityPreScore
           \<lparr>sc_preferred_affinity_terms = pf_preferred_affinity_terms s,
            sc_preferred_anti_affinity_terms = pf_preferred_anti_affinity_terms s,
            sc_node_topology_map = build_node_topology_map nodes\<rparr>)"
  by unfold_locales
    (auto simp: pa_pre_score_def cs_write_frame cs_write_own split: if_splits option.splits)

lemma run_pre_score_frame:
  assumes "\<forall>(p, key)\<in>set ps. \<exists>v. prescore_contract key (pre_score (fst p)) v"
    and "run_pre_score_plugin (map fst ps) st pod nodes = (st', s)"
  shows "st_code s = Success"
    and "k \<notin> snd ` set ps \<Longrightarrow> hm_get (storage st') k = hm_get (storage st) k"
proof -
  have "st_code s = Success \<and> (k \<notin> snd ` set ps \<longrightarrow> hm_get (storage st') k = hm_get (storage st) k)"
    using assms
  proof (induction ps arbitrary: st)
    case Nil
    then show ?case by auto
  next
    case (Cons p ps)
    obtain pl w key where p: "p = ((pl, w), key)" by (metis prod.exhaust)
    obtain v where fc: "prescore_contract key (pre_score pl) v" using Cons.prems(1) p by auto
    obtain st1 s1 where pre: "pre_score pl st pod nodes = (st1, s1)" by (metis prod.exhaust)
    note facts = key_writer.pre_frame [OF prescore_contract.axioms(1) [OF fc] pre, of k] prescore_contract.pre_codes [OF fc pre]
    show ?case
      using Cons.IH Cons.prems facts
      by (auto simp: p pre split: if_splits)
  qed
  then show "st_code s = Success" "k \<notin> snd ` set ps \<Longrightarrow> hm_get (storage st') k = hm_get (storage st) k"
    by auto
qed

definition default_prescores :: "((pre_score_plugin \<times> int) \<times> string) list" where
  "default_prescores =
     [((na_pre_score_plugin, 2), ''PreScoreNodeAffinity''),
      ((fit_pre_score_plugin, 1), ''PreScoreNodeResourcesFit''),
      ((balanced_pre_score_plugin, 1), ''PreScoreNodeResourcesBalancedAllocation''),
      ((tt_pre_score_plugin, 3), ''PreScoreTaintToleration''),
      ((pa_pre_score_plugin, 2), ''PreScorePodAffinity''),
      ((gpu_pre_score_plugin, 1), ''PreScoreNodeGpuResourcesFit'')]"

lemma default_prescores_plugins:
  "map fst default_prescores = ep_pre_score (enable_plugins plugins_default gs)"
  by (simp add: default_prescores_def enabled_pre_score)

lemma default_prescores_keep:
  "\<forall>(p, key)\<in>set default_prescores. \<exists>v. prescore_contract key (pre_score (fst p)) v"
  using na_prescore.prescore_contract_axioms fit_prescore.prescore_contract_axioms
    balanced_prescore.prescore_contract_axioms tt_prescore.prescore_contract_axioms
    pa_prescore.prescore_contract_axioms gpu_prescore.prescore_contract_axioms
  unfolding default_prescores_def plugin_name_defs by auto

lemma pre_score_default_succeeds:
  "st_code (snd (run_pre_score_plugin (ep_pre_score (enable_plugins plugins_default gs)) st pod nodes))
     = Success"
  using run_pre_score_frame(1) [OF default_prescores_keep, unfolded default_prescores_plugins [of gs]]
  by (cases "run_pre_score_plugin (ep_pre_score (enable_plugins plugins_default gs)) st pod nodes") auto

end
