(* ===== verification/Sched_Scoring.thy ===== *)
theory Sched_Scoring
  imports Sched_Feasible
begin

text \<open>
  The cycle state after the pre-filter and pre-score stages, key by key: what the score functions
  read. The lemmas come from the contracts of the plugins alone: a key is written by the plugin that
  owns it and by no other, so the value found at scoring time is the one that plugin wrote.
\<close>

section \<open>The cycle state at scoring time\<close>

lemma run_pre_score_values:
  assumes "\<forall>(p, key, val)\<in>set ps. prescore_contract key (pre_score (fst p)) val"
    and "distinct (map (\<lambda>x. fst (snd x)) ps)"
    and "\<forall>(p, key, val)\<in>set ps. \<forall>s1 s2.
           (\<forall>k. k \<notin> (\<lambda>x. fst (snd x)) ` set ps \<union> X \<longrightarrow> hm_get (storage s1) k = hm_get (storage s2) k) \<longrightarrow>
           val s1 pod nodes = val s2 pod nodes"
    and "run_pre_score_plugin (map fst ps) st pod nodes = (st', s)"
    and "(p, key, val) \<in> set ps"
  shows "hm_get (storage st') key =
           (case val st pod nodes of Some v \<Rightarrow> Some v | None \<Rightarrow> hm_get (storage st) key)"
  using assms
proof (induction ps arbitrary: st X)
  case Nil
  then show ?case by simp
next
  case (Cons q ps)
  obtain pl w k0 v0 where q: "q = ((pl, w), k0, v0)" by (metis prod.exhaust)
  have fc: "prescore_contract k0 (pre_score pl) v0" using Cons.prems(1) q by auto
  obtain st1 s1 where pre: "pre_score pl st pod nodes = (st1, s1)" by (metis prod.exhaust)
  define st2 where "st2 = (if st_code s1 = Skip
    then st1\<lparr>skip_score_plugins := insert (psp_name pl) (skip_score_plugins st1)\<rparr> else st1)"
  have run: "run_pre_score_plugin (map fst ps) st2 pod nodes = (st', s)"
    using Cons.prems(4) prescore_contract.pre_codes [OF fc pre]
    by (auto simp: q pre st2_def split: if_splits)
  have fr: "hm_get (storage st2) k = hm_get (storage st) k" if "k \<noteq> k0" for k
    using key_writer.pre_frame [OF prescore_contract.axioms(1) [OF fc] pre that] by (simp add: st2_def)
  have rest: "\<forall>(p, key, val)\<in>set ps. prescore_contract key (pre_score (fst p)) val"
    using Cons.prems(1) by auto
  have k0: "k0 \<notin> (\<lambda>x. fst (snd x)) ` set ps" and dist: "distinct (map (\<lambda>x. fst (snd x)) ps)"
    using Cons.prems(2) by (simp_all add: q)
  show ?case
  proof (cases "(p, key, val) \<in> set ps")
    case True
    then have "key \<in> (\<lambda>x. fst (snd x)) ` set ps" by (intro image_eqI) simp_all
    then have "k0 \<noteq> key" using k0 by blast
    moreover have "hm_get (storage st') key =
        (case val st2 pod nodes of Some v \<Rightarrow> Some v | None \<Rightarrow> hm_get (storage st2) key)"
    proof (rule Cons.IH [OF rest dist _ run True, where X = "insert k0 X"])
      show "\<forall>(p, key, val)\<in>set ps. \<forall>s1 s2.
          (\<forall>k. k \<notin> (\<lambda>x. fst (snd x)) ` set ps \<union> insert k0 X \<longrightarrow>
             hm_get (storage s1) k = hm_get (storage s2) k) \<longrightarrow>
          val s1 pod nodes = val s2 pod nodes"
        using Cons.prems(3) by (simp add: q)
    qed
    moreover have "val st2 pod nodes = val st pod nodes"
    proof -
      have "\<forall>s1 s2. (\<forall>k. k \<notin> (\<lambda>x. fst (snd x)) ` set (q # ps) \<union> X \<longrightarrow>
          hm_get (storage s1) k = hm_get (storage s2) k) \<longrightarrow> val s1 pod nodes = val s2 pod nodes"
        using bspec [OF Cons.prems(3) Cons.prems(5)] unfolding prod.case .
      moreover have "\<forall>k. k \<notin> (\<lambda>x. fst (snd x)) ` set (q # ps) \<union> X \<longrightarrow>
          hm_get (storage st2) k = hm_get (storage st) k"
        using fr by (simp add: q)
      ultimately show ?thesis by blast
    qed
    ultimately show ?thesis using fr [of key] by (cases "val st pod nodes") simp_all
  next
    case False
    then have eq: "key = k0" "val = v0" using Cons.prems(5) by (simp_all add: q)
    let ?qs = "map (\<lambda>x. (fst x, fst (snd x))) ps"
    have fresh: "k0 \<notin> snd ` set ?qs" using k0 by (simp add: image_image)
    have keep: "\<forall>(p, key)\<in>set ?qs. \<exists>v. prescore_contract key (pre_score (fst p)) v"
      using rest by (fastforce split: prod.splits)
    have run': "run_pre_score_plugin (map fst ?qs) st2 pod nodes = (st', s)"
      using run by (simp add: comp_def)
    have "hm_get (storage st') k0 = hm_get (storage st2) k0"
      by (rule run_pre_score_frame(2) [OF keep run' fresh])
    then show ?thesis
      unfolding eq using prescore_contract.pre_value [OF fc pre]
      by (cases "v0 st pod nodes") (simp_all add: st2_def)
  qed
qed

lemma prefilter_loop_append:
  "run_prefilter_loop (xs @ ys) st pod nodes fs =
     (case run_prefilter_loop xs st pod nodes fs of
        (st1, Inl s) \<Rightarrow> (st1, Inl s)
      | (st1, Inr fs1) \<Rightarrow> run_prefilter_loop ys st1 pod nodes fs1)"
  by (induction xs st pod nodes fs rule: run_prefilter_loop.induct)
    (auto simp: Let_def split: prod.splits)

text \<open>The pod-affinity pre-filter writes exactly when the pod has terms.\<close>

definition pa_state :: "pod_info list \<Rightarrow> pod_info \<Rightarrow> node_info list \<Rightarrow> pod_affinity_pre_filter_state option" where
  "pa_state pods pod nodes =
     (let (ra, raa, pa, paa) = extract_pod_affinity_terms pod
      in if ra = [] \<and> raa = [] \<and> pa = [] \<and> paa = [] then None
         else Some
           \<lparr>pf_required_affinity_terms = ra, pf_required_anti_affinity_terms = raa,
            pf_preferred_affinity_terms = pa, pf_preferred_anti_affinity_terms = paa,
            pf_node_topology_map = build_node_topology_map nodes,
            pf_topology_pods_map =
              build_topology_pods_map (build_node_topology_map nodes) (topology_keys_of ra raa pa paa) pods\<rparr>)"

lemma pa_pre_filter_state:
  assumes "pa_pre_filter st pod nodes = (st', r, s)" "st_code s \<in> {Success, Skip}"
    and "cs_read as_pods st ''AllScheduledPods'' = Some pods"
    and "hm_get (storage st) ''PreFilterPodAffinity'' = None"
  shows "cs_read as_pa_pre_filter st' ''PreFilterPodAffinity'' = pa_state pods pod nodes"
proof -
  obtain ra raa pa paa where t: "extract_pod_affinity_terms pod = (ra, raa, pa, paa)"
    by (metis prod_cases4)
  show ?thesis
    using assms
    by (auto simp: pa_pre_filter_def pa_state_def t Let_def as_pa_pre_filter_def cs_read_def cs_write_def
        split: option.splits if_splits)
qed

lemma cycle_start_get:
  "k \<noteq> ''AllScheduledPods'' \<Longrightarrow> k \<noteq> ''ScoringStrategyConfig'' \<Longrightarrow>
     hm_get (storage (cycle_start strategy pods)) k = None"
  by (simp add: cycle_start_def cs_write_def cycle_state_default_def)

lemma prefilter_loop_split:
  assumes "\<forall>c\<in>set (xs @ ((pl, w), key, flt, ok) # ys). keeps_contract c"
    and "run_prefilter_loop (map fst (xs @ ((pl, w), key, flt, ok) # ys)) st pod nodes fs = (st', Inr fs')"
  obtains sa sb r s where "pre_filter pl sa pod nodes = (sb, r, s)" "st_code s \<in> {Success, Skip}"
    and "\<And>k. k \<notin> c_key ` set xs \<Longrightarrow> hm_get (storage sa) k = hm_get (storage st) k"
    and "\<And>k. k \<notin> c_key ` set ys \<Longrightarrow> hm_get (storage st') k = hm_get (storage sb) k"
proof -
  have kx: "\<forall>c\<in>set xs. keeps_contract c" and ky: "\<forall>c\<in>set ys. keeps_contract c"
    and fc: "filter_contract key (pre_filter pl) flt ok"
    using assms(1) by (auto simp: keeps_contract_def)
  obtain sa fa where a: "run_prefilter_loop (map fst xs) st pod nodes fs = (sa, Inr fa)"
    and b: "run_prefilter_loop ((pl, w) # map fst ys) sa pod nodes fa = (st', Inr fs')"
    using assms(2) unfolding map_append list.map prefilter_loop_append fst_conv
    by (cases "run_prefilter_loop (map fst xs) st pod nodes fs"; cases "snd (run_prefilter_loop (map fst xs) st pod nodes fs)")
      auto
  obtain sb r s where pre: "pre_filter pl sa pod nodes = (sb, r, s)" by (metis prod.exhaust)
  define sc where "sc = (if st_code s = Skip
    then sb\<lparr>skip_filter_plugins := insert (pfp_name pl) (skip_filter_plugins sb)\<rparr> else sb)"
  have s: "st_code s \<in> {Success, Skip}"
    and run: "run_prefilter_loop (map fst ys) sc pod nodes fa = (st', Inr fs')"
    using b pre filter_contract.pre_codes [OF fc pre] filter_contract.pre_names [OF fc pre]
    by (auto simp: Let_def sc_def split: if_splits)
  have "hm_get (storage st') k = hm_get (storage sb) k" if "k \<notin> c_key ` set ys" for k
    using prefilter_loop_frame(2) [OF ky run that] by (simp add: sc_def)
  with pre s prefilter_loop_frame(2) [OF kx a] show ?thesis by (rule that)
qed

lemma pa_state_after_prefilters:
  assumes "run_prefilter_loop (ep_pre_filter (enable_plugins plugins_default gs))
             (cycle_start strategy pods) pod nodes {} = (st', Inr fs')"
  shows "cs_read as_pa_pre_filter st' ''PreFilterPodAffinity'' = pa_state pods pod nodes"
proof -
  let ?xs = "take 2 (default_contracts gs)" and ?ys = "drop 3 (default_contracts gs)"
  have split: "default_contracts gs =
      ?xs @ ((pa_pre_filter_plugin, 2), ''PreFilterPodAffinity'', pa_filter, pa_ok) # ?ys"
    by (simp add: default_contracts_def)
  have keys: "c_key ` set ?xs = {''PreFilterNodeAffinity'', ''PreFilterNodeResourcesFit''}"
    "c_key ` set ?ys = {''PreFilterNodeGpuResourcesFit'', ''PreFilterTopologyCoAffinity''}"
    by (simp_all add: default_contracts_def c_key_def)
  have keep: "\<forall>c\<in>set (?xs @ ((pa_pre_filter_plugin, 2), ''PreFilterPodAffinity'', pa_filter, pa_ok) # ?ys).
      keeps_contract c"
    unfolding split [symmetric] by (blast intro: default_contracts_keep)
  have run: "run_prefilter_loop (map fst (?xs @ ((pa_pre_filter_plugin, 2), ''PreFilterPodAffinity'',
      pa_filter, pa_ok) # ?ys)) (cycle_start strategy pods) pod nodes {} = (st', Inr fs')"
    unfolding split [symmetric] default_contracts_plugins by (rule assms)
  obtain sa sb r s where pre: "pre_filter pa_pre_filter_plugin sa pod nodes = (sb, r, s)"
    and s: "st_code s \<in> {Success, Skip}"
    and sa: "\<And>k. k \<notin> c_key ` set ?xs \<Longrightarrow>
      hm_get (storage sa) k = hm_get (storage (cycle_start strategy pods)) k"
    and sb: "\<And>k. k \<notin> c_key ` set ?ys \<Longrightarrow> hm_get (storage st') k = hm_get (storage sb) k"
    by (rule prefilter_loop_split [OF keep run], rule that)
  have pre': "pa_pre_filter sa pod nodes = (sb, r, s)"
    using pre by (simp add: pa_pre_filter_plugin_def)
  have "cs_read as_pods sa ''AllScheduledPods'' = Some pods"
    using cs_read_local [OF sa [of "''AllScheduledPods''"], of as_pods] unfolding keys by simp
  moreover have "hm_get (storage sa) ''PreFilterPodAffinity'' = None"
    using sa [of "''PreFilterPodAffinity''"] unfolding keys by (simp add: cycle_start_get)
  ultimately have "cs_read as_pa_pre_filter sb ''PreFilterPodAffinity'' = pa_state pods pod nodes"
    using pa_pre_filter_state [OF pre' s] by blast
  then show ?thesis
    using cs_read_local [OF sb [of "''PreFilterPodAffinity''"], of as_pa_pre_filter] unfolding keys by simp
qed

section \<open>What each pre-score plugin leaves behind\<close>

definition pa_prescore_val :: "cycle_state \<Rightarrow> pod_info \<Rightarrow> node_info list \<Rightarrow> cycle_value option" where
  "pa_prescore_val st pod nodes =
     (case cs_read as_pa_pre_filter st ''PreFilterPodAffinity'' of
        None \<Rightarrow> None
      | Some s \<Rightarrow>
          if pf_preferred_affinity_terms s = [] \<and> pf_preferred_anti_affinity_terms s = [] then None
          else Some (CV_PodAffinityPreScore
            \<lparr>sc_preferred_affinity_terms = pf_preferred_affinity_terms s,
             sc_preferred_anti_affinity_terms = pf_preferred_anti_affinity_terms s,
             sc_node_topology_map = build_node_topology_map nodes\<rparr>))"

definition soft_tolerations :: "pod_info \<Rightarrow> toleration list" where
  "soft_tolerations pod =
     filter (\<lambda>t. tol_effect t = Some PreferNoSchedule \<or> tol_effect t = None) (ps_tolerations (pod_spec pod))"

definition default_prescore_vals ::
    "((pre_score_plugin \<times> int) \<times> string \<times>
        (cycle_state \<Rightarrow> pod_info \<Rightarrow> node_info list \<Rightarrow> cycle_value option)) list" where
  "default_prescore_vals =
     [((na_pre_score_plugin, 2), ''PreScoreNodeAffinity'',
       \<lambda>st pod nodes. if pst_terms (get_pod_preferred_node_affinity pod) = [] then None
         else Some (CV_NodeAffinityPreScore (get_pod_preferred_node_affinity pod))),
      ((fit_pre_score_plugin, 1), ''PreScoreNodeResourcesFit'',
       \<lambda>st pod nodes. Some (CV_FitPreScore (ps_resources (pod_spec pod)))),
      ((balanced_pre_score_plugin, 1), ''PreScoreNodeResourcesBalancedAllocation'',
       \<lambda>st pod nodes. if is_best_effort_pod (ps_resources (pod_spec pod)) then None
         else Some (CV_BalancedPreScore (ps_resources (pod_spec pod)))),
      ((tt_pre_score_plugin, 3), ''PreScoreTaintToleration'',
       \<lambda>st pod nodes. Some (CV_Tolerations (soft_tolerations pod))),
      ((pa_pre_score_plugin, 2), ''PreScorePodAffinity'', pa_prescore_val),
      ((gpu_pre_score_plugin, 1), ''PreScoreNodeGpuResourcesFit'',
       \<lambda>st pod nodes. if ps_gpu_request (pod_spec pod) = 0 then None
         else Some (CV_GpuPreScore (ps_gpu_request (pod_spec pod))))]"

lemma default_prescore_vals_keep:
  "\<forall>(p, key, val)\<in>set default_prescore_vals. prescore_contract key (pre_score (fst p)) val"
proof -
  have "prescore_contract ''PreScorePodAffinity'' pa_pre_score pa_prescore_val"
    using pa_prescore.prescore_contract_axioms unfolding pa_prescore_val_def .
  moreover have "prescore_contract ''PreScoreTaintToleration'' tt_pre_score
      (\<lambda>st pod nodes. Some (CV_Tolerations (soft_tolerations pod)))"
    using tt_prescore.prescore_contract_axioms unfolding soft_tolerations_def .
  ultimately show ?thesis
    using na_prescore.prescore_contract_axioms fit_prescore.prescore_contract_axioms
      balanced_prescore.prescore_contract_axioms gpu_prescore.prescore_contract_axioms
    unfolding default_prescore_vals_def plugin_name_defs by simp
qed

lemma default_prescore_keys:
  "map (\<lambda>x. fst (snd x)) default_prescore_vals =
     [''PreScoreNodeAffinity'', ''PreScoreNodeResourcesFit'', ''PreScoreNodeResourcesBalancedAllocation'',
      ''PreScoreTaintToleration'', ''PreScorePodAffinity'', ''PreScoreNodeGpuResourcesFit'']"
  by (simp add: default_prescore_vals_def)

lemma default_prescore_vals_plugins:
  "map fst default_prescore_vals = ep_pre_score (enable_plugins plugins_default gs)"
  by (simp add: default_prescore_vals_def enabled_pre_score)

lemma default_prescore_vals_local:
  "\<forall>(p, key, val)\<in>set default_prescore_vals. \<forall>s1 s2.
     (\<forall>k. k \<notin> (\<lambda>x. fst (snd x)) ` set default_prescore_vals \<union> {} \<longrightarrow>
        hm_get (storage s1) k = hm_get (storage s2) k) \<longrightarrow>
     val s1 pod nodes = val s2 pod nodes"
proof -
  have pf: "''PreFilterPodAffinity'' \<notin> (\<lambda>x. fst (snd x)) ` set default_prescore_vals \<union> {}"
    unfolding list.set_map [symmetric] default_prescore_keys by simp
  have vals: "\<forall>x\<in>set default_prescore_vals. snd (snd x) s1 pod nodes = snd (snd x) s2 pod nodes"
    if eq: "hm_get (storage s1) ''PreFilterPodAffinity'' = hm_get (storage s2) ''PreFilterPodAffinity''"
    for s1 s2
  proof -
    have "pa_prescore_val s1 pod nodes = pa_prescore_val s2 pod nodes"
      using cs_read_local [OF eq, of as_pa_pre_filter] by (simp add: pa_prescore_val_def)
    then show ?thesis by (simp add: default_prescore_vals_def)
  qed
  show ?thesis
  proof (intro ballI, clarify)
    fix a b key val and s1 s2 :: cycle_state
    assume mem: "((a, b), key, val) \<in> set default_prescore_vals"
      and agree: "\<forall>k. k \<notin> (\<lambda>x. fst (snd x)) ` set default_prescore_vals \<union> {} \<longrightarrow>
        hm_get (storage s1) k = hm_get (storage s2) k"
    have "hm_get (storage s1) ''PreFilterPodAffinity'' = hm_get (storage s2) ''PreFilterPodAffinity''"
      using agree pf by blast
    from bspec [OF vals [OF this] mem] show "val s1 pod nodes = val s2 pod nodes" by simp
  qed
qed

definition run_prescore_default :: "gang_store \<Rightarrow> cycle_state \<Rightarrow> pod_info \<Rightarrow> node_info list \<Rightarrow> cycle_state" where
  "run_prescore_default gs st pod nodes =
     fst (run_pre_score_plugin (ep_pre_score (enable_plugins plugins_default gs)) st pod nodes)"

lemma prescore_default_value:
  assumes "(p, key, val) \<in> set default_prescore_vals"
  shows "hm_get (storage (run_prescore_default gs st pod nodes)) key =
           (case val st pod nodes of Some v \<Rightarrow> Some v | None \<Rightarrow> hm_get (storage st) key)"
proof -
  have dist: "distinct (map (\<lambda>x. fst (snd x)) default_prescore_vals)"
    unfolding default_prescore_keys by simp
  obtain st' s where run: "run_pre_score_plugin (map fst default_prescore_vals) st pod nodes = (st', s)"
    by (metis prod.exhaust)
  then have st': "run_prescore_default gs st pod nodes = st'"
    by (simp add: run_prescore_default_def flip: default_prescore_vals_plugins)
  show ?thesis unfolding st'
    by (rule run_pre_score_values
        [OF default_prescore_vals_keep dist default_prescore_vals_local run assms])
qed

lemma prescore_default_other:
  assumes "key \<notin> set (map (\<lambda>x. fst (snd x)) default_prescore_vals)"
  shows "hm_get (storage (run_prescore_default gs st pod nodes)) key = hm_get (storage st) key"
proof -
  have fresh: "key \<notin> snd ` set default_prescores"
    using assms unfolding default_prescore_keys default_prescores_def by simp
  obtain st' s where run: "run_pre_score_plugin (map fst default_prescores) st pod nodes = (st', s)"
    by (metis prod.exhaust)
  then have st': "run_prescore_default gs st pod nodes = st'"
    by (simp add: run_prescore_default_def flip: default_prescores_plugins)
  show ?thesis unfolding st'
    by (rule run_pre_score_frame(2) [OF default_prescores_keep run fresh])
qed

end
