(* ===== verification/Sched_Choice.thy ===== *)
theory Sched_Choice
  imports Sched_Scoring
begin

text \<open>
  The score of a node and the choice of the best. With the cycle state known, the raw score of each
  plugin is a function of the pod, the candidate nodes and the placed pods (\<open>score_terms\<close>); the
  accumulation in \<open>run_score_plugin\<close> is the exact weighted sum of the normalised scores, each in
  \<open>0..100\<close>, with no wrap-around; and the outcome of the cycle is a feasible node of greatest
  total. These are equivalences of the staged code with definitions that have no stages.
\<close>

section \<open>Raw scores without the cycle state\<close>

definition fit_raw :: "scoring_strategy \<Rightarrow> pod_info \<Rightarrow> node_info \<Rightarrow> int" where
  "fit_raw strategy pod n =
     (case strategy of
        LeastAllocated \<Rightarrow> calculate_least_allocated_score (ps_resources (pod_spec pod)) n
      | _ \<Rightarrow> calculate_most_allocated_score (ps_resources (pod_spec pod)) n)"

definition balanced_raw :: "pod_info \<Rightarrow> node_info \<Rightarrow> int" where
  "balanced_raw pod n =
     (if is_best_effort_pod (ps_resources (pod_spec pod)) then 0
      else sint (balanced_resource_scorer
        [res_cpu (requested n) + res_cpu (ps_resources (pod_spec pod)),
         res_memory (requested n) + res_memory (ps_resources (pod_spec pod))]
        [res_cpu (allocatable n), res_memory (allocatable n)]))"

definition tt_raw :: "pod_info \<Rightarrow> node_info \<Rightarrow> int" where
  "tt_raw pod n =
     int (length (filter
       (\<lambda>t. taint_effect t = PreferNoSchedule \<and> tolerations_tolerate_taint (soft_tolerations pod) t)
       (taints (node_spec n))))"

definition pa_raw :: "pod_info list \<Rightarrow> node_info list \<Rightarrow> pod_info \<Rightarrow> node_info \<Rightarrow> int" where
  "pa_raw pods nodes pod n =
     (let (_, _, pa, paa) = extract_pod_affinity_terms pod;
          ntm = build_node_topology_map nodes
      in wrap_i64 (evaluate_preferred_pod_affinity_terms n pa pods ntm False
                   + evaluate_preferred_pod_affinity_terms n paa pods ntm True))"

definition gpu_raw :: "pod_info \<Rightarrow> node_info \<Rightarrow> int" where
  "gpu_raw pod n =
     (if ps_gpu_request (pod_spec pod) = 0 then 0
      else fst (gpu_score
        (cs_write ''PreScoreNodeGpuResourcesFit'' (CV_GpuPreScore (ps_gpu_request (pod_spec pod)))
           cycle_state_default) pod n))"

text \<open>Weight, raw score and the \<open>reverse\<close> flag of the normaliser, in the order of the plugins.\<close>

definition score_terms ::
    "scoring_strategy \<Rightarrow> pod_info list \<Rightarrow> node_info list \<Rightarrow> pod_info
       \<Rightarrow> (int \<times> (node_info \<Rightarrow> int) \<times> bool) list" where
  "score_terms strategy pods nodes pod =
     [(2, pst_score (get_pod_preferred_node_affinity pod), False),
      (1, fit_raw strategy pod, False),
      (1, balanced_raw pod, False),
      (3, tt_raw pod, True),
      (2, pa_raw pods nodes pod, False),
      (1, gpu_raw pod, False)]"

section \<open>The score functions read what was written\<close>

definition scoring_state :: "gang_store \<Rightarrow> scoring_strategy \<Rightarrow> pod_info list \<Rightarrow> pod_info \<Rightarrow> node_info list
    \<Rightarrow> node_info list \<Rightarrow> cycle_state \<Rightarrow> bool" where
  "scoring_state gs strategy pods pod nodes cand st \<longleftrightarrow>
     (\<exists>st1 fs. run_prefilter_loop (ep_pre_filter (enable_plugins plugins_default gs))
         (cycle_start strategy pods) pod nodes {} = (st1, Inr fs) \<and>
       st = run_prescore_default gs st1 pod cand)"

lemma prefilter_other_keys:
  assumes "run_prefilter_loop (ep_pre_filter (enable_plugins plugins_default gs))
             (cycle_start strategy pods) pod nodes {} = (st1, Inr fs)"
    and "k \<notin> {''PreFilterNodeAffinity'', ''PreFilterNodeResourcesFit'', ''PreFilterPodAffinity'',
              ''PreFilterNodeGpuResourcesFit'', ''PreFilterTopologyCoAffinity''}"
  shows "hm_get (storage st1) k = hm_get (storage (cycle_start strategy pods)) k"
proof -
  have "c_key ` set (default_contracts gs) =
      {''PreFilterNodeAffinity'', ''PreFilterNodeResourcesFit'', ''PreFilterPodAffinity'',
       ''PreFilterNodeGpuResourcesFit'', ''PreFilterTopologyCoAffinity''}"
    by (simp add: default_contracts_def c_key_def)
  moreover have "\<forall>c\<in>set (default_contracts gs). keeps_contract c"
    using default_contracts_keep by blast
  ultimately show ?thesis
    using prefilter_loop_frame(2) assms unfolding default_contracts_plugins [symmetric] by metis
qed

lemma scoring_state_reads:
  assumes "scoring_state gs strategy pods pod nodes cand st"
  shows "hm_get (storage st) ''ScoringStrategyConfig'' = Some (CV_ScoringStrategy strategy)"
    and "hm_get (storage st) ''AllScheduledPods'' = Some (CV_Pods pods)"
    and "hm_get (storage st) ''PreScoreNodeAffinity'' =
      (if pst_terms (get_pod_preferred_node_affinity pod) = [] then None
       else Some (CV_NodeAffinityPreScore (get_pod_preferred_node_affinity pod)))"
    and "hm_get (storage st) ''PreScoreNodeResourcesFit'' = Some (CV_FitPreScore (ps_resources (pod_spec pod)))"
    and "hm_get (storage st) ''PreScoreNodeResourcesBalancedAllocation'' =
      (if is_best_effort_pod (ps_resources (pod_spec pod)) then None
       else Some (CV_BalancedPreScore (ps_resources (pod_spec pod))))"
    and "hm_get (storage st) ''PreScoreTaintToleration'' = Some (CV_Tolerations (soft_tolerations pod))"
    and "hm_get (storage st) ''PreScoreNodeGpuResourcesFit'' =
      (if ps_gpu_request (pod_spec pod) = 0 then None
       else Some (CV_GpuPreScore (ps_gpu_request (pod_spec pod))))"
    and "\<exists>st1. cs_read as_pa_pre_filter st1 ''PreFilterPodAffinity'' = pa_state pods pod nodes \<and>
      hm_get (storage st) ''PreScorePodAffinity'' = pa_prescore_val st1 pod cand"
proof -
  obtain st1 fs where run: "run_prefilter_loop (ep_pre_filter (enable_plugins plugins_default gs))
         (cycle_start strategy pods) pod nodes {} = (st1, Inr fs)"
    and st: "st = run_prescore_default gs st1 pod cand"
    using assms by (auto simp: scoring_state_def)
  note other = prefilter_other_keys [OF run]
  note own = prescore_default_value [of _ _ _ gs st1 pod cand, folded st]
  have start: "hm_get (storage (cycle_start strategy pods)) ''ScoringStrategyConfig'' =
      Some (CV_ScoringStrategy strategy)"
    "hm_get (storage (cycle_start strategy pods)) ''AllScheduledPods'' = Some (CV_Pods pods)"
    by (simp_all add: cycle_start_def cs_write_def cycle_state_default_def)
  have fresh: "hm_get (storage st1) k = None"
    if "k \<in> set (map (\<lambda>x. fst (snd x)) default_prescore_vals)" for k
  proof -
    have "hm_get (storage st1) k = hm_get (storage (cycle_start strategy pods)) k"
      by (rule other) (use that in \<open>unfold default_prescore_keys, auto\<close>)
    also have "\<dots> = None"
      by (rule cycle_start_get) (use that in \<open>unfold default_prescore_keys, auto\<close>)
    finally show ?thesis .
  qed
  have own': "hm_get (storage st) key = val st1 pod cand"
    if "(p, key, val) \<in> set default_prescore_vals" for p key val
  proof -
    have "key \<in> set (map (\<lambda>x. fst (snd x)) default_prescore_vals)"
      using that by (auto intro!: image_eqI [where x = "(p, key, val)"])
    from own [OF that] fresh [OF this] show ?thesis by (cases "val st1 pod cand") simp_all
  qed
  show "hm_get (storage st) ''ScoringStrategyConfig'' = Some (CV_ScoringStrategy strategy)"
    using prescore_default_other [of "''ScoringStrategyConfig''" gs st1 pod cand] other start(1)
    unfolding st default_prescore_keys by simp
  show "hm_get (storage st) ''AllScheduledPods'' = Some (CV_Pods pods)"
    using prescore_default_other [of "''AllScheduledPods''" gs st1 pod cand] other start(2)
    unfolding st default_prescore_keys by simp
  show "hm_get (storage st) ''PreScoreNodeAffinity'' =
      (if pst_terms (get_pod_preferred_node_affinity pod) = [] then None
       else Some (CV_NodeAffinityPreScore (get_pod_preferred_node_affinity pod)))"
    "hm_get (storage st) ''PreScoreNodeResourcesFit'' = Some (CV_FitPreScore (ps_resources (pod_spec pod)))"
    "hm_get (storage st) ''PreScoreNodeResourcesBalancedAllocation'' =
      (if is_best_effort_pod (ps_resources (pod_spec pod)) then None
       else Some (CV_BalancedPreScore (ps_resources (pod_spec pod))))"
    "hm_get (storage st) ''PreScoreTaintToleration'' = Some (CV_Tolerations (soft_tolerations pod))"
    "hm_get (storage st) ''PreScoreNodeGpuResourcesFit'' =
      (if ps_gpu_request (pod_spec pod) = 0 then None
       else Some (CV_GpuPreScore (ps_gpu_request (pod_spec pod))))"
    by (rule own'; simp add: default_prescore_vals_def)+
  have "hm_get (storage st) ''PreScorePodAffinity'' = pa_prescore_val st1 pod cand"
    by (rule own') (simp add: default_prescore_vals_def)
  with pa_state_after_prefilters [OF run]
  show "\<exists>st1. cs_read as_pa_pre_filter st1 ''PreFilterPodAffinity'' = pa_state pods pod nodes \<and>
      hm_get (storage st) ''PreScorePodAffinity'' = pa_prescore_val st1 pod cand"
    by blast
qed

lemma na_score_raw:
  assumes "scoring_state gs strategy pods pod nodes cand st"
  shows "fst (na_score st pod n) = pst_score (get_pod_preferred_node_affinity pod) n"
  using scoring_state_reads(3) [OF assms]
  by (auto simp: na_score_def cs_read_def as_na_pre_score_def pst_score_def split: if_splits)

lemma fit_score_raw:
  assumes "scoring_state gs strategy pods pod nodes cand st"
  shows "fst (fit_score st pod n) = fit_raw strategy pod n"
  using scoring_state_reads(1,4) [OF assms]
  by (cases strategy)
    (simp_all add: fit_score_def fit_raw_def cs_read_def as_strategy_def as_fit_pre_score_def)

lemma balanced_score_raw:
  assumes "scoring_state gs strategy pods pod nodes cand st"
  shows "fst (balanced_score st pod n) = balanced_raw pod n"
  using scoring_state_reads(5) [OF assms]
  by (auto simp: balanced_score_def balanced_raw_def cs_read_def as_balanced_pre_score_def Let_def
      resource_list_def balanced_resources_def split: if_splits)

lemma tt_score_raw:
  assumes "scoring_state gs strategy pods pod nodes cand st"
  shows "fst (tt_score st pod n) = tt_raw pod n"
  using scoring_state_reads(6) [OF assms]
  by (simp add: tt_score_def tt_raw_def cs_read_def as_tolerations_def)

lemma gpu_score_raw:
  assumes "scoring_state gs strategy pods pod nodes cand st"
  shows "fst (gpu_score st pod n) = gpu_raw pod n"
proof (cases "ps_gpu_request (pod_spec pod) = 0")
  case True
  then show ?thesis
    using scoring_state_reads(7) [OF assms] by (simp add: gpu_score_def gpu_raw_def cs_read_def)
next
  case False
  then have "cs_read as_gpu_pre_score st ''PreScoreNodeGpuResourcesFit'' =
      cs_read as_gpu_pre_score (cs_write ''PreScoreNodeGpuResourcesFit''
        (CV_GpuPreScore (ps_gpu_request (pod_spec pod))) cycle_state_default) ''PreScoreNodeGpuResourcesFit''"
    using scoring_state_reads(7) [OF assms] by (simp add: cs_read_def cs_write_def)
  with False show ?thesis by (simp add: gpu_score_def gpu_raw_def)
qed

lemma evaluate_preferred_Nil [simp]: "evaluate_preferred_pod_affinity_terms n [] pods ntm anti = 0"
  by (simp add: evaluate_preferred_pod_affinity_terms_def)

lemma wrap_i64_0 [simp]: "wrap_i64 0 = 0"
  by (simp add: wrap_i64_def)

lemma pa_score_raw:
  assumes "scoring_state gs strategy pods pod nodes cand st"
  shows "fst (pa_score st pod n) = pa_raw pods cand pod n"
proof -
  obtain ra raa pa paa where t: "extract_pod_affinity_terms pod = (ra, raa, pa, paa)"
    by (metis prod_cases4)
  obtain st1 where pf: "cs_read as_pa_pre_filter st1 ''PreFilterPodAffinity'' = pa_state pods pod nodes"
    and get: "hm_get (storage st) ''PreScorePodAffinity'' = pa_prescore_val st1 pod cand"
    using scoring_state_reads(8) [OF assms] by blast
  have pods: "cs_read as_pods st ''AllScheduledPods'' = Some pods"
    using scoring_state_reads(2) [OF assms] by (simp add: cs_read_def as_pods_def)
  show ?thesis
  proof (cases "pa = [] \<and> paa = []")
    case True
    then have "pa_prescore_val st1 pod cand = None"
      by (auto simp: pa_prescore_val_def pf pa_state_def t)
    with True show ?thesis
      using get by (simp add: pa_score_def cs_read_def pa_raw_def t)
  next
    case False
    then have "pa_prescore_val st1 pod cand = Some (CV_PodAffinityPreScore
        \<lparr>sc_preferred_affinity_terms = pa, sc_preferred_anti_affinity_terms = paa,
         sc_node_topology_map = build_node_topology_map cand\<rparr>)"
      by (auto simp: pa_prescore_val_def pf pa_state_def t)
    then have "cs_read as_pa_pre_score st ''PreScorePodAffinity'' =
        Some \<lparr>sc_preferred_affinity_terms = pa, sc_preferred_anti_affinity_terms = paa,
         sc_node_topology_map = build_node_topology_map cand\<rparr>"
      using get by (simp add: cs_read_def as_pa_pre_score_def)
    then show ?thesis
      using pods by (simp add: pa_score_def pa_raw_def t Let_def)
  qed
qed

section \<open>The weighted sum\<close>

definition normalized :: "node_info list \<Rightarrow> int \<times> (node_info \<Rightarrow> int) \<times> bool \<Rightarrow> int list" where
  "normalized cand t = (case t of (w, raw, rv) \<Rightarrow> default_normalize_score 100 rv (map raw cand))"

text \<open>The total of the \<open>i\<close>-th candidate.\<close>

definition total_score ::
    "scoring_strategy \<Rightarrow> pod_info list \<Rightarrow> node_info list \<Rightarrow> pod_info \<Rightarrow> nat \<Rightarrow> int" where
  "total_score strategy pods cand pod i =
     sum_list (map (\<lambda>t. fst t * normalized cand t ! i) (score_terms strategy pods cand pod))"

lemma run_score_terms:
  assumes "scoring_state gs strategy pods pod nodes cand st"
  shows "run_score_plugin (ep_score (enable_plugins plugins_default gs)) st pod cand =
           zip (fold (\<lambda>t sc. add_weighted (fst t) (normalized cand t) sc)
                  (score_terms strategy pods cand pod) (replicate (length cand) 0)) cand"
  unfolding run_score_plugin_def enabled_score score_terms_def plugin_name_defs normalized_def
  by (simp add: na_score_raw [OF assms] fit_score_raw [OF assms] balanced_score_raw [OF assms]
      tt_score_raw [OF assms] pa_score_raw [OF assms] gpu_score_raw [OF assms])

lemma add_weighted_nth:
  assumes "i < length sc" "length cur = length sc" "0 \<le> w" "0 \<le> cur ! i" "cur ! i \<le> 100" "0 \<le> sc ! i"
    and "sc ! i + 100 * w < 2 ^ 63"
  shows "add_weighted w cur sc ! i = sc ! i + w * cur ! i"
proof -
  have m: "0 \<le> cur ! i * w" "cur ! i * w \<le> 100 * w"
    using assms(3-5) by (simp_all add: mult_right_mono)
  then have "in_i64 (cur ! i * w)" "in_i64 (sc ! i + cur ! i * w)"
    using assms(6,7) by (simp_all add: in_i64_def)
  then show ?thesis
    using assms(1,2) by (simp add: add_weighted_def mult.commute)
qed

lemma fold_add_weighted:
  assumes "\<forall>t\<in>set ts. 0 \<le> fst t \<and> length (normalized cand t) = length sc \<and>
             0 \<le> normalized cand t ! i \<and> normalized cand t ! i \<le> 100"
    and "i < length sc" "0 \<le> sc ! i" "sc ! i + 100 * sum_list (map fst ts) < 2 ^ 63"
  shows "fold (\<lambda>t sc. add_weighted (fst t) (normalized cand t) sc) ts sc ! i =
           sc ! i + sum_list (map (\<lambda>t. fst t * normalized cand t ! i) ts)"
    and "length (fold (\<lambda>t sc. add_weighted (fst t) (normalized cand t) sc) ts sc) = length sc"
proof -
  have "fold (\<lambda>t sc. add_weighted (fst t) (normalized cand t) sc) ts sc ! i =
           sc ! i + sum_list (map (\<lambda>t. fst t * normalized cand t ! i) ts) \<and>
      length (fold (\<lambda>t sc. add_weighted (fst t) (normalized cand t) sc) ts sc) = length sc"
    using assms
  proof (induction ts arbitrary: sc)
    case Nil
    then show ?case by simp
  next
    case (Cons t ts)
    let ?sc = "add_weighted (fst t) (normalized cand t) sc"
    have t: "0 \<le> fst t" "length (normalized cand t) = length sc" "0 \<le> normalized cand t ! i"
      "normalized cand t ! i \<le> 100"
      using Cons.prems(1) by auto
    have ws: "0 \<le> sum_list (map fst ts)" using Cons.prems(1) by (intro sum_list_nonneg) auto
    have nth: "?sc ! i = sc ! i + fst t * normalized cand t ! i"
      using Cons.prems(2-4) t ws by (intro add_weighted_nth) auto
    have len: "length ?sc = length sc" using t(2) by (simp add: length_add_weighted)
    have "fst t * normalized cand t ! i \<le> fst t * 100" "0 \<le> fst t * normalized cand t ! i"
      using t by (simp_all add: mult_left_mono)
    then have "0 \<le> ?sc ! i" "?sc ! i + 100 * sum_list (map fst ts) < 2 ^ 63"
      using Cons.prems(3,4) nth by simp_all
    then show ?case
      using Cons.IH [of ?sc] Cons.prems(1,2) len nth by simp
  qed
  then show "fold (\<lambda>t sc. add_weighted (fst t) (normalized cand t) sc) ts sc ! i =
           sc ! i + sum_list (map (\<lambda>t. fst t * normalized cand t ! i) ts)"
    "length (fold (\<lambda>t sc. add_weighted (fst t) (normalized cand t) sc) ts sc) = length sc"
    by auto
qed

section \<open>Ranges\<close>

text \<open>
  Inputs for which no score overflows: non-negative preference weights whose sum is below \<open>2^32\<close>,
  nodes with no more than \<open>2^32\<close> taints and not over-committed.
\<close>

definition sane_pod :: "pod_info \<Rightarrow> bool" where
  "sane_pod pod \<longleftrightarrow>
     sane_terms (get_pod_preferred_node_affinity pod) \<and>
     (let (_, _, pa, paa) = extract_pod_affinity_terms pod in sane_weights pa \<and> sane_weights paa)"

definition sane_node :: "node_info \<Rightarrow> bool" where
  "sane_node n \<longleftrightarrow> within_allocatable n \<and> length (taints (node_spec n)) \<le> 2 ^ 32"

lemma fit_raw_range:
  assumes "within_allocatable n" "is_fit (ps_resources (pod_spec pod)) n"
  shows "0 \<le> fit_raw strategy pod n \<and> fit_raw strategy pod n \<le> 100"
proof -
  have room: "room_for (ps_resources (pod_spec pod)) n" by (rule is_fit_room_for [OF assms])
  show ?thesis
    using least_allocated_scorer.raw_range [OF room] most_allocated_scorer.raw_range [OF room]
    by (cases strategy) (simp_all add: fit_raw_def)
qed

lemma balanced_raw_range: "0 \<le> balanced_raw pod n \<and> balanced_raw pod n \<le> 100"
proof (cases "is_best_effort_pod (ps_resources (pod_spec pod))")
  case True
  then show ?thesis by (simp add: balanced_raw_def)
next
  case False
  then have "balanced_raw pod n = fst (balanced_score
      (cs_write ''PreScoreNodeResourcesBalancedAllocation''
         (CV_BalancedPreScore (ps_resources (pod_spec pod))) cycle_state_default) pod n)"
    by (simp add: balanced_score_def balanced_raw_def as_balanced_pre_score_def Let_def
        resource_list_def balanced_resources_def)
  then show ?thesis using balanced_score_range by simp
qed

lemma gpu_raw_range: "0 \<le> gpu_raw pod n \<and> gpu_raw pod n \<le> 100"
  using gpu_score_range by (simp add: gpu_raw_def)

lemma tt_raw_range: "sane_node n \<Longrightarrow> 0 \<le> tt_raw pod n \<and> tt_raw pod n \<le> 2 ^ 32"
proof -
  assume "sane_node n"
  then have "length (taints (node_spec n)) \<le> 2 ^ 32" by (simp add: sane_node_def)
  then have "length (filter P (taints (node_spec n))) \<le> 2 ^ 32" for P
    using length_filter_le [of P "taints (node_spec n)"] by linarith
  then show ?thesis by (simp add: tt_raw_def nat_le_iff [symmetric] zero_le)
qed

lemma pa_raw_range:
  assumes "sane_pod pod"
  shows "0 \<le> pa_raw pods cand pod n \<and> pa_raw pods cand pod n \<le> 2 ^ 33"
proof -
  obtain ra raa pa paa where t: "extract_pod_affinity_terms pod = (ra, raa, pa, paa)"
    by (metis prod_cases4)
  then have s: "sane_weights pa" "sane_weights paa" using assms by (auto simp: sane_pod_def)
  let ?ntm = "build_node_topology_map cand"
  have "0 \<le> evaluate_preferred_pod_affinity_terms n pa pods ?ntm False"
    "evaluate_preferred_pod_affinity_terms n pa pods ?ntm False \<le> 2 ^ 32"
    "0 \<le> evaluate_preferred_pod_affinity_terms n paa pods ?ntm True"
    "evaluate_preferred_pod_affinity_terms n paa pods ?ntm True \<le> 2 ^ 32"
    using evaluate_preferred_range s by blast+
  then show ?thesis
    by (simp add: pa_raw_def t Let_def in_i64_nonnegI)
qed

lemma score_terms_range:
  assumes "sane_pod pod"
    and "sane_node n" "is_fit (ps_resources (pod_spec pod)) n"
    and "(w, raw, rv) \<in> set (score_terms strategy pods cand pod)"
  shows "0 \<le> raw n \<and> raw n \<le> 2 ^ 33" "0 \<le> w"
proof -
  have na: "0 \<le> pst_score (get_pod_preferred_node_affinity pod) n"
    "pst_score (get_pod_preferred_node_affinity pod) n \<le> 2 ^ 33"
    using pst_score_range [of "get_pod_preferred_node_affinity pod" n] assms(1)
    by (auto simp: sane_pod_def)
  have w: "within_allocatable n" using assms(2) by (simp add: sane_node_def)
  show "0 \<le> raw n \<and> raw n \<le> 2 ^ 33"
    using assms(4) na fit_raw_range [OF w assms(3), of strategy] balanced_raw_range [of pod n]
      gpu_raw_range [of pod n] tt_raw_range [OF assms(2), of pod]
      pa_raw_range [OF assms(1), of pods cand n]
    by (auto simp: score_terms_def)
  show "0 \<le> w" using assms(4) by (auto simp: score_terms_def)
qed

lemma normalized_term_range:
  assumes "sane_pod pod" "\<forall>n\<in>set cand. sane_node n \<and> is_fit (ps_resources (pod_spec pod)) n"
    and "t \<in> set (score_terms strategy pods cand pod)" "i < length cand"
  shows "0 \<le> normalized cand t ! i" "normalized cand t ! i \<le> 100"
proof -
  obtain w raw rv where t: "t = (w, raw, rv)" by (cases t)
  have "\<forall>x\<in>set (map raw cand). 0 \<le> x \<and> x \<le> 2 ^ 33"
    using score_terms_range(1) [OF assms(1)] assms(2,3) t by auto
  from normalize_range [OF this, of 100 i rv] assms(4)
  show "0 \<le> normalized cand t ! i" "normalized cand t ! i \<le> 100"
    by (simp_all add: normalized_def t)
qed

lemma length_normalized [simp]: "length (normalized cand t) = length cand"
  by (simp add: normalized_def split: prod.splits)

lemma sum_weights: "sum_list (map fst (score_terms strategy pods cand pod)) = 10"
  by (simp add: score_terms_def)

lemma run_score_total:
  assumes "scoring_state gs strategy pods pod nodes cand st" "sane_pod pod"
    and "\<forall>n\<in>set cand. sane_node n \<and> is_fit (ps_resources (pod_spec pod)) n"
  shows "run_score_plugin (ep_score (enable_plugins plugins_default gs)) st pod cand =
           map (\<lambda>i. (total_score strategy pods cand pod i, cand ! i)) [0..<length cand]"
proof (cases "cand = []")
  case True
  then show ?thesis by (simp add: run_score_plugin_def)
next
  case False
  let ?ts = "score_terms strategy pods cand pod"
  let ?f = "fold (\<lambda>t sc. add_weighted (fst t) (normalized cand t) sc) ?ts (replicate (length cand) 0)"
  have ok: "\<forall>t\<in>set ?ts. 0 \<le> fst t \<and> length (normalized cand t) = length (replicate (length cand) (0 :: int)) \<and>
      0 \<le> normalized cand t ! i \<and> normalized cand t ! i \<le> 100" if "i < length cand" for i
    using normalized_term_range [OF assms(2,3)] that by (auto simp: score_terms_def)
  have small: "replicate (length cand) (0 :: int) ! i + 100 * sum_list (map fst ?ts) < 2 ^ 63"
    "0 \<le> replicate (length cand) (0 :: int) ! i" if "i < length cand" for i
    using that by (simp_all add: sum_weights)
  have nth: "?f ! i = total_score strategy pods cand pod i" if "i < length cand" for i
    using fold_add_weighted(1) [OF ok [OF that] _ small(2,1) [OF that]] that
    by (simp add: total_score_def)
  have len: "length ?f = length cand"
    using fold_add_weighted(2) [OF ok _ small(2,1)] False by (metis length_greater_0_conv length_replicate)
  show ?thesis
    unfolding run_score_terms [OF assms(1)]
    by (rule nth_equalityI) (simp_all add: len nth)
qed

lemma total_score_range:
  assumes "sane_pod pod" "\<forall>n\<in>set cand. sane_node n \<and> is_fit (ps_resources (pod_spec pod)) n"
    and "i < length cand"
  shows "0 \<le> total_score strategy pods cand pod i" "total_score strategy pods cand pod i \<le> 1000"
proof -
  let ?ts = "score_terms strategy pods cand pod"
  have t: "0 \<le> fst t * normalized cand t ! i" "fst t * normalized cand t ! i \<le> fst t * 100"
    if "t \<in> set ?ts" for t
  proof -
    have "0 \<le> fst t" using that by (auto simp: score_terms_def)
    then show "0 \<le> fst t * normalized cand t ! i" "fst t * normalized cand t ! i \<le> fst t * 100"
      using normalized_term_range [OF assms(1,2) that assms(3)] by (simp_all add: mult_left_mono)
  qed
  show "0 \<le> total_score strategy pods cand pod i"
    unfolding total_score_def using t(1) by (intro sum_list_nonneg) auto
  have "total_score strategy pods cand pod i \<le> sum_list (map (\<lambda>t. fst t * 100) ?ts)"
    unfolding total_score_def using t(2) by (intro sum_list_mono) auto
  also have "\<dots> = 1000" by (simp add: score_terms_def)
  finally show "total_score strategy pods cand pod i \<le> 1000" .
qed

section \<open>The outcome of a cycle\<close>

lemma prefilter_default_reject:
  assumes "run_prefilter_loop (map fst cs) st pod nodes fs = (st', Inl s)"
    and "\<forall>c\<in>set cs. keeps_contract c"
  shows "st_code s = Unschedulable \<or> st_code s = UnschedulableAndUnresolvable"
  using assms
proof (induction cs arbitrary: st fs)
  case Nil
  then show ?case by simp
next
  case (Cons c cs)
  obtain pl w key flt ok where c: "c = ((pl, w), key, flt, ok)" by (metis prod.exhaust)
  obtain st1 r s1 where pre: "pre_filter pl st pod nodes = (st1, r, s1)" by (metis prod.exhaust)
  have fc: "filter_contract key (pre_filter pl) flt ok"
    using Cons.prems(2) c by (simp add: keeps_contract_def)
  show ?case
    using Cons.IH Cons.prems filter_contract.pre_codes [OF fc pre]
    by (auto simp: c pre Let_def split: if_splits)
qed

text \<open>The whole cycle of the default configuration, with the stages replaced by their meaning.\<close>

lemma scheduling_cycle_default:
  assumes "nodes_wf nodes"
  shows "scheduling_cycle (enable_plugins plugins_default gs) strategy pods pod nodes =
     (case run_prefilter_loop (ep_pre_filter (enable_plugins plugins_default gs))
             (cycle_start strategy pods) pod nodes {} of
        (_, Inl s) \<Rightarrow> if st_code s = Unschedulable then CycleBackoff else CycleUnresolvable
      | (st1, Inr _) \<Rightarrow>
          (let cand = filter (feasible gs pods nodes pod) nodes
           in if cand = [] then CycleBackoff
              else CycleChosen (node_name (best_node
                (run_score_plugin (ep_score (enable_plugins plugins_default gs))
                   (run_prescore_default gs st1 pod cand) pod cand)))))"
proof -
  let ?ep = "enable_plugins plugins_default gs"
  obtain st1 res where run: "run_prefilter_loop (ep_pre_filter ?ep) (cycle_start strategy pods) pod nodes {}
      = (st1, res)" by (metis prod.exhaust)
  show ?thesis
  proof (cases res)
    case (Inl s)
    have "st_code s = Unschedulable \<or> st_code s = UnschedulableAndUnresolvable"
      using prefilter_default_reject [of "default_contracts gs"] run Inl default_contracts_keep
      unfolding default_contracts_plugins by blast
    then show ?thesis
      by (auto simp: scheduling_cycle_def run_prefilter_plugin_def run Inl)
  next
    case (Inr fs)
    note run' = run [unfolded Inr]
    have fs: "fs = {}" by (rule prefilter_default(1) [OF assms run'])
    obtain st2 s2 where pre: "run_pre_score_plugin (ep_pre_score ?ep) st1 pod
        (filter (feasible gs pods nodes pod) nodes) = (st2, s2)" by (metis prod.exhaust)
    then have s2: "st_code s2 = Success"
      using pre_score_default_succeeds [of gs st1 pod "filter (feasible gs pods nodes pod) nodes"] by simp
    have st2: "st2 = run_prescore_default gs st1 pod (filter (feasible gs pods nodes pod) nodes)"
      by (simp add: run_prescore_default_def pre)
    show ?thesis
      using filters_keep_feasible [OF assms run'] pre s2 st2 fs
      by (simp add: scheduling_cycle_def run_prefilter_plugin_def run' Let_def)
  qed
qed

lemma nodes_wf_filter: "nodes_wf nodes \<Longrightarrow> nodes_wf (filter P nodes)"
  by (auto simp: nodes_wf_def distinct_map_filter)

lemma chosen_is_best:
  assumes "nodes_wf nodes"
    and "scheduling_cycle (enable_plugins plugins_default gs) strategy pods pod nodes = CycleChosen nm"
  obtains n where "n \<in> set nodes" "node_name n = nm" "feasible gs pods nodes pod n"
    and "\<And>cand. cand = filter (feasible gs pods nodes pod) nodes \<Longrightarrow> sane_pod pod \<Longrightarrow>
           \<forall>m\<in>set cand. sane_node m \<Longrightarrow>
           \<exists>i<length cand. cand ! i = n \<and>
             (\<forall>j<length cand. total_score strategy pods cand pod j \<le> total_score strategy pods cand pod i)"
proof -
  let ?ep = "enable_plugins plugins_default gs" and ?cand = "filter (feasible gs pods nodes pod) nodes"
  obtain st1 fs where run: "run_prefilter_loop (ep_pre_filter ?ep) (cycle_start strategy pods) pod nodes {}
      = (st1, Inr fs)" and ne: "?cand \<noteq> []"
    and nm: "nm = node_name (best_node (run_score_plugin (ep_score ?ep)
                 (run_prescore_default gs st1 pod ?cand) pod ?cand))"
    using assms(2) unfolding scheduling_cycle_default [OF assms(1)]
    by (auto simp: Let_def split: prod.splits sum.splits if_splits)
  let ?st = "run_prescore_default gs st1 pod ?cand"
  let ?scores = "run_score_plugin (ep_score ?ep) ?st pod ?cand"
  have st: "scoring_state gs strategy pods pod nodes ?cand ?st"
    using run by (auto simp: scoring_state_def)
  have len: "?scores \<noteq> []"
    unfolding run_score_terms [OF st] score_terms_def
    using ne by (simp add: length_add_weighted zip_eq_Nil_iff flip: length_greater_0_conv)
  obtain sc where best: "(sc, best_node ?scores) \<in> set ?scores" "\<forall>(s', n')\<in>set ?scores. s' \<le> sc"
    using best_node_max [OF len] by blast
  then have mem: "best_node ?scores \<in> set ?cand"
    unfolding run_score_plugin_def by (meson set_zip_rightD)
  show ?thesis
  proof (rule that)
    show "best_node ?scores \<in> set nodes" "node_name (best_node ?scores) = nm"
      "feasible gs pods nodes pod (best_node ?scores)"
      using mem nm by auto
    fix cand
    assume cand: "cand = ?cand" and "sane_pod pod" "\<forall>m\<in>set cand. sane_node m"
    then have "?scores = map (\<lambda>i. (total_score strategy pods cand pod i, cand ! i)) [0..<length cand]"
      using run_score_total [OF st] by (auto simp: feasible_def)
    then show "\<exists>i<length cand. cand ! i = best_node ?scores \<and>
        (\<forall>j<length cand. total_score strategy pods cand pod j \<le> total_score strategy pods cand pod i)"
      using best by (auto simp: image_iff)
  qed
qed

text \<open>A rejection by the pre-filters comes from one of them.\<close>

lemma prefilter_loop_reject:
  "run_prefilter_loop ps st pod nodes fs = (st', Inl s) \<Longrightarrow>
     \<exists>pl w sa sb r. (pl, w) \<in> set ps \<and> pre_filter pl sa pod nodes = (sb, r, s) \<and>
       st_code s \<in> {Unschedulable, UnschedulableAndUnresolvable, Pending}"
proof (induction ps st pod nodes fs rule: run_prefilter_loop.induct)
  case (1 st pod nodes fs)
  then show ?case by simp
next
  case (2 pl w pls st pod nodes fs)
  obtain st1 r s1 where pre: "pre_filter pl st pod nodes = (st1, r, s1)" by (metis prod.exhaust)
  show ?case
  proof (cases "st_code s1 \<in> {Unschedulable, UnschedulableAndUnresolvable, Pending}")
    case True
    with "2.prems" pre have "s = s1" by (auto simp: Let_def)
    with True pre show ?thesis by (intro exI [of _ pl] exI [of _ w] exI) auto
  next
    case False
    with "2.prems" pre obtain st2 fs2 where "run_prefilter_loop pls st2 pod nodes fs2 = (st', Inl s)"
      and ih: "\<exists>pl w sa sb r. (pl, w) \<in> set pls \<and> pre_filter pl sa pod nodes = (sb, r, s) \<and>
         st_code s \<in> {Unschedulable, UnschedulableAndUnresolvable, Pending}"
      using "2.IH" [OF pre [symmetric] refl] by (auto simp: Let_def split: if_splits)
    from ih show ?thesis by auto
  qed
qed

lemma collect_required_None:
  "collect_required assumed nodes cs req = None \<Longrightarrow>
     \<exists>c\<in>set cs. same_value c \<and> pick_label_value assumed (topology_key c) nodes = None"
  by (induction assumed nodes cs req rule: collect_required.induct) (auto split: if_splits option.splits)

lemma topo_reject_infeasible:
  assumes "topo_pre_filter gs st pod nodes = (st', r, s)" "st_code s \<noteq> Success" "st_code s \<noteq> Skip"
  shows "\<not> topo_ok gs pods nodes pod n"
proof -
  obtain g where g: "ps_gang (pod_spec pod) = Some g"
    and none: "collect_required (assumed_nodes (gang_id g) gs) nodes
      (ps_topology_constraints (pod_spec pod)) [] = None"
    and ne: "assumed_nodes (gang_id g) gs \<noteq> []"
    using assms by (auto simp: topo_pre_filter_def Let_def split: option.splits if_splits)
  show ?thesis
    using collect_required_None [OF none] g ne by (fastforce simp: topo_ok_def)
qed

text \<open>Terms with an empty topology key, which the pod-affinity pre-filter rejects.\<close>

definition has_empty_topology_key :: "pod_info \<Rightarrow> bool" where
  "has_empty_topology_key pod \<longleftrightarrow>
     (let (ra, raa, pa, paa) = extract_pod_affinity_terms pod in empty_key_message ra raa pa paa \<noteq> None)"

lemma prefilters_pass:
  assumes "\<not> has_empty_topology_key pod" "feasible gs pods nodes pod n"
  shows "\<exists>st1 fs. run_prefilter_loop (ep_pre_filter (enable_plugins plugins_default gs))
           (cycle_start strategy pods) pod nodes {} = (st1, Inr fs)"
proof (rule ccontr)
  assume "\<not> ?thesis"
  then obtain st1 s where "run_prefilter_loop (ep_pre_filter (enable_plugins plugins_default gs))
      (cycle_start strategy pods) pod nodes {} = (st1, Inl s)"
    by (metis prod.exhaust sum.exhaust)
  from prefilter_loop_reject [OF this] obtain pl w sa sb r
    where pl: "(pl, w) \<in> set (ep_pre_filter (enable_plugins plugins_default gs))"
      and pre: "pre_filter pl sa pod nodes = (sb, r, s)"
      and code: "st_code s \<in> {Unschedulable, UnschedulableAndUnresolvable, Pending}"
    by blast
  have na: "na_pre_filter sa pod nodes \<noteq> (sb, r, s)" and fit: "fit_pre_filter sa pod nodes \<noteq> (sb, r, s)"
    and gpu: "gpu_pre_filter sa pod nodes \<noteq> (sb, r, s)"
    using code by (auto simp: na_pre_filter_def fit_pre_filter_def gpu_pre_filter_def Let_def)
  have pa: "pa_pre_filter sa pod nodes \<noteq> (sb, r, s)"
    using code assms(1)
    by (auto simp: pa_pre_filter_def has_empty_topology_key_def Let_def split: option.splits prod.splits)
  have topo: "topo_pre_filter gs sa pod nodes \<noteq> (sb, r, s)"
    using topo_reject_infeasible [of gs sa pod nodes sb r s pods n] code assms(2)
    by (auto simp: feasible_def)
  show False
    using pl pre na fit gpu pa topo unfolding enabled_pre_filter plugin_name_defs by auto
qed

lemma cycle_chosen_iff:
  assumes "nodes_wf nodes" "\<not> has_empty_topology_key pod"
  shows "(\<exists>nm. scheduling_cycle (enable_plugins plugins_default gs) strategy pods pod nodes = CycleChosen nm)
           \<longleftrightarrow> (\<exists>n\<in>set nodes. feasible gs pods nodes pod n)"
proof
  assume "\<exists>nm. scheduling_cycle (enable_plugins plugins_default gs) strategy pods pod nodes = CycleChosen nm"
  then show "\<exists>n\<in>set nodes. feasible gs pods nodes pod n"
    using chosen_is_best [OF assms(1)] by metis
next
  assume "\<exists>n\<in>set nodes. feasible gs pods nodes pod n"
  then obtain n where n: "n \<in> set nodes" "feasible gs pods nodes pod n" by blast
  obtain st1 fs where run: "run_prefilter_loop (ep_pre_filter (enable_plugins plugins_default gs))
      (cycle_start strategy pods) pod nodes {} = (st1, Inr fs)"
    using prefilters_pass [OF assms(2) n(2)] by blast
  have "filter (feasible gs pods nodes pod) nodes \<noteq> []" using n by (auto simp: filter_empty_conv)
  then show "\<exists>nm. scheduling_cycle (enable_plugins plugins_default gs) strategy pods pod nodes = CycleChosen nm"
    unfolding scheduling_cycle_default [OF assms(1)] run by (simp add: Let_def)
qed

text \<open>A single feasible node is chosen.\<close>

lemma cycle_singleton:
  assumes "hm_wf (node_labels n)" "\<not> has_empty_topology_key pod" "feasible gs pods [n] pod n"
  shows "scheduling_cycle (enable_plugins plugins_default gs) strategy pods pod [n]
           = CycleChosen (node_name n)"
proof -
  have wf: "nodes_wf [n]" using assms(1) by (simp add: nodes_wf_def)
  obtain nm where nm: "scheduling_cycle (enable_plugins plugins_default gs) strategy pods pod [n]
      = CycleChosen nm"
    using cycle_chosen_iff [OF wf assms(2), of gs strategy pods] assms(3) by auto
  then show ?thesis
    using chosen_is_best [OF wf nm] by (metis empty_iff empty_set set_ConsD)
qed

end
