(* ===== verification/Scheduler.thy ===== *)
theory Scheduler
  imports Sched_Cache Sched_Queue Sched_Choice
begin

text \<open>
  \<open>Scheduler\<close> of \<open>libscheduler/src/scheduler.rs\<close>: the state behind the locks (cache, queue, gang store),
  \<open>schedule_one\<close>, the gang watchdog, and the handlers the watch loop calls. Each handler is one step; the
  clock is an argument. The result channel is the list of assignments sent so far. \<open>sch_alive\<close> turns
  false when the task that runs \<open>schedule_one\<close> panics: the other tasks go on, but no pod is
  scheduled any more.

  The scheduler is a step relation \<open>sched_step\<close>: the scheduling loop, the timers, the calls of the
  watch loop and the re-ordering of the hash maps interleave freely.
\<close>

section \<open>State\<close>

record scheduler =
  sch_cache :: cache
  sch_queue :: scheduling_queue
  sch_strategy :: scoring_strategy
  sch_plugins :: plugins
  sch_gang :: gang_store
  sch_gang_timeout :: nat
  sch_sent :: "assignment list"
  sch_alive :: bool

definition GANG_TIMEOUT_DEFAULT :: nat where
  "GANG_TIMEOUT_DEFAULT = secs 60"

definition scheduler_new :: "scoring_strategy \<Rightarrow> plugins \<Rightarrow> scheduler" where
  "scheduler_new strategy ps =
     \<lparr>sch_cache = cache_new, sch_queue = queue_new (queueing_hints ps []), sch_strategy = strategy,
      sch_plugins = ps, sch_gang = [], sch_gang_timeout = GANG_TIMEOUT_DEFAULT, sch_sent = [],
      sch_alive = True\<rparr>"

definition sch_enabled :: "scheduler \<Rightarrow> enabled_plugins" where
  "sch_enabled s = enable_plugins (sch_plugins s) (sch_gang s)"

section \<open>One scheduling cycle\<close>

definition all_scheduled_pods :: "cache \<Rightarrow> pod_info list" where
  "all_scheduled_pods c =
     filter (\<lambda>p. scheduled p \<noteq> None \<or> ps_node_name (pod_spec p) \<noteq> None) (hm_values (get_pods c))"

text \<open>The macro \<open>break_cycle\<close>: the failure is counted in the cache, then the pod goes to a waiting queue.\<close>

definition break_cycle ::
    "(pod_info \<Rightarrow> scheduling_queue \<Rightarrow> scheduling_queue option) \<Rightarrow> pod_info \<Rightarrow> string \<Rightarrow> scheduler \<Rightarrow> scheduler" where
  "break_cycle push_fn pod pname s =
     (let (c, known) = add_fail pname (sch_cache s);
          s1 = s\<lparr>sch_cache := c\<rparr>
      in if known
         then (case push_fn pod (sch_queue s1) of
                 Some q \<Rightarrow> s1\<lparr>sch_queue := q\<rparr>
               | None \<Rightarrow> s1\<lparr>sch_alive := False\<rparr>)
         else s1)"

definition send_assignments :: "(string, string) hashmap \<Rightarrow> scheduler \<Rightarrow> scheduler" where
  "send_assignments members s =
     s\<lparr>sch_sent := sch_sent s @
         map (\<lambda>(p, n). \<lparr>as_pod_name = p, as_node_name = n\<rparr>) members\<rparr>"

definition commit_choice :: "instant \<Rightarrow> pod_info \<Rightarrow> string \<Rightarrow> string \<Rightarrow> scheduler \<Rightarrow> scheduler" where
  "commit_choice now pod pname chosen s =
     (case assume_pod pname chosen (sch_cache s) of
        (c, False) \<Rightarrow> s\<lparr>sch_cache := c\<rparr>
      | (c, True) \<Rightarrow>
          (let s1 = s\<lparr>sch_cache := c\<rparr>
           in case ps_gang (pod_spec pod) of
                None \<Rightarrow> send_assignments [(pname, chosen)] s1
              | Some g \<Rightarrow>
                  (let (gs, full) = add_member now (gang_id g) (gang_size g) pname chosen (sch_gang s1)
                   in if full
                      then (case take_and_clear (gang_id g) gs of
                              (gs', Some members) \<Rightarrow> send_assignments members (s1\<lparr>sch_gang := gs'\<rparr>)
                            | (gs', None) \<Rightarrow> s1\<lparr>sch_gang := gs'\<rparr>)
                      else s1\<lparr>sch_gang := gs\<rparr>)))"

definition schedule_one :: "instant \<Rightarrow> scheduler \<Rightarrow> scheduler" where
  "schedule_one now s =
     (case next_pod (sch_queue s) of
        None \<Rightarrow> s
      | Some ((pod_priority, pname), q) \<Rightarrow>
          (let s1 = s\<lparr>sch_queue := q\<rparr>
           in case get_pod pname (sch_cache s1) of
                None \<Rightarrow> s1
              | Some pod \<Rightarrow>
                  if ps_priority (pod_spec pod) \<noteq> pod_priority then s1
                  else
                    (case scheduling_cycle (sch_enabled s1) (sch_strategy s1)
                            (all_scheduled_pods (sch_cache s1)) pod (get_nodes (sch_cache s1)) of
                       CyclePending \<Rightarrow> s1\<lparr>sch_queue := queue_push pname pod_priority (sch_queue s1)\<rparr>
                     | CycleBackoff \<Rightarrow> break_cycle (push_backoff now) pod pname s1
                     | CycleUnresolvable \<Rightarrow> break_cycle (push_unschedulable now) pod pname s1
                     | CycleChosen chosen \<Rightarrow> commit_choice now pod pname chosen s1)))"

section \<open>Handlers\<close>

definition unassume :: "string \<Rightarrow> scheduler \<Rightarrow> scheduler" where
  "unassume pname s =
     (case unassume_pod pname (sch_cache s) of
        (c, None) \<Rightarrow> s\<lparr>sch_cache := c\<rparr>
      | (c, Some pod) \<Rightarrow>
          s\<lparr>sch_cache := c,
            sch_queue := queue_push (pod_name pod) (ps_priority (pod_spec pod)) (sch_queue s)\<rparr>)"

fun unassume_all :: "string list \<Rightarrow> cache \<Rightarrow> cache \<times> (string \<times> u64) list" where
  "unassume_all [] c = (c, [])"
| "unassume_all (n # ns) c =
     (case unassume_pod n c of
        (c', None) \<Rightarrow> unassume_all ns c'
      | (c', Some p) \<Rightarrow>
          (let (c'', rest) = unassume_all ns c'
           in (c'', (pod_name p, ps_priority (pod_spec p)) # rest)))"

text \<open>One tick of the gang timeout watchdog spawned in \<open>run\<close>.\<close>

definition gang_watchdog :: "instant \<Rightarrow> scheduler \<Rightarrow> scheduler" where
  "gang_watchdog now s =
     (let (gs, timed_out) = take_timed_out now (sch_gang_timeout s) (sch_gang s)
      in if timed_out = [] then s\<lparr>sch_gang := gs\<rparr>
         else
           (let (c, to_requeue) =
                  unassume_all (concat (map (\<lambda>(_, members). hm_keys members) timed_out)) (sch_cache s)
            in s\<lparr>sch_gang := gs, sch_cache := c,
                 sch_queue := fold (\<lambda>(name, priority). queue_push name priority) to_requeue (sch_queue s)\<rparr>))"

definition enqueue :: "pod_info \<Rightarrow> scheduler \<Rightarrow> scheduler" where
  "enqueue pod s =
     (if list_ex
           (\<lambda>(p, _).
              let c = st_code (pre_enqueue p pod)
              in \<not> (c = Error \<or> c = Skip \<or> c = Success \<or> c = Pending))
           (ep_pre_enqueue (sch_enabled s))
      then s
      else s\<lparr>sch_queue := queue_push (pod_name pod) (ps_priority (pod_spec pod)) (sch_queue s)\<rparr>)"

definition update_cache_pod :: "pod_info \<Rightarrow> scheduler \<Rightarrow> scheduler" where
  "update_cache_pod pod s =
     (let (c, ori) = update_pod pod (sch_cache s);
          s1 = s\<lparr>sch_cache := c\<rparr>
      in case scheduled pod of
           None \<Rightarrow>
             (let s2 = s1\<lparr>sch_queue := hint (EvPod ori (Some pod)) (get_pods (sch_cache s1)) (sch_queue s1)\<rparr>
              in case ori of
                   Some o' \<Rightarrow> if scheduled o' \<noteq> None then enqueue pod s2 else s2
                 | None \<Rightarrow> enqueue pod s2)
         | Some nname \<Rightarrow> s1\<lparr>sch_cache := fst (assume_pod (pod_name pod) nname (sch_cache s1))\<rparr>)"

definition remove_cache_pod :: "string \<Rightarrow> scheduler \<Rightarrow> scheduler" where
  "remove_cache_pod pname s =
     (let (c, ori) = remove_pod pname (sch_cache s);
          s1 = s\<lparr>sch_cache := c\<rparr>
      in s1\<lparr>sch_queue := hint (EvPod ori None) (get_pods (sch_cache s1)) (sch_queue s1)\<rparr>)"

definition set_cache_node :: "node_info list \<Rightarrow> scheduler \<Rightarrow> scheduler" where
  "set_cache_node nodes s = s\<lparr>sch_cache := set_nodes nodes (sch_cache s)\<rparr>"

definition update_cache_node :: "node_info \<Rightarrow> scheduler \<Rightarrow> scheduler" where
  "update_cache_node node s =
     (let (c, ori) = update_node node (sch_cache s);
          s1 = s\<lparr>sch_cache := c, sch_queue := add_count (sch_queue s)\<rparr>
      in s1\<lparr>sch_queue := hint (EvNode ori node) (get_pods (sch_cache s1)) (sch_queue s1)\<rparr>)"

definition remove_cache_node :: "string \<Rightarrow> scheduler \<Rightarrow> scheduler" where
  "remove_cache_node nname s =
     (let (c, pods) = pop_pod_on_node nname (sch_cache s);
          q = fold (\<lambda>(priority, name). queue_push name priority) pods (sch_queue s)
      in s\<lparr>sch_cache := remove_node nname c, sch_queue := q\<rparr>)"

section \<open>Frames\<close>

text \<open>What the handlers leave alone.\<close>

lemma break_cycle_frame [simp]:
  "sch_gang (break_cycle f p n s) = sch_gang s" "sch_sent (break_cycle f p n s) = sch_sent s"
  "sch_plugins (break_cycle f p n s) = sch_plugins s" "sch_strategy (break_cycle f p n s) = sch_strategy s"
  "sch_cache (break_cycle f p n s) = fst (add_fail n (sch_cache s))"
  by (auto simp: break_cycle_def Let_def split: prod.splits option.splits)

lemma enqueue_frame [simp]:
  "sch_gang (enqueue p s) = sch_gang s" "sch_sent (enqueue p s) = sch_sent s"
  "sch_plugins (enqueue p s) = sch_plugins s" "sch_cache (enqueue p s) = sch_cache s"
  "sch_alive (enqueue p s) = sch_alive s"
  by (auto simp: enqueue_def)

lemma commit_choice_cache:
  "sch_cache (commit_choice now pod pname chosen s) = fst (assume_pod pname chosen (sch_cache s))"
  by (auto simp: commit_choice_def send_assignments_def Let_def split: prod.splits option.splits bool.splits)

lemma commit_choice_queue:
  "sch_queue (commit_choice now pod pname chosen s) = sch_queue s"
  by (auto simp: commit_choice_def send_assignments_def Let_def split: prod.splits option.splits bool.splits)

end
