(* ===== verification/Sched_Examples.thy ===== *)
theory Sched_Examples
  imports Scheduler
begin

text \<open>
  Concrete nodes and pods, on which the hypotheses of the properties are evaluated.
\<close>

definition ex_node :: "string \<Rightarrow> node_info" where
  "ex_node nm =
     \<lparr>node_name = nm, node_labels = [], node_spec = \<lparr>unschedulable = False, taints = []\<rparr>,
      requested = \<lparr>res_cpu = 0, res_memory = 0\<rparr>, allocatable = \<lparr>res_cpu = 4000, res_memory = 8000\<rparr>,
      gpu_resources = None\<rparr>"

definition ex_spec :: pod_spec where
  "ex_spec =
     \<lparr>ps_resources = \<lparr>res_cpu = 500, res_memory = 1000\<rparr>, ps_priority = 0, ps_scheduling_gates = [],
      ps_tolerations = [], ps_node_name = None, ps_node_selector = [], ps_affinity = None,
      ps_gpu_request = 0, ps_gpu_memory_request = None, ps_gang = None, ps_topology_constraints = []\<rparr>"

definition ex_pod :: "string \<Rightarrow> pod_info" where
  "ex_pod nm = pod_info_new 0 nm [] ex_spec"

lemma ex_node_simps [simp]:
  "node_name (ex_node nm) = nm" "node_labels (ex_node nm) = []" "taints (node_spec (ex_node nm)) = []"
  "requested (ex_node nm) = \<lparr>res_cpu = 0, res_memory = 0\<rparr>" "gpu_resources (ex_node nm) = None"
  "unschedulable (node_spec (ex_node nm)) = False"
  "allocatable (ex_node nm) = \<lparr>res_cpu = 4000, res_memory = 8000\<rparr>"
  by (simp_all add: ex_node_def)

lemma ex_pod_simps [simp]:
  "pod_name (ex_pod nm) = nm" "scheduled (ex_pod nm) = None" "pod_spec (ex_pod nm) = ex_spec"
  "pod_labels (ex_pod nm) = []" "queued_info (ex_pod nm) = queued_info_default 0"
  by (simp_all add: ex_pod_def pod_info_new_def)

lemma ex_spec_simps [simp]:
  "ps_resources ex_spec = \<lparr>res_cpu = 500, res_memory = 1000\<rparr>" "ps_priority ex_spec = 0"
  "ps_scheduling_gates ex_spec = []" "ps_tolerations ex_spec = []" "ps_node_name ex_spec = None"
  "ps_node_selector ex_spec = []" "ps_affinity ex_spec = None" "ps_gpu_request ex_spec = 0"
  "ps_gpu_memory_request ex_spec = None" "ps_gang ex_spec = None" "ps_topology_constraints ex_spec = []"
  by (simp_all add: ex_spec_def)

lemmas feasible_defs =
  feasible_def required_affinity_ok_def is_fit_def taints_tolerated_def cordon_ok_def
  pod_affinity_ok_def extract_pod_affinity_terms_def is_gpu_fit_def topo_ok_def

lemma ex_feasible [simp]: "feasible gs pods nodes (ex_pod p) (ex_node n)"
  by (simp add: feasible_defs)

lemma ex_no_empty_key [simp]: "\<not> has_empty_topology_key (ex_pod p)"
  by (simp add: has_empty_topology_key_def extract_pod_affinity_terms_def empty_key_message_def)

lemma ex_nodes_wf [simp]: "nodes_wf (map ex_node ns) \<longleftrightarrow> distinct ns"
  by (auto simp: nodes_wf_def comp_def)

lemma ex_cycle:
  "scheduling_cycle (enable_plugins plugins_default gs) strategy pods (ex_pod p) [ex_node n] = CycleChosen n"
  using cycle_singleton [of "ex_node n" "ex_pod p"] by simp

lemma ex_sane [simp]: "sane_pod (ex_pod p)" "sane_node (ex_node n)"
  by (simp_all add: sane_pod_def sane_terms_def sane_weights_def get_pod_preferred_node_affinity_def
      extract_pod_affinity_terms_def sane_node_def preferred_scheduling_terms_default_def within_allocatable_def)

end
