(* ===== verification/Sched_Properties.thy ===== *)
theory Sched_Properties
  imports Sched_Examples
begin

text \<open>
  What a scheduling cycle of the default configuration promises: the node it chooses is feasible, it
  chooses one whenever there is one, and the choice has the greatest weighted score. Each theorem is
  followed by the evaluation of its hypotheses on the pods and nodes of \<open>Sched_Examples\<close>.
\<close>

section \<open>The choice of a node\<close>

text \<open>
  C2: The node that \<open>schedule_one\<close> picks for a pod is a node of the snapshot and passes every predicate of
  the default configuration: node selector and required node affinity, free cpu and memory, tolerated
  taints, \<open>spec.nodeName\<close>, the cordon, required pod (anti-)affinity, free GPUs and the topology of the
  gang members placed so far. The eight filters run over a shared cycle state that five pre-filters fill,
  and skip one another; \<open>feasible\<close> has no stages and no state.
\<close>

theorem chosen_node_feasible:
  assumes "nodes_wf nodes"
    and "scheduling_cycle (enable_plugins plugins_default gs) strategy pods pod nodes = CycleChosen nm"
  shows "\<exists>n\<in>set nodes. node_name n = nm \<and> feasible gs pods nodes pod n"
  using chosen_is_best [OF assms] by metis

theorem chosen_node_feasible_witness:
  "\<exists>n\<in>set [ex_node ''a'']. node_name n = ''a'' \<and> feasible [] [] [ex_node ''a''] (ex_pod ''p'') n"
  by (rule chosen_node_feasible [where strategy = LeastAllocated])
    (simp_all add: ex_cycle nodes_wf_def)

text \<open>
  C3: A cycle chooses a node exactly when some node is feasible: no pre-filter, filter or pre-score stage
  rejects a pod that fits somewhere. The one exception is a pod-affinity term with an empty topology
  key, which the pre-filter of \<open>PodAffinity\<close> rejects.
\<close>

theorem cycle_chooses_iff_feasible:
  assumes "nodes_wf nodes" "\<not> has_empty_topology_key pod"
  shows "(\<exists>nm. scheduling_cycle (enable_plugins plugins_default gs) strategy pods pod nodes = CycleChosen nm)
           \<longleftrightarrow> (\<exists>n\<in>set nodes. feasible gs pods nodes pod n)"
  by (rule cycle_chosen_iff [OF assms])

theorem cycle_chooses_iff_feasible_witness:
  "\<exists>nm. scheduling_cycle (enable_plugins plugins_default []) MostAllocated [] (ex_pod ''p'')
      [ex_node ''a'', ex_node ''b''] = CycleChosen nm"
  using cycle_chooses_iff_feasible
    [of "[ex_node ''a'', ex_node ''b'']" "ex_pod ''p''" "[]" MostAllocated "[]"]
  by (simp add: nodes_wf_def)

text \<open>
  C4: The chosen node has the greatest total score of the feasible nodes, where the total is the exact
  integer sum of the weighted, normalised scores of the six score plugins (no accumulator wraps). The
  hypotheses bound the user's preference weights and ask that the nodes are not over-committed.
\<close>

theorem chosen_node_optimal:
  assumes "nodes_wf nodes" "sane_pod pod"
    and "cand = filter (feasible gs pods nodes pod) nodes" "\<forall>m\<in>set cand. sane_node m"
    and "scheduling_cycle (enable_plugins plugins_default gs) strategy pods pod nodes = CycleChosen nm"
  shows "\<exists>i<length cand. node_name (cand ! i) = nm \<and>
           (\<forall>j<length cand. total_score strategy pods cand pod j \<le> total_score strategy pods cand pod i)"
  using chosen_is_best [OF assms(1,5)] assms(2,3,4) by metis

theorem chosen_node_optimal_witness:
  "\<exists>i<length [ex_node ''a'']. node_name ([ex_node ''a''] ! i) = ''a'' \<and>
     (\<forall>j<length [ex_node ''a''].
        total_score LeastAllocated [] [ex_node ''a''] (ex_pod ''p'') j
          \<le> total_score LeastAllocated [] [ex_node ''a''] (ex_pod ''p'') i)"
  by (rule chosen_node_optimal [where gs = "[]" and nodes = "[ex_node ''a'']"])
    (simp_all add: ex_cycle nodes_wf_def)

text \<open>
  C16: The filter stage is exact: after the pre-filters have run, the nodes that survive all the filters
  (skipped ones left out) are the feasible nodes, in the order of the snapshot.
\<close>

theorem filter_stage_exact:
  assumes "nodes_wf nodes"
    and "run_prefilter_loop (ep_pre_filter (enable_plugins plugins_default gs))
           (cycle_start strategy pods) pod nodes {} = (st, Inr fs)"
  shows "run_filter_plugin (ep_filter (enable_plugins plugins_default gs)) st pod nodes
           = filter (feasible gs pods nodes pod) nodes"
  by (rule filters_keep_feasible [OF assms])

theorem filter_stage_exact_witness:
  "\<exists>st fs. run_prefilter_loop (ep_pre_filter (enable_plugins plugins_default []))
       (cycle_start LeastAllocated []) (ex_pod ''p'') [ex_node ''a''] {} = (st, Inr fs) \<and>
     run_filter_plugin (ep_filter (enable_plugins plugins_default [])) st (ex_pod ''p'') [ex_node ''a'']
       = [ex_node ''a'']"
proof -
  obtain st fs where run: "run_prefilter_loop (ep_pre_filter (enable_plugins plugins_default []))
      (cycle_start LeastAllocated []) (ex_pod ''p'') [ex_node ''a''] {} = (st, Inr fs)"
    using prefilters_pass [OF ex_no_empty_key ex_feasible] by blast
  show ?thesis
    using filter_stage_exact [OF _ run] run by (simp add: nodes_wf_def)
qed

text \<open>
  C20: Every score a node is ranked by is the exact total and lies in \<open>0..1000\<close> (ten units of weight, each
  normalised to \<open>0..100\<close>), so that neither the \<open>i64\<close> accumulation nor a cast in a plugin overflows.
\<close>

theorem scores_exact_and_bounded:
  assumes "scoring_state gs strategy pods pod nodes cand st" "sane_pod pod"
    and "\<forall>n\<in>set cand. sane_node n \<and> is_fit (ps_resources (pod_spec pod)) n"
    and "(s, n) \<in> set (run_score_plugin (ep_score (enable_plugins plugins_default gs)) st pod cand)"
  shows "0 \<le> s \<and> s \<le> 1000 \<and>
           (\<exists>i<length cand. cand ! i = n \<and> s = total_score strategy pods cand pod i)"
  using assms(4) total_score_range [OF assms(2,3)] unfolding run_score_total [OF assms(1-3)]
  by auto

theorem scores_exact_and_bounded_witness:
  "\<exists>st s. (s, ex_node ''a'') \<in> set (run_score_plugin (ep_score (enable_plugins plugins_default [])) st
        (ex_pod ''p'') [ex_node ''a'']) \<and> 0 \<le> s \<and> s \<le> 1000"
proof -
  obtain st1 fs where run: "run_prefilter_loop (ep_pre_filter (enable_plugins plugins_default []))
      (cycle_start LeastAllocated []) (ex_pod ''p'') [ex_node ''a''] {} = (st1, Inr fs)"
    using prefilters_pass [OF ex_no_empty_key ex_feasible] by blast
  define st where "st = run_prescore_default [] st1 (ex_pod ''p'') [ex_node ''a'']"
  have st: "scoring_state [] LeastAllocated [] (ex_pod ''p'') [ex_node ''a''] [ex_node ''a''] st"
    using run by (auto simp: scoring_state_def st_def)
  have ok: "\<forall>n\<in>set [ex_node ''a'']. sane_node n \<and> is_fit (ps_resources (pod_spec (ex_pod ''p''))) n"
    by (simp add: is_fit_def)
  have mem: "(total_score LeastAllocated [] [ex_node ''a''] (ex_pod ''p'') 0, ex_node ''a'') \<in>
      set (run_score_plugin (ep_score (enable_plugins plugins_default [])) st (ex_pod ''p'') [ex_node ''a''])"
    unfolding run_score_total [OF st ex_sane(1) ok] by simp
  from scores_exact_and_bounded [OF st ex_sane(1) ok this] mem show ?thesis by blast
qed

end
