(* ===== verification/Sched_Ledger.thy ===== *)
theory Sched_Ledger
  imports Sched_Cache
begin

text \<open>
  The cache as a ledger. For each resource (cpu, memory, GPUs) a node has a capacity and an amount in
  use, and a pod has a demand; the numbers are integers, read off the machine words of
  \<open>libscheduler/src/cache.rs\<close>. A cache is balanced when, on every node, the amount in use is the sum of the
  demands of the pods placed there and does not exceed the capacity. This is stronger than
  \<open>accounted\<close>, which holds in word arithmetic only: a balanced cache has wrapped nowhere. The lemmas give,
  for every cache operation, the condition under which it keeps a cache balanced.
\<close>

section \<open>Demand, use and capacity\<close>

datatype resource_kind = RCpu | RMemory | RGpu

fun demand :: "resource_kind \<Rightarrow> pod_info \<Rightarrow> int" where
  "demand RCpu p = uint (res_cpu (ps_resources (pod_spec p)))"
| "demand RMemory p = uint (res_memory (ps_resources (pod_spec p)))"
| "demand RGpu p = uint (ps_gpu_request (pod_spec p))"

fun in_use :: "resource_kind \<Rightarrow> node_info \<Rightarrow> int" where
  "in_use RCpu n = uint (res_cpu (requested n))"
| "in_use RMemory n = uint (res_memory (requested n))"
| "in_use RGpu n = (case gpu_resources n of Some g \<Rightarrow> uint (gpu_requested g) | None \<Rightarrow> 0)"

fun capacity :: "resource_kind \<Rightarrow> node_info \<Rightarrow> int" where
  "capacity RCpu n = uint (res_cpu (allocatable n))"
| "capacity RMemory n = uint (res_memory (allocatable n))"
| "capacity RGpu n = (case gpu_resources n of Some g \<Rightarrow> uint (gpu_total g) | None \<Rightarrow> 0)"

definition share :: "resource_kind \<Rightarrow> string \<Rightarrow> pod_info \<Rightarrow> int" where
  "share r k p = (if scheduled_on k p then demand r p else 0)"

definition node_balanced :: "cache \<Rightarrow> string \<Rightarrow> node_info \<Rightarrow> bool" where
  "node_balanced c k n \<longleftrightarrow>
     (\<forall>r. in_use r n = hm_sum (share r k) (cache_pods c) \<and>
        hm_sum (share r k) (cache_pods c) \<le> capacity r n)"

definition balanced :: "cache \<Rightarrow> bool" where
  "balanced c \<longleftrightarrow> (\<forall>k n. hm_get (cache_nodes c) k = Some n \<longrightarrow> node_balanced c k n)"

text \<open>Every placed pod is on a node of the cache.\<close>

definition homed :: "cache \<Rightarrow> bool" where
  "homed c \<longleftrightarrow>
     (\<forall>k p m. hm_get (cache_pods c) k = Some p \<longrightarrow> scheduled p = Some m \<longrightarrow> hm_get (cache_nodes c) m \<noteq> None)"

lemma demand_nonneg [simp]: "0 \<le> demand r p"
  by (cases r) simp_all

lemma capacity_nonneg [simp]: "0 \<le> capacity r n"
  by (cases r) (simp_all split: option.split)

lemma share_nonneg: "0 \<le> share r k p"
  by (simp add: share_def)

lemma demand_frame [simp]:
  "demand r (p\<lparr>scheduled := x\<rparr>) = demand r p" "demand r (p\<lparr>queued_info := q\<rparr>) = demand r p"
  by (cases r; simp)+

lemma share_simps [simp]:
  "share r k (p\<lparr>scheduled := Some m\<rparr>) = (if m = k then demand r p else 0)"
  "share r k (p\<lparr>scheduled := None\<rparr>) = 0"
  "share r k (p\<lparr>queued_info := q\<rparr>) = share r k p"
  by (auto simp: share_def scheduled_on_def)

lemma share_at:
  "scheduled p = None \<Longrightarrow> share r k p = 0"
  "scheduled p = Some m \<Longrightarrow> share r k p = (if m = k then demand r p else 0)"
  by (auto simp: share_def scheduled_on_def)

section \<open>Charging and releasing a node\<close>

lemma uint_add_le:
  fixes a b c :: "'a::len word"
  assumes "uint a + uint b \<le> uint c"
  shows "uint (a + b) = uint a + uint b"
  unfolding uint_word_ariths
  by (rule mod_pos_pos_trivial) (simp_all add: order.strict_trans1 [OF assms uint_bounded])

lemma uint_sub_le:
  fixes a b :: "'a::len word"
  assumes "uint b \<le> uint a"
  shows "uint (a - b) = uint a - uint b"
proof -
  have "uint a - uint b \<le> uint a" by simp
  then have "uint a - uint b < 2 ^ LENGTH('a)" by (rule order.strict_trans1) (rule uint_bounded)
  with assms show ?thesis
    unfolding uint_word_ariths by (intro mod_pos_pos_trivial) simp_all
qed

lemma uint_saturating_add_le:
  fixes a b c :: "'a::len word"
  assumes "uint a + uint b \<le> uint c"
  shows "uint (saturating_add a b) = uint a + uint b"
proof -
  have "int (unat a + unat b) < int (2 ^ LENGTH('a))"
    using order.strict_trans1 [OF assms uint_bounded] by simp
  then have "unat a + unat b < 2 ^ LENGTH('a)" by (simp only: of_nat_less_iff)
  then show ?thesis using uint_add_le [OF assms] by (simp add: saturating_add_def)
qed

lemma uint_saturating_sub_le:
  fixes a b :: "'a::len word"
  shows "uint b \<le> uint a \<Longrightarrow> uint (saturating_sub a b) = uint a - uint b"
  by (simp add: saturating_sub_def word_le_def uint_sub_le)

lemma in_use_charge:
  assumes "\<forall>r. in_use r n + demand r p \<le> capacity r n"
  shows "in_use r (charge_node p n) = in_use r n + demand r p"
proof (cases r)
  case RCpu
  then show ?thesis using assms [rule_format, of RCpu] by (simp add: uint_add_le)
next
  case RMemory
  then show ?thesis using assms [rule_format, of RMemory] by (simp add: uint_add_le)
next
  case RGpu
  have a: "in_use RGpu n + demand RGpu p \<le> capacity RGpu n" by (rule assms [rule_format])
  show ?thesis
  proof (cases "gpu_resources n")
    case None
    then have "uint (ps_gpu_request (pod_spec p)) \<le> 0" using a by simp
    then have "uint (ps_gpu_request (pod_spec p)) = 0" using uint_nonnegative order_antisym by blast
    with RGpu None show ?thesis by (simp add: charge_node_def)
  next
    case (Some g)
    with RGpu a show ?thesis
      by (auto simp: charge_node_def Let_def uint_saturating_add_le word_gt_0)
  qed
qed

lemma in_use_release:
  assumes "\<forall>r. demand r p \<le> in_use r n"
  shows "in_use r (release_node p n) = in_use r n - demand r p"
proof (cases r)
  case RCpu
  then show ?thesis using assms [rule_format, of RCpu] by (simp add: uint_sub_le)
next
  case RMemory
  then show ?thesis using assms [rule_format, of RMemory] by (simp add: uint_sub_le)
next
  case RGpu
  have a: "demand RGpu p \<le> in_use RGpu n" by (rule assms [rule_format])
  show ?thesis
  proof (cases "gpu_resources n")
    case None
    then have "uint (ps_gpu_request (pod_spec p)) \<le> 0" using a by simp
    then have "uint (ps_gpu_request (pod_spec p)) = 0" using uint_nonnegative order_antisym by blast
    with RGpu None show ?thesis by (simp add: release_node_def)
  next
    case (Some g)
    with RGpu a show ?thesis
      by (auto simp: release_node_def Let_def uint_saturating_sub_le word_gt_0)
  qed
qed

lemma capacity_charge_release [simp]:
  "capacity r (charge_node p n) = capacity r n" "capacity r (release_node p n) = capacity r n"
  by (cases r; auto simp: charge_node_def release_node_def Let_def split: option.splits)+

section \<open>Operations\<close>

lemma hm_sum_member:
  fixes g :: "'v \<Rightarrow> int"
  assumes "hm_wf m" "hm_get m k = Some v" "\<And>u. 0 \<le> g u"
  shows "g v \<le> hm_sum g m"
proof -
  have "0 \<le> hm_sum g (hm_remove k m)"
    unfolding hm_sum_def using assms(3) by (intro sum_list_nonneg) auto
  then show ?thesis using hm_sum_remove [OF assms(1), of g k] assms(2) by simp
qed

lemma hm_sum_map_values: "hm_sum g (hm_map_values f m) = hm_sum (\<lambda>v. g (f v)) m"
  by (induction m) (auto simp: hm_map_values_def)

lemma balanced_get: "balanced c \<Longrightarrow> hm_get (cache_nodes c) k = Some n \<Longrightarrow> node_balanced c k n"
  by (simp add: balanced_def)

lemma balanced_new: "balanced cache_new" "homed cache_new"
  by (simp_all add: balanced_def homed_def cache_new_def)

lemma balanced_add_fail:
  "cache_wf c \<Longrightarrow> balanced c \<Longrightarrow> balanced (fst (add_fail p c))"
  by (auto simp: add_fail_def balanced_def node_balanced_def cache_wf_def hm_sum_insert
      split: option.splits)

lemma balanced_assume:
  assumes "cache_wf c" "balanced c" "get_pod pname c = Some p" "scheduled p = None"
    and "hm_get (cache_nodes c) nname = Some n" "\<forall>r. in_use r n + demand r p \<le> capacity r n"
  shows "balanced (fst (assume_pod pname nname c))"
proof -
  note [simp] = hm_sum_insert [of "cache_pods c"] share_at(1) [OF assms(4)] in_use_charge [OF assms(6)]
  have wf: "hm_wf (cache_pods c)" using assms(1) by (simp add: cache_wf_def)
  have "node_balanced c nname n" by (rule balanced_get [OF assms(2,5)])
  then have "node_balanced (fst (assume_pod pname nname c)) nname (charge_node p n)"
    using assms(3-6) wf by (auto simp: node_balanced_def assume_pod_def get_pod_def)
  moreover have "node_balanced (fst (assume_pod pname nname c)) k m"
    if "k \<noteq> nname" "hm_get (cache_nodes c) k = Some m" for k m
    using balanced_get [OF assms(2) that(2)] assms(3-5) wf that(1)
    by (auto simp: node_balanced_def assume_pod_def get_pod_def)
  ultimately show ?thesis
    using assms(3-5) by (auto simp: balanced_def assume_pod_def get_pod_def split: if_splits)
qed

lemma balanced_member:
  assumes "cache_wf c" "balanced c" "hm_get (cache_pods c) pname = Some p" "scheduled p = Some m"
    and "hm_get (cache_nodes c) m = Some n"
  shows "demand r p \<le> in_use r n"
  using hm_sum_member [of "cache_pods c" pname p "share r m"] balanced_get [OF assms(2,5)] assms(1,3,4)
  by (simp add: cache_wf_def node_balanced_def share_nonneg share_at)

lemma balanced_release:
  assumes "cache_wf c" "balanced c" "hm_get (cache_pods c) pname = Some p" "scheduled p = Some m"
    and "hm_get (cache_nodes c) m = Some n"
    and sums: "\<And>r k. hm_sum (share r k) pods = hm_sum (share r k) (cache_pods c) - share r k p"
  shows "balanced \<lparr>cache_pods = pods, cache_nodes = hm_insert m (release_node p n) (cache_nodes c), \<dots> = x\<rparr>"
proof -
  have rel: "in_use r (release_node p n) = in_use r n - demand r p" for r
    using balanced_member [OF assms(1-5)] by (intro in_use_release) simp
  have nb: "node_balanced c k l" if "hm_get (cache_nodes c) k = Some l" for k l
    by (rule balanced_get [OF assms(2) that])
  have "in_use r n - demand r p \<le> capacity r n" for r
    using nb [OF assms(5)] demand_nonneg [of r p] by (smt (verit) node_balanced_def)
  then show ?thesis
    using nb assms(4,5) by (auto simp: balanced_def node_balanced_def sums rel share_at)
qed

lemma balanced_unassume:
  assumes "cache_wf c" "balanced c"
  shows "balanced (fst (unassume_pod pname c))"
proof -
  have wf: "hm_wf (cache_pods c)" using assms(1) by (simp add: cache_wf_def)
  have "balanced (c\<lparr>cache_pods := hm_insert pname (p\<lparr>scheduled := None\<rparr>) (cache_pods c),
      cache_nodes := hm_insert m (release_node p n) (cache_nodes c)\<rparr>)"
    if "hm_get (cache_pods c) pname = Some p" "scheduled p = Some m" "hm_get (cache_nodes c) m = Some n" for p m n
    using balanced_release [OF assms that, of "hm_insert pname (p\<lparr>scheduled := None\<rparr>) (cache_pods c)"] that
    by (cases c) (use wf in \<open>simp add: hm_sum_insert\<close>)
  then show ?thesis
    using assms by (auto simp: unassume_pod_def split: option.splits)
qed

lemma balanced_remove_pod:
  assumes "cache_wf c" "balanced c" "homed c"
  shows "balanced (fst (remove_pod pname c))"
proof -
  have wf: "hm_wf (cache_pods c)" using assms(1) by (simp add: cache_wf_def)
  consider "hm_get (cache_pods c) pname = None"
    | p where "hm_get (cache_pods c) pname = Some p" "scheduled p = None"
    | p m n where "hm_get (cache_pods c) pname = Some p" "scheduled p = Some m"
        "hm_get (cache_nodes c) m = Some n"
    using assms(3) unfolding homed_def by (metis option.exhaust)
  then show ?thesis
  proof cases
    case 1
    then show ?thesis
      using assms(2) by (auto simp: remove_pod_def balanced_def node_balanced_def hm_sum_remove [OF wf])
  next
    case (2 p)
    then show ?thesis
      using assms(2) by (auto simp: remove_pod_def balanced_def node_balanced_def hm_sum_remove [OF wf] share_at)
  next
    case (3 p m n)
    then show ?thesis
      using balanced_release [OF assms(1,2) 3, of "hm_remove pname (cache_pods c)"]
      by (cases c) (use wf in \<open>simp add: hm_sum_remove remove_pod_def\<close>)
  qed
qed

text \<open>An update of a pod keeps the ledger when placement and, for a placed pod, demand stay.\<close>

definition same_demand :: "pod_info \<Rightarrow> pod_info option \<Rightarrow> bool" where
  "same_demand p old \<longleftrightarrow>
     (case old of
        None \<Rightarrow> scheduled p = None
      | Some q \<Rightarrow>
          scheduled p = scheduled q \<and>
          (scheduled p = None \<or> demand RCpu p = demand RCpu q \<and> demand RMemory p = demand RMemory q \<and>
             demand RGpu p = demand RGpu q))"

lemma same_demand_share:
  assumes "same_demand p (Some q)"
  shows "share r k p = share r k q"
  using assms by (cases r) (auto simp: same_demand_def share_def scheduled_on_def)

lemma balanced_update_pod:
  assumes "cache_wf c" "balanced c" "same_demand p (get_pod (pod_name p) c)"
  shows "balanced (fst (update_pod p c))"
proof -
  have wf: "hm_wf (cache_pods c)" using assms(1) by (simp add: cache_wf_def)
  have "hm_sum (share r k) (hm_insert (pod_name p) p (cache_pods c)) = hm_sum (share r k) (cache_pods c)"
    for r k
    using assms(3) same_demand_share [of p _ r k]
    by (auto simp: hm_sum_insert [OF wf] get_pod_def same_demand_def share_at split: option.splits)
  then show ?thesis using assms(2) by (simp add: update_pod_def balanced_def node_balanced_def)
qed

text \<open>
  A node event keeps the ledger when a known node does not shrink below what is in use on it, and a new
  node comes with nothing in use.
\<close>

definition node_event_ok :: "cache \<Rightarrow> node_info \<Rightarrow> bool" where
  "node_event_ok c n \<longleftrightarrow>
     (case hm_get (cache_nodes c) (node_name n) of
        Some old \<Rightarrow>
          in_use RCpu old \<le> capacity RCpu n \<and> in_use RMemory old \<le> capacity RMemory n \<and>
          in_use RGpu old \<le> capacity RGpu n
      | None \<Rightarrow> in_use RCpu n = 0 \<and> in_use RMemory n = 0 \<and> in_use RGpu n = 0)"

lemma share_unknown:
  assumes "homed c" "hm_get (cache_nodes c) k = None" "cache_wf c"
  shows "hm_sum (share r k) (cache_pods c) = 0"
proof -
  have "share r k p = 0" if mem: "p \<in> set (hm_values (cache_pods c))" for p
  proof -
    obtain j where "hm_get (cache_pods c) j = Some p"
      using hm_values_get [OF _ mem] assms(3) unfolding cache_wf_def by blast
    then have "scheduled p \<noteq> Some k" using assms(1,2) unfolding homed_def by blast
    then show ?thesis by (simp add: share_def scheduled_on_def)
  qed
  then show ?thesis unfolding hm_sum_def by (metis sum_list_0 map_cong)
qed

lemma node_balanced_insert:
  "node_balanced (c\<lparr>cache_nodes := m\<rparr>) k n = node_balanced c k n"
  by (simp add: node_balanced_def)

lemma balanced_insert_node:
  assumes "balanced c" "node_balanced c k n"
  shows "balanced (c\<lparr>cache_nodes := hm_insert k n (cache_nodes c)\<rparr>)"
  using assms by (simp add: balanced_def node_balanced_insert)

lemma new_node_balanced:
  assumes "cache_wf c" "homed c" "hm_get (cache_nodes c) (node_name n) = None" "node_event_ok c n"
  shows "node_balanced c (node_name n) n"
proof -
  have "in_use r n = 0" for r using assms(3,4) by (cases r) (simp_all add: node_event_ok_def)
  then show ?thesis
    by (simp add: node_balanced_def share_unknown [OF assms(2,3,1)])
qed

lemma balanced_update_node:
  assumes "cache_wf c" "balanced c" "homed c" "node_event_ok c n"
  shows "balanced (fst (update_node n c))"
proof (cases "hm_get (cache_nodes c) (node_name n)")
  case None
  then show ?thesis
    using balanced_insert_node [OF assms(2) new_node_balanced [OF assms(1,3) None assms(4)]]
    by (simp add: update_node_def)
next
  case (Some old)
  let ?new = "old\<lparr>node_labels := node_labels n, node_spec := node_spec n, allocatable := allocatable n,
    requested := requested old,
    gpu_resources := map_option (\<lambda>g. g\<lparr>gpu_requested :=
      (case gpu_resources old of Some g \<Rightarrow> gpu_requested g | None \<Rightarrow> 0)\<rparr>) (gpu_resources n)\<rparr>"
  have ok: "in_use r old \<le> capacity r n" for r
    using assms(4) Some by (cases r) (simp_all add: node_event_ok_def)
  have "0 \<le> in_use RGpu old" by (simp split: option.split)
  then have use: "in_use r ?new = in_use r old" for r
    using ok [of r] by (cases r) (auto split: option.splits)
  have cap: "capacity r ?new = capacity r n" for r
    by (cases r) (auto split: option.splits)
  have "node_balanced c (node_name n) ?new"
    using balanced_get [OF assms(2) Some] ok unfolding node_balanced_def use cap by simp
  from balanced_insert_node [OF assms(2) this] Some show ?thesis
    by (simp add: update_node_def Let_def)
qed

lemma hm_sum_share_pop:
  "hm_sum (share r k) (cache_pods (fst (pop_pod_on_node n c))) =
     (if k = n then 0 else hm_sum (share r k) (cache_pods c))"
proof -
  let ?clear = "\<lambda>p. if scheduled_on n p
    then p\<lparr>scheduled := None, queued_info := (queued_info p)\<lparr>attempts := 0\<rparr>\<rparr> else p"
  have "share r k (?clear p) = (if k = n then 0 else share r k p)" for p
    by (auto simp: share_def scheduled_on_def)
  then have "hm_sum (share r k) (hm_map_values ?clear m) = hm_sum (\<lambda>p. if k = n then 0 else share r k p) m"
    for m :: "(string, pod_info) hashmap"
    by (simp only: hm_sum_map_values)
  then show ?thesis by (simp add: pop_pod_on_node_def hm_sum_def)
qed

lemma balanced_pop_remove_node:
  assumes "balanced c"
  shows "balanced (remove_node n (fst (pop_pod_on_node n c)))"
  using assms hm_sum_share_pop [of _ _ n c]
  by (auto simp: remove_node_def balanced_def node_balanced_def pop_pod_on_node_def split: if_splits)

text \<open>\<open>set_nodes\<close> on nodes that the cache does not have.\<close>

definition nodes_new :: "cache \<Rightarrow> node_info list \<Rightarrow> bool" where
  "nodes_new c ns \<longleftrightarrow>
     distinct (map node_name ns) \<and>
     (\<forall>n\<in>set ns. hm_get (cache_nodes c) (node_name n) = None \<and> node_event_ok c n)"

lemma set_nodes_Cons:
  "set_nodes (n # ns) c = set_nodes ns (c\<lparr>cache_nodes := hm_insert (node_name n) n (cache_nodes c)\<rparr>)"
  by (simp add: set_nodes_def)

lemma balanced_set_nodes:
  "cache_wf c \<Longrightarrow> balanced c \<Longrightarrow> homed c \<Longrightarrow> nodes_new c ns \<Longrightarrow> balanced (set_nodes ns c)"
proof (induction ns arbitrary: c)
  case Nil
  then show ?case by (simp add: set_nodes_def)
next
  case (Cons n ns)
  let ?c = "c\<lparr>cache_nodes := hm_insert (node_name n) n (cache_nodes c)\<rparr>"
  have n: "hm_get (cache_nodes c) (node_name n) = None" "node_event_ok c n"
    using Cons.prems(4) by (simp_all add: nodes_new_def)
  have "balanced ?c"
    by (rule balanced_insert_node [OF Cons.prems(2) new_node_balanced [OF Cons.prems(1,3) n]])
  moreover have "cache_wf ?c" "homed ?c"
    using Cons.prems(1,3) by (auto simp: cache_wf_def homed_def)
  moreover have "hm_get (cache_nodes ?c) (node_name l) = hm_get (cache_nodes c) (node_name l)"
    if "l \<in> set ns" for l
  proof -
    have "node_name l \<in> node_name ` set ns" using that by (rule imageI)
    then show ?thesis using Cons.prems(4) by (auto simp: nodes_new_def)
  qed
  then have "node_event_ok ?c l = node_event_ok c l \<and> hm_get (cache_nodes ?c) (node_name l) = hm_get (cache_nodes c) (node_name l)"
    if "l \<in> set ns" for l
    using that unfolding node_event_ok_def by presburger
  then have "nodes_new ?c ns"
    using Cons.prems(4) unfolding nodes_new_def by simp
  ultimately show ?case using Cons.IH by (simp add: set_nodes_Cons)
qed

section \<open>Placed pods have a home\<close>

lemma homed_add_fail: "homed c \<Longrightarrow> homed (fst (add_fail p c))"
  by (auto simp: homed_def add_fail_def split: option.splits if_splits)

lemma homed_assume: "homed c \<Longrightarrow> homed (fst (assume_pod p n c))"
  by (auto simp: homed_def assume_pod_def split: option.splits if_splits)

lemma homed_unassume: "homed c \<Longrightarrow> homed (fst (unassume_pod p c))"
  by (auto simp: homed_def unassume_pod_def split: option.splits if_splits)

lemma homed_remove_pod: "homed c \<Longrightarrow> homed (fst (remove_pod p c))"
  by (auto simp: homed_def remove_pod_def Let_def split: option.splits if_splits)

lemma homed_update_pod:
  "homed c \<Longrightarrow> same_demand p (get_pod (pod_name p) c) \<Longrightarrow> homed (fst (update_pod p c))"
  by (auto simp: homed_def update_pod_def same_demand_def get_pod_def split: option.splits if_splits)

lemma homed_update_node: "homed c \<Longrightarrow> homed (fst (update_node n c))"
  by (auto simp: homed_def update_node_def Let_def split: option.splits if_splits)

lemma homed_set_nodes: "homed c \<Longrightarrow> homed (set_nodes ns c)"
proof (induction ns arbitrary: c)
  case Nil
  then show ?case by (simp add: set_nodes_def)
next
  case (Cons n ns)
  have "homed (c\<lparr>cache_nodes := hm_insert (node_name n) n (cache_nodes c)\<rparr>)"
    using Cons.prems by (auto simp: homed_def)
  then show ?case by (simp add: set_nodes_Cons Cons.IH)
qed

lemma homed_pop_remove_node:
  assumes "homed c"
  shows "homed (remove_node n (fst (pop_pod_on_node n c)))"
proof -
  have "hm_get (cache_nodes c) m \<noteq> None \<and> m \<noteq> n"
    if get: "hm_get (cache_pods (fst (pop_pod_on_node n c))) k = Some p" and sch: "scheduled p = Some m" for k p m
  proof -
    obtain z where z: "hm_get (cache_pods c) k = Some z"
      and p: "p = (if scheduled_on n z then z\<lparr>scheduled := None, queued_info := (queued_info z)\<lparr>attempts := 0\<rparr>\<rparr> else z)"
      using get by (auto simp: pop_pod_on_node_def)
    have "\<not> scheduled_on n z" using p sch by (auto split: if_splits)
    then show ?thesis
      using z p sch assms unfolding homed_def scheduled_on_def by metis
  qed
  then show ?thesis
    unfolding homed_def remove_node_def by (simp add: pop_pod_on_node_def)
qed

lemmas homed_ops =
  homed_add_fail homed_assume homed_unassume homed_remove_pod homed_update_node homed_set_nodes
  homed_pop_remove_node

section \<open>The predicates of the plugins in terms of the ledger\<close>

lemma balanced_within:
  assumes "node_balanced c k n"
  shows "within_allocatable n"
proof -
  have "in_use RCpu n \<le> capacity RCpu n" "in_use RMemory n \<le> capacity RMemory n"
    using assms by (simp_all only: node_balanced_def)
  then show ?thesis by (simp add: within_allocatable_def word_le_def)
qed

lemma fits_ledger:
  assumes "within_allocatable n" "is_fit (ps_resources (pod_spec p)) n" "is_gpu_fit p n"
    and "in_use RGpu n \<le> capacity RGpu n"
  shows "in_use r n + demand r p \<le> capacity r n"
proof -
  have nat_int: "unat a + unat b \<le> unat c \<Longrightarrow> uint a + uint b \<le> uint c" for a b c :: "'a::len word"
    unfolding uint_nat of_nat_add [symmetric] of_nat_le_iff .
  show ?thesis
  proof (cases r)
    case RGpu
    then show ?thesis
      using assms(3,4) nat_int
      by (auto simp: is_gpu_fit_iff split: option.splits)
  qed (use is_fit_iff [OF assms(1)] assms(2) nat_int in auto)
qed

end
