(* ===== verification/Sched_Step.thy ===== *)
theory Sched_Step
  imports Sched_Examples Sched_Ledger
begin

text \<open>
  The scheduler as a transition system. The scheduling loop, the timers of the queue, the gang watchdog, the
  calls of the watch loop and the iteration order of the hash maps interleave freely; each handler runs
  under its locks and is one step. Two invariants are carried through:
  \<open>sched_wf\<close> holds in every execution (maps well-formed, no complete gang is held back in the store);
  \<open>sched_sound\<close> holds in every execution whose events are \<open>disciplined\<close> (the ledger of the cache is
  balanced, and a pod waits in the queue at most once and only while it is not placed).
\<close>

section \<open>Steps\<close>

datatype sched_event =
    ScheduleOne instant
  | Unassume string
  | GangWatchdog instant
  | FlushBackoff instant
  | FlushUnschedulable instant
  | UpdatePod pod_info
  | RemovePod string
  | SetNodes "node_info list"
  | UpdateNode node_info
  | RemoveNode string
  | Rehash

text \<open>
  The iteration order of a map is open: a step may permute the maps of the cache, the gang store and the
  members of each gang.
\<close>

definition gang_rehash :: "gang_store \<Rightarrow> gang_store \<Rightarrow> bool" where
  "gang_rehash gs gs' \<longleftrightarrow>
     (\<exists>gs0. mset gs0 = mset gs \<and>
        list_all2
          (\<lambda>(g, e) (g', e'). g' = g \<and> ge_size e' = ge_size e \<and> ge_created_at e' = ge_created_at e \<and>
             mset (ge_assumed e') = mset (ge_assumed e))
          gs0 gs')"

inductive sched_step :: "scheduler \<Rightarrow> sched_event \<Rightarrow> scheduler \<Rightarrow> bool" where
  step_schedule: "sch_alive s \<Longrightarrow> sched_step s (ScheduleOne now) (schedule_one now s)"
| step_unassume: "sched_step s (Unassume pname) (unassume pname s)"
| step_watchdog: "sched_step s (GangWatchdog now) (gang_watchdog now s)"
| step_flush_backoff:
    "sched_step s (FlushBackoff now) (s\<lparr>sch_queue := flush_backoff_completed now (sch_queue s)\<rparr>)"
| step_flush_unschedulable:
    "sched_step s (FlushUnschedulable now)
       (s\<lparr>sch_queue := flush_unschedulable_left_over now (sch_queue s)\<rparr>)"
| step_update_pod: "sched_step s (UpdatePod p) (update_cache_pod p s)"
| step_remove_pod: "sched_step s (RemovePod pname) (remove_cache_pod pname s)"
| step_set_nodes:
    "\<forall>n\<in>set ns. hm_wf (node_labels n) \<Longrightarrow> sched_step s (SetNodes ns) (set_cache_node ns s)"
| step_update_node:
    "hm_wf (node_labels n) \<Longrightarrow> sched_step s (UpdateNode n) (update_cache_node n s)"
| step_remove_node: "sched_step s (RemoveNode nname) (remove_cache_node nname s)"
| step_rehash:
    "mset ps = mset (cache_pods (sch_cache s)) \<Longrightarrow> mset ns = mset (cache_nodes (sch_cache s)) \<Longrightarrow>
     gang_rehash (sch_gang s) gs \<Longrightarrow>
     sched_step s Rehash
       (s\<lparr>sch_cache := \<lparr>cache_pods = ps, cache_nodes = ns\<rparr>, sch_gang := gs\<rparr>)"

inductive_cases sched_stepE: "sched_step s e s'"

text \<open>States an execution from a new scheduler with the default plugins can reach.\<close>

inductive reachable :: "scheduler \<Rightarrow> bool" where
  reach_new: "reachable (scheduler_new strategy plugins_default)"
| reach_step: "reachable s \<Longrightarrow> sched_step s e s' \<Longrightarrow> reachable s'"

section \<open>Rehashing\<close>

lemma hm_rehash:
  assumes "hm_wf m" "mset m' = mset m"
  shows "hm_wf m'" "hm_get m' = hm_get m" "hm_sum g m' = hm_sum g m" "set (hm_values m') = set (hm_values m)"
proof -
  show wf: "hm_wf m'"
    using assms by (simp add: hm_wf_def) (metis mset_map mset_eq_imp_distinct_iff)
  show "hm_get m' = hm_get m"
    using assms wf unfolding hm_get_def hm_wf_def by (metis map_of_eqI set_mset_mset map_of_inject_set)
  show "hm_sum g m' = hm_sum g m"
    unfolding hm_sum_def hm_values_def sum_mset_sum_list [symmetric] by (simp add: assms(2))
  show "set (hm_values m') = set (hm_values m)"
    unfolding hm_values_def using mset_eq_setD [OF assms(2)] by simp
qed

section \<open>Well-formed states\<close>

text \<open>A gang in the store still waits for members: its entry has fewer pods than its size.\<close>

definition gangs_incomplete :: "gang_store \<Rightarrow> bool" where
  "gangs_incomplete gs \<longleftrightarrow>
     (\<forall>g e. hm_get gs g = Some e \<longrightarrow> length (ge_assumed e) < unat (ge_size e))"

definition labels_wf :: "cache \<Rightarrow> bool" where
  "labels_wf c \<longleftrightarrow> (\<forall>k n. hm_get (cache_nodes c) k = Some n \<longrightarrow> hm_wf (node_labels n))"

definition sched_wf :: "scheduler \<Rightarrow> bool" where
  "sched_wf s \<longleftrightarrow>
     cache_wf (sch_cache s) \<and> gang_wf (sch_gang s) \<and> gangs_incomplete (sch_gang s) \<and>
     labels_wf (sch_cache s) \<and> sch_plugins s = plugins_default"

lemma sched_wf_new: "sched_wf (scheduler_new strategy plugins_default)"
  using cache_wf_new
  by (simp add: sched_wf_def scheduler_new_def cache_new_def labels_wf_def gangs_incomplete_def gang_wf_def hm_values_def)

lemma length_hm_insert:
  "length (hm_insert k v m) = (if hm_get m k = None then Suc (length m) else length m)"
  by (induction m) (auto simp: hm_insert_def hm_get_def)

text \<open>The entry of a gang after a member is added has at most its size, and exactly its size when full.\<close>

lemma add_member_entry:
  assumes "gangs_incomplete gs"
    and "e = gang_entry_or_new now gid sz gs"
    and "e' = e\<lparr>ge_assumed := hm_insert pod node (ge_assumed e)\<rparr>"
  shows "gang_full e' \<longleftrightarrow> unat (ge_size e) \<le> length (ge_assumed e')"
    and "gang_full e' \<Longrightarrow> length (ge_assumed e') = max 1 (unat (ge_size e))"
proof -
  have "length (ge_assumed e) < max 1 (unat (ge_size e))"
    using assms(1,2) by (auto simp: gangs_incomplete_def gang_entry_or_new_def less_max_iff_disj
        split: option.splits)
  then have len: "length (ge_assumed e') \<le> max 1 (unat (ge_size e))" "0 < length (ge_assumed e')"
    using assms(3) by (cases "ge_assumed e"; simp add: length_hm_insert)+
  have "unat (ge_size e) < 2 ^ 32" using unsigned_less [of "ge_size e", where 'a = nat] by simp
  then have "length (ge_assumed e') < 2 ^ 32" using len(1) by simp
  then have "unat (of_nat (length (ge_assumed e')) :: u32) = length (ge_assumed e')"
    by (simp add: unsigned_of_nat take_bit_nat_eq_self)
  then show full: "gang_full e' \<longleftrightarrow> unat (ge_size e) \<le> length (ge_assumed e')"
    using assms(3) by (simp add: gang_full_def word_le_nat_alt)
  show "gang_full e' \<Longrightarrow> length (ge_assumed e') = max 1 (unat (ge_size e))"
    using full [THEN iffD1] len by linarith
qed

lemma gangs_incomplete_remove: "gangs_incomplete gs \<Longrightarrow> gangs_incomplete (hm_remove g gs)"
  by (auto simp: gangs_incomplete_def split: if_splits)

lemma gangs_incomplete_add:
  assumes "gangs_incomplete gs" "add_member now gid sz pod node gs = (gs', full)"
  shows "gangs_incomplete (if full then hm_remove gid gs' else gs')"
proof -
  define e where "e = gang_entry_or_new now gid sz gs"
  define e' where "e' = e\<lparr>ge_assumed := hm_insert pod node (ge_assumed e)\<rparr>"
  have gs': "gs' = hm_insert gid e' gs" "full = gang_full e'"
    using assms(2) by (auto simp: add_member_def Let_def e_def e'_def)
  have size: "ge_size e' = ge_size e" by (simp add: e'_def)
  show ?thesis
    using assms(1) add_member_entry(1) [OF assms(1) e_def e'_def] size
    by (auto simp: gs' gangs_incomplete_def not_le split: if_splits)
qed

lemma gangs_incomplete_take_ids: "gangs_incomplete gs \<Longrightarrow> gangs_incomplete (fst (take_ids is gs))"
  by (simp add: gangs_incomplete_def hm_get_take_ids)

lemma gang_rehash_get:
  assumes "gang_rehash gs gs'" "gang_wf gs"
  shows "hm_wf gs'" "gang_wf gs'"
    and "rel_option (\<lambda>e e'. ge_size e' = ge_size e \<and> mset (ge_assumed e') = mset (ge_assumed e))
           (hm_get gs g) (hm_get gs' g)"
proof -
  obtain gs0 where gs0: "mset gs0 = mset gs"
    and all: "list_all2 (\<lambda>(g, e) (g', e'). g' = g \<and> ge_size e' = ge_size e \<and>
      ge_created_at e' = ge_created_at e \<and> mset (ge_assumed e') = mset (ge_assumed e)) gs0 gs'"
    using assms(1) by (auto simp: gang_rehash_def)
  have wf: "hm_wf gs" using assms(2) by (simp add: gang_wf_def)
  note perm = hm_rehash [OF wf gs0]
  from all have "map fst gs' = map fst gs0 \<and>
      rel_option (\<lambda>e e'. ge_size e' = ge_size e \<and> mset (ge_assumed e') = mset (ge_assumed e))
        (hm_get gs0 g) (hm_get gs' g) \<and>
      (\<forall>e'\<in>set (hm_values gs'). \<exists>e\<in>set (hm_values gs0). mset (ge_assumed e') = mset (ge_assumed e))"
    by induction (auto simp: hm_get_def hm_values_def)
  then have keys: "map fst gs' = map fst gs0"
    and rel: "rel_option (\<lambda>e e'. ge_size e' = ge_size e \<and> mset (ge_assumed e') = mset (ge_assumed e))
        (hm_get gs0 g) (hm_get gs' g)"
    and vals: "\<forall>e'\<in>set (hm_values gs'). \<exists>e\<in>set (hm_values gs0). mset (ge_assumed e') = mset (ge_assumed e)"
    by auto
  show wf': "hm_wf gs'" using perm(1) keys by (simp add: hm_wf_def)
  show "rel_option (\<lambda>e e'. ge_size e' = ge_size e \<and> mset (ge_assumed e') = mset (ge_assumed e))
      (hm_get gs g) (hm_get gs' g)"
    using rel perm(2) by simp
  have "hm_wf (ge_assumed e')" if "e' \<in> set (hm_values gs')" for e'
  proof -
    obtain e where "e \<in> set (hm_values gs)" "mset (ge_assumed e') = mset (ge_assumed e)"
      using vals \<open>e' \<in> _\<close> perm(4) by blast
    then show ?thesis using assms(2) hm_rehash(1) by (auto simp: gang_wf_def)
  qed
  then show "gang_wf gs'" using wf' by (simp add: gang_wf_def)
qed

lemma gangs_incomplete_rehash:
  assumes "gang_rehash gs gs'" "gang_wf gs" "gangs_incomplete gs"
  shows "gangs_incomplete gs'"
  unfolding gangs_incomplete_def
proof (intro allI impI)
  fix g e'
  assume "hm_get gs' g = Some e'"
  with gang_rehash_get(3) [OF assms(1,2), of g]
  obtain e where "hm_get gs g = Some e" "ge_size e' = ge_size e" "mset (ge_assumed e') = mset (ge_assumed e)"
    by (auto simp: option_rel_Some2)
  then show "length (ge_assumed e') < unat (ge_size e')"
    using assms(3) mset_eq_length by (fastforce simp: gangs_incomplete_def)
qed

section \<open>Every step keeps a state well-formed\<close>

lemma labels_wf_ops:
  "labels_wf c \<Longrightarrow> labels_wf (fst (add_fail p c))"
  "labels_wf c \<Longrightarrow> labels_wf (fst (assume_pod p m c))"
  "labels_wf c \<Longrightarrow> labels_wf (fst (unassume_pod p c))"
  "labels_wf c \<Longrightarrow> labels_wf (fst (update_pod pod c))"
  "labels_wf c \<Longrightarrow> labels_wf (fst (remove_pod p c))"
  "labels_wf c \<Longrightarrow> hm_wf (node_labels n) \<Longrightarrow> labels_wf (fst (update_node n c))"
  "labels_wf c \<Longrightarrow> labels_wf (remove_node m (fst (pop_pod_on_node m c)))"
  by (auto simp: labels_wf_def cache_op_defs Let_def split: option.splits if_splits)

lemma labels_wf_set_nodes:
  "labels_wf c \<Longrightarrow> \<forall>n\<in>set ns. hm_wf (node_labels n) \<Longrightarrow> labels_wf (set_nodes ns c)"
proof (induction ns arbitrary: c)
  case Nil
  then show ?case by (simp add: set_nodes_def)
next
  case (Cons n ns)
  have "labels_wf (c\<lparr>cache_nodes := hm_insert (node_name n) n (cache_nodes c)\<rparr>)"
    using Cons.prems by (auto simp: labels_wf_def)
  then show ?case using Cons by (simp add: set_nodes_Cons)
qed

lemma unassume_all_induct:
  assumes "\<And>c p. P c \<Longrightarrow> P (fst (unassume_pod p c))" "P c"
  shows "P (fst (unassume_all ns c))"
  using assms(2)
proof (induction ns c rule: unassume_all.induct)
  case (1 c)
  then show ?case by simp
next
  case (2 n ns c)
  obtain c' r where u: "unassume_pod n c = (c', r)" by (metis prod.exhaust)
  have "P c'" using assms(1) [OF "2.prems", of n] by (simp add: u)
  then show ?case
    using "2.IH"(1) [OF u [symmetric]] "2.IH"(2) [OF u [symmetric]]
    by (cases r) (auto simp: u split: prod.splits)
qed

lemma sched_wf_frame:
  assumes "sched_wf s" "sch_cache s' = sch_cache s" "sch_gang s' = sch_gang s" "sch_plugins s' = sch_plugins s"
  shows "sched_wf s'"
  using assms by (simp add: sched_wf_def)

lemma sched_wf_cache:
  assumes "sched_wf s" "cache_wf (sch_cache s')" "labels_wf (sch_cache s')"
    and "sch_gang s' = sch_gang s" "sch_plugins s' = sch_plugins s"
  shows "sched_wf s'"
  using assms by (simp add: sched_wf_def)

lemma sched_wfD:
  assumes "sched_wf s"
  shows "cache_wf (sch_cache s)" "labels_wf (sch_cache s)" "gang_wf (sch_gang s)"
    "gangs_incomplete (sch_gang s)" "sch_plugins s = plugins_default"
  using assms by (simp_all add: sched_wf_def)

lemma commit_choice_gang:
  "sch_gang (commit_choice now pod pname chosen s) =
     (case (snd (assume_pod pname chosen (sch_cache s)), ps_gang (pod_spec pod)) of
        (True, Some g) \<Rightarrow>
          (let (gs, full) = add_member now (gang_id g) (gang_size g) pname chosen (sch_gang s)
           in if full then hm_remove (gang_id g) gs else gs)
      | _ \<Rightarrow> sch_gang s)"
  by (auto simp: commit_choice_def send_assignments_def take_and_clear_def Let_def
      split: prod.splits option.splits bool.splits)

lemma commit_choice_frame [simp]:
  "sch_plugins (commit_choice now pod pname chosen s) = sch_plugins s"
  by (auto simp: commit_choice_def send_assignments_def Let_def split: prod.splits option.splits bool.splits)

lemma sched_wf_commit:
  assumes "sched_wf s"
  shows "sched_wf (commit_choice now pod pname chosen s)"
proof -
  let ?ok = "\<lambda>gs. gang_wf gs \<and> gangs_incomplete gs"
  have "?ok (if full then hm_remove gid gs else gs)"
    if "add_member now gid sz pname chosen (sch_gang s) = (gs, full)" for gid sz gs full
    using gang_wf_add_member [OF sched_wfD(3) [OF assms], of now gid sz pname chosen] gang_wf_remove [of gs gid]
      gangs_incomplete_add [OF sched_wfD(4) [OF assms] that] that
    by simp
  then have "?ok (sch_gang (commit_choice now pod pname chosen s))"
    using sched_wfD(3,4) [OF assms] unfolding commit_choice_gang
    by (simp split: option.split bool.split prod.split)
  then show ?thesis
    using assms by (simp add: sched_wf_def commit_choice_cache cache_wf_ops labels_wf_ops)
qed

lemma sched_wf_queue [simp]: "sched_wf (s\<lparr>sch_queue := q\<rparr>) = sched_wf s"
  by (simp add: sched_wf_def)

lemma sched_wf_break_cycle: "sched_wf s \<Longrightarrow> sched_wf (break_cycle f p n s)"
  by (simp add: sched_wf_def cache_wf_ops labels_wf_ops)

lemma sched_wf_schedule_one: "sched_wf s \<Longrightarrow> sched_wf (schedule_one now s)"
  by (auto simp: schedule_one_def Let_def sched_wf_commit sched_wf_break_cycle
      split: option.splits prod.splits cycle_outcome.splits)

lemma sched_wf_unassume: "sched_wf s \<Longrightarrow> sched_wf (unassume pname s)"
proof -
  assume wf: "sched_wf s"
  obtain c r where u: "unassume_pod pname (sch_cache s) = (c, r)" by (metis prod.exhaust)
  have "cache_wf c" "labels_wf c"
    using cache_wf_unassume [OF sched_wfD(1) [OF wf], of pname] labels_wf_ops(3) [OF sched_wfD(2) [OF wf], of pname]
    by (simp_all add: u)
  then show ?thesis
    using wf by (auto simp: unassume_def u sched_wf_def split: option.splits)
qed

lemma sched_wf_watchdog: "sched_wf s \<Longrightarrow> sched_wf (gang_watchdog now s)"
proof -
  assume wf: "sched_wf s"
  let ?gs = "fst (take_timed_out now (sch_gang_timeout s) (sch_gang s))"
  have g: "gang_wf ?gs" "gangs_incomplete ?gs"
    using gang_wf_take_timed_out [OF sched_wfD(3) [OF wf]] gangs_incomplete_take_ids [OF sched_wfD(4) [OF wf]]
    by (simp_all add: take_timed_out_def)
  have c: "cache_wf (fst (unassume_all ns (sch_cache s))) \<and> labels_wf (fst (unassume_all ns (sch_cache s)))" for ns
    using unassume_all_induct [of "\<lambda>c. cache_wf c \<and> labels_wf c"] sched_wfD(1,2) [OF wf]
    by (simp add: cache_wf_ops labels_wf_ops)
  show ?thesis
    using wf g c by (auto simp: gang_watchdog_def sched_wf_def Let_def split: prod.splits)
       (metis fst_conv)+
qed

text \<open>The remaining handlers, through their effect on the cache.\<close>

lemma update_cache_pod_cache:
  "sch_cache (update_cache_pod pod s) =
     (case scheduled pod of
        None \<Rightarrow> fst (update_pod pod (sch_cache s))
      | Some m \<Rightarrow> fst (assume_pod (pod_name pod) m (fst (update_pod pod (sch_cache s)))))"
  by (auto simp: update_cache_pod_def Let_def split: option.splits prod.splits)

lemma handler_frames [simp]:
  "sch_gang (update_cache_pod pod s) = sch_gang s" "sch_plugins (update_cache_pod pod s) = sch_plugins s"
  "sch_gang (remove_cache_pod pn s) = sch_gang s" "sch_plugins (remove_cache_pod pn s) = sch_plugins s"
  "sch_gang (set_cache_node ns s) = sch_gang s" "sch_plugins (set_cache_node ns s) = sch_plugins s"
  "sch_gang (update_cache_node n s) = sch_gang s" "sch_plugins (update_cache_node n s) = sch_plugins s"
  "sch_gang (remove_cache_node nn s) = sch_gang s" "sch_plugins (remove_cache_node nn s) = sch_plugins s"
  "sch_cache (remove_cache_pod pn s) = fst (remove_pod pn (sch_cache s))"
  "sch_cache (set_cache_node ns s) = set_nodes ns (sch_cache s)"
  "sch_cache (update_cache_node n s) = fst (update_node n (sch_cache s))"
  "sch_cache (remove_cache_node nn s) = remove_node nn (fst (pop_pod_on_node nn (sch_cache s)))"
  by (auto simp: update_cache_pod_def remove_cache_pod_def set_cache_node_def update_cache_node_def
      remove_cache_node_def Let_def split: option.splits prod.splits)

lemma cache_wf_rehash:
  assumes "cache_wf c" "mset ps = mset (cache_pods c)" "mset ns = mset (cache_nodes c)"
  shows "cache_wf \<lparr>cache_pods = ps, cache_nodes = ns\<rparr>"
    "hm_get ps = hm_get (cache_pods c)" "hm_get ns = hm_get (cache_nodes c)"
proof -
  have wf: "hm_wf (cache_pods c)" "hm_wf (cache_nodes c)" using assms(1) by (simp_all add: cache_wf_def)
  note p = hm_rehash(1,2) [OF wf(1) assms(2)] and n = hm_rehash(1,2) [OF wf(2) assms(3)]
  show "hm_get ps = hm_get (cache_pods c)" "hm_get ns = hm_get (cache_nodes c)" by (fact p(2) n(2))+
  show "cache_wf \<lparr>cache_pods = ps, cache_nodes = ns\<rparr>"
    using assms(1) p n by (simp add: cache_wf_def)
qed

lemma sched_wf_step: "sched_step s e s' \<Longrightarrow> sched_wf s \<Longrightarrow> sched_wf s'"
proof (induction rule: sched_step.induct)
  case (step_update_pod s p)
  then show ?case
    by (simp add: sched_wf_def update_cache_pod_cache cache_wf_ops labels_wf_ops split: option.split)
next
  case (step_rehash ps s ns gs)
  note d = sched_wfD [OF step_rehash.prems]
  show ?case
    using cache_wf_rehash [OF d(1) step_rehash.hyps(1,2)] d
      gang_rehash_get(2) [OF step_rehash.hyps(3) d(3)] gangs_incomplete_rehash [OF step_rehash.hyps(3) d(3,4)]
    by (simp add: sched_wf_def labels_wf_def)
next
  case (step_schedule s now)
  then show ?case by (simp add: sched_wf_schedule_one)
next
  case (step_unassume s pname)
  then show ?case by (rule sched_wf_unassume)
next
  case (step_watchdog s now)
  then show ?case by (rule sched_wf_watchdog)
qed (simp_all add: sched_wf_def cache_wf_ops labels_wf_ops labels_wf_set_nodes)

lemma reachable_wf: "reachable s \<Longrightarrow> sched_wf s"
  by (induction rule: reachable.induct) (auto intro: sched_wf_new sched_wf_step)

section \<open>Pods that wait\<close>

definition waiting :: "scheduling_queue \<Rightarrow> string multiset" where
  "waiting q = image_mset snd (queued_pods q)"

text \<open>Each name waits at most once, and the pod of a waiting name is not placed.\<close>

definition settled :: "cache \<Rightarrow> string multiset \<Rightarrow> bool" where
  "settled c W \<longleftrightarrow>
     (\<forall>k. count W k \<le> 1) \<and>
     (\<forall>k p. k \<in># W \<longrightarrow> hm_get (cache_pods c) k = Some p \<longrightarrow> scheduled p = None)"

lemma settled_mono: "settled c W \<Longrightarrow> V \<subseteq># W \<Longrightarrow> settled c V"
  unfolding settled_def by (meson mset_subset_eqD mset_subset_eq_count order_trans)

lemma settled_add:
  assumes "settled c W" "k \<notin># W" "\<And>p. hm_get (cache_pods c) k = Some p \<Longrightarrow> scheduled p = None"
  shows "settled c (add_mset k W)"
  using assms by (auto simp: settled_def not_in_iff)

text \<open>A change of the cache that places no waiting pod.\<close>

lemma settled_cache:
  assumes "settled c W"
    and "\<And>k p'. k \<in># W \<Longrightarrow> hm_get (cache_pods c') k = Some p' \<Longrightarrow>
           (case hm_get (cache_pods c) k of None \<Rightarrow> scheduled p' = None | Some p \<Rightarrow> scheduled p' = scheduled p \<or> scheduled p' = None)"
  shows "settled c' W"
  using assms unfolding settled_def by (fastforce split: option.splits)

lemma waiting_simps [simp]:
  "waiting (add_count q) = waiting q" "waiting (queue_push n p q) = add_mset n (waiting q)"
  "waiting (flush_backoff_completed now q) = waiting q" "waiting (hint e pods q) = waiting q"
  by (simp_all add: waiting_def queued_pods_flush_backoff queued_pods_hint)

lemma waiting_next_pod: "next_pod q = Some ((pr, n), q') \<Longrightarrow> waiting q = add_mset n (waiting q')"
  using next_pod_Some(1) [of q "(pr, n)" q'] by (simp add: waiting_def)

lemma waiting_push_failed:
  "push_backoff now p q = Some q' \<Longrightarrow> waiting q' = add_mset (pod_name p) (waiting q)"
  "push_unschedulable now p q = Some q' \<Longrightarrow> waiting q' = add_mset (pod_name p) (waiting q)"
  by (simp_all add: waiting_def push_backoff_pods push_unschedulable_pods)

lemma waiting_fold_push:
  "waiting (fold (\<lambda>(name, priority). queue_push name priority) xs q) = waiting q + mset (map fst xs)"
  "waiting (fold (\<lambda>(priority, name). queue_push name priority) ys q) = waiting q + mset (map snd ys)"
  by (induction xs arbitrary: q; auto) (induction ys arbitrary: q; auto)

text \<open>The flush of the unschedulable pods moves a pod or drops it.\<close>

lemma flush_unschedulable_fold:
  fixes xs :: "(backoff_pod \<times> instant) list"
  assumes "fold (\<lambda>(p, t) (a, b). if now - t > d
      then (if now \<ge> bo_expire p then (heap_push (bo_pod p) a, b) else (a, heap_push p b)) else (a, b))
      xs (a, b) = (a', b')"
  shows "mset a' + image_mset bo_pod (mset b') =
           mset a + image_mset bo_pod (mset b)
           + image_mset (\<lambda>p. bo_pod (fst p)) (mset (filter (\<lambda>(p, t). now - t > d) xs))"
  using assms
proof (induction xs arbitrary: a b)
  case Nil
  then show ?case by simp
next
  case (Cons x xs)
  then show ?case
    by (cases x) (fastforce simp: heap_push_def split: if_splits)
qed

lemma queued_pods_flush_unschedulable:
  "queued_pods (flush_unschedulable_left_over now q) =
     mset (active_queue q) + image_mset bo_pod (mset (backoff_queue q))
     + image_mset (\<lambda>p. bo_pod (fst p))
         (mset (filter (\<lambda>(p, t). now - t > secs (5 * 60)) (unschedulable_queue q)))"
  using flush_unschedulable_fold
    [where now = now and d = "secs (5 * 60)" and xs = "unschedulable_queue q" and a = "active_queue q"
      and b = "backoff_queue q"]
  unfolding flush_unschedulable_left_over_def queued_pods_def Let_def
  by (simp split: prod.split)

lemma waiting_flush_unschedulable: "waiting (flush_unschedulable_left_over now q) \<subseteq># waiting q"
  unfolding waiting_def queued_pods_flush_unschedulable
  unfolding queued_pods_def
  by (intro image_mset_subseteq_mono subset_mset.add_left_mono) (simp add: mset_filter)

end
