(* ===== verification/Sched_Sound.thy ===== *)
theory Sched_Sound
  imports Sched_Step
begin

text \<open>
  No over-commitment. Under a disciplined environment every reachable state of the scheduler has a balanced
  cache: on no node do the demands of the placed pods exceed the capacity, in any resource, and no counter has
  wrapped. The discipline says what the watch loop may report: an update of a known pod keeps its
  placement and, once placed, its demand; a pod that is new to the cache is not placed and has no
  entry left in the queue; a node does not shrink below its use, and a new one comes empty.
\<close>

definition sched_sound :: "scheduler \<Rightarrow> bool" where
  "sched_sound s \<longleftrightarrow>
     sched_wf s \<and> balanced (sch_cache s) \<and> homed (sch_cache s) \<and>
     settled (sch_cache s) (waiting (sch_queue s))"

fun disciplined :: "scheduler \<Rightarrow> sched_event \<Rightarrow> bool" where
  "disciplined s (UpdatePod p) \<longleftrightarrow>
     same_demand p (get_pod (pod_name p) (sch_cache s)) \<and>
     (get_pod (pod_name p) (sch_cache s) = None \<longrightarrow> pod_name p \<notin># waiting (sch_queue s))"
| "disciplined s (UpdateNode n) \<longleftrightarrow> node_event_ok (sch_cache s) n"
| "disciplined s (SetNodes ns) \<longleftrightarrow> nodes_new (sch_cache s) ns"
| "disciplined s _ \<longleftrightarrow> True"

inductive reachable_disciplined :: "scheduler \<Rightarrow> bool" where
  disc_new: "reachable_disciplined (scheduler_new strategy plugins_default)"
| disc_step:
    "reachable_disciplined s \<Longrightarrow> sched_step s e s' \<Longrightarrow> disciplined s e \<Longrightarrow> reachable_disciplined s'"

lemma sched_soundD:
  assumes "sched_sound s"
  shows "sched_wf s" "balanced (sch_cache s)" "homed (sch_cache s)"
    "settled (sch_cache s) (waiting (sch_queue s))" "cache_wf (sch_cache s)" "sch_plugins s = plugins_default"
  using assms by (simp_all add: sched_sound_def sched_wf_def)

lemma sched_sound_new: "sched_sound (scheduler_new strategy plugins_default)"
proof -
  have "queued_pods (queue_new hs) = {#}" for hs
    by (simp add: queued_pods_def queue_new_def Let_def)
  then show ?thesis
    using sched_wf_new [of strategy] balanced_new
    by (simp add: sched_sound_def scheduler_new_def settled_def waiting_def)
qed

lemma sched_sound_queue:
  assumes "sched_sound s" "waiting q \<subseteq># waiting (sch_queue s)"
  shows "sched_sound (s\<lparr>sch_queue := q\<rparr>)"
  using assms settled_mono by (auto simp: sched_sound_def)

section \<open>The scheduling step\<close>

lemma nodes_wf_cache:
  assumes "sched_wf s"
  shows "nodes_wf (get_nodes (sch_cache s))"
proof -
  let ?c = "sch_cache s"
  have wf: "hm_wf (cache_nodes ?c)" and names: "\<forall>k n. hm_get (cache_nodes ?c) k = Some n \<longrightarrow> node_name n = k"
    using assms by (auto simp: sched_wf_def cache_wf_def)
  have "map node_name (get_nodes ?c) = map fst (cache_nodes ?c)"
    using names wf by (auto simp: get_nodes_def hm_values_def hm_get_Some_iff)
  then have "distinct (map node_name (get_nodes ?c))" using wf by (simp add: hm_wf_def)
  moreover have "hm_wf (node_labels n)" if "n \<in> set (get_nodes ?c)" for n
    using cache_wf_get_nodes [OF _ that] assms unfolding sched_wf_def labels_wf_def by blast
  ultimately show ?thesis by (simp add: nodes_wf_def)
qed

lemma feasible_fits:
  assumes "balanced c" "hm_get (cache_nodes c) k = Some n" "feasible gs pods nodes p n"
  shows "in_use r n + demand r p \<le> capacity r n"
proof -
  have nb: "node_balanced c k n" by (rule balanced_get [OF assms(1,2)])
  then have "in_use RGpu n \<le> capacity RGpu n" by (simp only: node_balanced_def)
  then show ?thesis
    using fits_ledger balanced_within [OF nb] assms(3) by (auto simp: feasible_def)
qed

lemma assume_pod_other:
  "k \<noteq> pname \<Longrightarrow> hm_get (cache_pods (fst (assume_pod pname m c))) k = hm_get (cache_pods c) k"
  by (simp add: assume_pod_def split: option.split)

lemma settled_assume:
  assumes "settled c (add_mset pname W)"
  shows "settled (fst (assume_pod pname m c)) W"
proof -
  have "count (add_mset pname W) pname \<le> 1" using assms unfolding settled_def by blast
  then have "pname \<notin># W" by (simp add: not_in_iff)
  then have "hm_get (cache_pods (fst (assume_pod pname m c))) k = hm_get (cache_pods c) k" if "k \<in># W" for k
    using that by (intro assume_pod_other) auto
  moreover have "settled c W" using assms by (rule settled_mono) simp
  ultimately show ?thesis unfolding settled_def by simp
qed

lemma sched_sound_commit:
  assumes "sched_sound s" "settled (sch_cache s) (add_mset pname (waiting (sch_queue s)))"
    and "get_pod pname (sch_cache s) = Some pod"
    and "n \<in> set (get_nodes (sch_cache s))" "feasible gs pods nodes pod n"
  shows "sched_sound (commit_choice now pod pname (node_name n) s)"
proof -
  note d = sched_soundD [OF assms(1)]
  have n: "hm_get (cache_nodes (sch_cache s)) (node_name n) = Some n"
    by (rule cache_wf_get_nodes [OF d(5) assms(4)])
  have sch: "scheduled pod = None"
    using assms(2,3) by (auto simp: settled_def get_pod_def)
  have "balanced (fst (assume_pod pname (node_name n) (sch_cache s)))"
    using feasible_fits [OF d(2) n assms(5)] by (intro balanced_assume [OF d(5,2) assms(3) sch n]) simp
  then show ?thesis
    using sched_wf_commit [OF d(1)] settled_assume [OF assms(2)] homed_assume [OF d(3)]
    by (simp add: sched_sound_def commit_choice_cache commit_choice_queue)
qed

lemma sched_sound_break_cycle:
  assumes "sched_sound s" "settled (sch_cache s) (add_mset pname (waiting (sch_queue s)))"
    and "\<And>q q'. f pod q = Some q' \<Longrightarrow> waiting q' = add_mset pname (waiting q)"
  shows "sched_sound (break_cycle f pod pname s)"
proof -
  note d = sched_soundD [OF assms(1)]
  have "waiting (sch_queue (break_cycle f pod pname s)) \<subseteq># add_mset pname (waiting (sch_queue s))"
    using assms(3) by (auto simp: break_cycle_def Let_def split: prod.split option.split)
  moreover have "settled (fst (add_fail pname (sch_cache s))) (add_mset pname (waiting (sch_queue s)))"
    using assms(2) by (rule settled_cache) (auto simp: add_fail_def split: option.splits if_splits)
  ultimately show ?thesis
    using d settled_mono sched_wf_break_cycle [OF d(1)]
    by (auto simp: sched_sound_def balanced_add_fail homed_add_fail)
qed

lemma sched_sound_schedule_one:
  assumes "sched_sound s"
  shows "sched_sound (schedule_one now s)"
proof (cases "next_pod (sch_queue s)")
  case None
  then show ?thesis using assms by (simp add: schedule_one_def)
next
  case (Some r)
  then obtain pr pname q where next_q: "next_pod (sch_queue s) = Some ((pr, pname), q)"
    by (metis prod.exhaust)
  let ?s = "s\<lparr>sch_queue := q\<rparr>"
  note d = sched_soundD [OF assms]
  have W: "waiting (sch_queue s) = add_mset pname (waiting q)" by (rule waiting_next_pod [OF next_q])
  have sound: "sched_sound ?s" by (rule sched_sound_queue [OF assms]) (simp add: W)
  have set: "settled (sch_cache ?s) (add_mset pname (waiting (sch_queue ?s)))" using d(4) W by simp
  show ?thesis
  proof (cases "get_pod pname (sch_cache s)")
    case None
    then show ?thesis using next_q sound by (simp add: schedule_one_def)
  next
    case (Some pod)
    let ?out = "scheduling_cycle (sch_enabled ?s) (sch_strategy s) (all_scheduled_pods (sch_cache s)) pod
      (get_nodes (sch_cache s))"
    have name: "pod_name pod = pname" using Some d(5) by (auto simp: get_pod_def cache_wf_def)
    have en: "sch_enabled ?s = enable_plugins plugins_default (sch_gang s)"
      using d(6) by (simp add: sch_enabled_def)
    have "sched_sound (?s\<lparr>sch_queue := queue_push pname pr q\<rparr>)"
      using sched_sound_queue [OF assms, of "queue_push pname pr q"] W by simp
    moreover have "sched_sound (break_cycle (push_backoff now) pod pname ?s)"
      "sched_sound (break_cycle (push_unschedulable now) pod pname ?s)"
      using sched_sound_break_cycle [OF sound set] waiting_push_failed name by auto
    moreover have "sched_sound (commit_choice now pod pname nm ?s)" if out: "?out = CycleChosen nm" for nm
    proof -
      obtain n where "n \<in> set (get_nodes (sch_cache s))" "node_name n = nm"
        "feasible (sch_gang s) (all_scheduled_pods (sch_cache s)) (get_nodes (sch_cache s)) pod n"
        using chosen_is_best [OF nodes_wf_cache [OF d(1)]] out unfolding en by metis
      then show ?thesis using sched_sound_commit [OF sound set] Some by auto
    qed
    ultimately show ?thesis
      using next_q Some sound
      by (cases ?out) (simp_all add: schedule_one_def Let_def)
  qed
qed

section \<open>The other steps\<close>

text \<open>A pod that is given back was placed, so it did not wait; afterwards it is not placed and waits.\<close>

lemma unassume_pod_other:
  "k \<noteq> pname \<Longrightarrow> hm_get (cache_pods (fst (unassume_pod pname c))) k = hm_get (cache_pods c) k"
  by (simp add: unassume_pod_def split: option.split)

lemma unassume_pod_Some:
  assumes "unassume_pod pname c = (c', Some p)" "cache_wf c"
  shows "pod_name p = pname" "hm_get (cache_pods c') pname = Some p" "scheduled p = None"
    and "\<exists>p0 m. hm_get (cache_pods c) pname = Some p0 \<and> scheduled p0 = Some m"
  using assms by (auto simp: unassume_pod_def cache_wf_def split: option.splits)

lemma unassume_pod_None: "unassume_pod pname c = (c', None) \<Longrightarrow> c' = c"
  by (auto simp: unassume_pod_def split: option.splits)

lemma settled_unassume:
  assumes "unassume_pod pname c = (c', Some p)" "cache_wf c" "settled c W"
  shows "settled c' (add_mset pname W)"
proof -
  note u = unassume_pod_Some [OF assms(1,2)]
  have other: "hm_get (cache_pods c') k = hm_get (cache_pods c) k" if "k \<noteq> pname" for k
    using unassume_pod_other [OF that, of c] assms(1) by simp
  have "pname \<notin># W" using u(4) assms(3) unfolding settled_def by fastforce
  moreover have "settled c' W"
    using assms(3) other u(2,3) unfolding settled_def by (metis option.inject)
  ultimately show ?thesis using u(2,3) by (intro settled_add) simp_all
qed

lemma sched_sound_unassume: "sched_sound s \<Longrightarrow> sched_sound (unassume pname s)"
proof -
  assume s: "sched_sound s"
  note d = sched_soundD [OF s]
  obtain c r where u: "unassume_pod pname (sch_cache s) = (c, r)" by (metis prod.exhaust)
  show ?thesis
  proof (cases r)
    case None
    then show ?thesis using unassume_pod_None u s by (fastforce simp: unassume_def)
  next
    case (Some p)
    have "balanced c" "homed c"
      using balanced_unassume [OF d(5,2), of pname] homed_unassume [OF d(3), of pname] by (simp_all add: u)
    moreover have "settled c (add_mset pname (waiting (sch_queue s)))"
      using settled_unassume u Some d(4,5) by blast
    ultimately show ?thesis
      using sched_wf_unassume [OF d(1), of pname] unassume_pod_Some(1) [OF _ d(5)] u Some
      by (simp add: sched_sound_def unassume_def)
  qed
qed

lemma unassume_all_sound:
  "unassume_all ns c = (c', rq) \<Longrightarrow> cache_wf c \<Longrightarrow> balanced c \<Longrightarrow> homed c \<Longrightarrow> settled c W \<Longrightarrow>
     balanced c' \<and> homed c' \<and> settled c' (W + mset (map fst rq))"
proof (induction ns c arbitrary: c' rq W rule: unassume_all.induct)
  case (1 c)
  then show ?case by simp
next
  case (2 n ns c)
  obtain c1 r where u: "unassume_pod n c = (c1, r)" by (metis prod.exhaust)
  have keep: "cache_wf c1" "balanced c1" "homed c1"
    using cache_wf_unassume [OF "2.prems"(2), of n] balanced_unassume [OF "2.prems"(2,3), of n]
      homed_unassume [OF "2.prems"(4), of n] by (simp_all add: u)
  show ?case
  proof (cases r)
    case None
    then have "c1 = c" using unassume_pod_None u by blast
    with "2.IH"(1) [OF u [symmetric] None] "2.prems" u None show ?thesis by simp
  next
    case (Some p)
    obtain c2 rest where rest: "unassume_all ns c1 = (c2, rest)" by (metis prod.exhaust)
    have st: "settled c1 (add_mset n W)"
      using settled_unassume u Some "2.prems"(2,5) by blast
    have "c' = c2" "rq = (pod_name p, ps_priority (pod_spec p)) # rest"
      using "2.prems"(1) u Some rest by simp_all
    then show ?thesis
      using "2.IH"(2) [OF u [symmetric] Some rest keep st] unassume_pod_Some(1) [OF _ "2.prems"(2)] u Some
      by simp
  qed
qed

lemma sched_sound_watchdog: "sched_sound s \<Longrightarrow> sched_sound (gang_watchdog now s)"
proof -
  assume s: "sched_sound s"
  note d = sched_soundD [OF s]
  obtain gs out where t: "take_timed_out now (sch_gang_timeout s) (sch_gang s) = (gs, out)"
    by (metis prod.exhaust)
  obtain c rq where u: "unassume_all (concat (map (\<lambda>(_, m). hm_keys m) out)) (sch_cache s) = (c, rq)"
    by (metis prod.exhaust)
  show ?thesis
    using sched_wf_watchdog [OF d(1), of now] unassume_all_sound [OF u d(5,2,3,4)] d(2-4)
    by (auto simp: sched_sound_def gang_watchdog_def t u Let_def waiting_fold_push)
qed

lemma waiting_enqueue:
  "waiting (sch_queue (enqueue pod s)) \<subseteq># add_mset (pod_name pod) (waiting (sch_queue s))"
  by (simp add: enqueue_def)

lemma waiting_update_cache_pod:
  assumes "same_demand pod (get_pod (pod_name pod) (sch_cache s))"
  shows "waiting (sch_queue (update_cache_pod pod s)) \<subseteq>#
     (if get_pod (pod_name pod) (sch_cache s) = None then add_mset (pod_name pod) (waiting (sch_queue s))
      else waiting (sch_queue s))"
  using assms waiting_enqueue [of pod]
  by (auto simp: update_cache_pod_def update_pod_def get_pod_def same_demand_def Let_def
      split: option.splits intro: subset_mset.order_trans [OF waiting_enqueue])

text \<open>The watch loop reports a bound pod after it has been stored as bound, so \<open>assume\<close> finds nothing to do.\<close>

lemma update_cache_pod_cache_same:
  "sch_cache (update_cache_pod pod s) = fst (update_pod pod (sch_cache s))"
  by (simp add: update_cache_pod_cache assume_pod_def update_pod_def split: option.split)

lemma sched_sound_update_pod:
  assumes "sched_sound s" "disciplined s (UpdatePod pod)"
  shows "sched_sound (update_cache_pod pod s)"
proof -
  note d = sched_soundD [OF assms(1)]
  let ?c = "sch_cache s" and ?c' = "fst (update_pod pod (sch_cache s))" and ?W = "waiting (sch_queue s)"
  have same: "same_demand pod (get_pod (pod_name pod) ?c)"
    and new: "get_pod (pod_name pod) ?c = None \<Longrightarrow> pod_name pod \<notin># ?W"
    using assms(2) by simp_all
  have get: "hm_get (cache_pods ?c') k = (if k = pod_name pod then Some pod else hm_get (cache_pods ?c) k)" for k
    by (simp add: update_pod_def)
  have W: "settled ?c' ?W"
    using d(4) same new unfolding settled_def
    by (auto simp: get same_demand_def get_pod_def split: option.splits if_splits)
  have "settled ?c' (add_mset (pod_name pod) ?W)" if none: "get_pod (pod_name pod) ?c = None"
    using same none by (intro settled_add [OF W new]) (auto simp: get same_demand_def)
  then have "settled ?c' (waiting (sch_queue (update_cache_pod pod s)))"
    using waiting_update_cache_pod [OF same] W settled_mono by (auto split: if_splits)
  then show ?thesis
    using sched_wf_step [OF step_update_pod d(1)] balanced_update_pod [OF d(5,2) same] homed_update_pod [OF d(3) same]
    by (simp add: sched_sound_def update_cache_pod_cache_same)
qed

lemma sched_sound_remove_pod:
  assumes "sched_sound s"
  shows "sched_sound (remove_cache_pod pname s)"
proof -
  note d = sched_soundD [OF assms]
  have get: "hm_get (cache_pods (fst (remove_pod pname c))) k =
      (if k = pname then None else hm_get (cache_pods c) k)" for k c
    by (simp add: remove_pod_def Let_def split: option.split)
  have "settled (fst (remove_pod pname (sch_cache s))) (waiting (sch_queue s))"
    using d(4) unfolding settled_def by (simp add: get)
  moreover have "waiting (sch_queue (remove_cache_pod pname s)) = waiting (sch_queue s)"
    by (simp add: remove_cache_pod_def split: prod.split)
  ultimately show ?thesis
    using sched_wf_step [OF step_remove_pod d(1)] balanced_remove_pod [OF d(5,2,3)] homed_remove_pod [OF d(3)]
    by (simp add: sched_sound_def)
qed

lemma sched_sound_set_nodes:
  assumes "sched_sound s" "disciplined s (SetNodes ns)" "\<forall>n\<in>set ns. hm_wf (node_labels n)"
  shows "sched_sound (set_cache_node ns s)"
proof -
  note d = sched_soundD [OF assms(1)]
  have "settled (set_nodes ns (sch_cache s)) (waiting (sch_queue s))"
    using d(4) by (simp add: settled_def set_nodes_def)
  then show ?thesis
    using sched_wf_step [OF step_set_nodes [OF assms(3)] d(1)] balanced_set_nodes [OF d(5,2,3)] assms(2)
      homed_set_nodes [OF d(3)]
    by (simp add: sched_sound_def) (simp add: set_cache_node_def)
qed

lemma sched_sound_update_node:
  assumes "sched_sound s" "disciplined s (UpdateNode n)" "hm_wf (node_labels n)"
  shows "sched_sound (update_cache_node n s)"
proof -
  note d = sched_soundD [OF assms(1)]
  have "settled (fst (update_node n (sch_cache s))) (waiting (sch_queue s))"
    using d(4) by (simp add: settled_def update_node_def Let_def split: option.split)
  moreover have "waiting (sch_queue (update_cache_node n s)) = waiting (sch_queue s)"
    by (simp add: update_cache_node_def Let_def split: prod.split)
  ultimately show ?thesis
    using sched_wf_step [OF step_update_node [OF assms(3)] d(1)] balanced_update_node [OF d(5,2,3)] assms(2)
      homed_update_node [OF d(3)]
    by (simp add: sched_sound_def)
qed

text \<open>The pods of a removed node are given back; they did not wait.\<close>

lemma pop_pod_names:
  assumes "cache_wf c"
  shows "mset (map snd (snd (pop_pod_on_node n c))) =
           mset (map fst (filter (\<lambda>(k, p). scheduled_on n p) (cache_pods c)))"
proof -
  have "map pod_name (filter (scheduled_on n) (map snd ps)) = map fst (filter (\<lambda>(k, p). scheduled_on n p) ps)"
    if "\<forall>(k, p)\<in>set ps. pod_name p = k" for ps
    using that by (induction ps) auto
  moreover have "\<forall>(k, p)\<in>set (cache_pods c). pod_name p = k"
    using assms by (auto simp: cache_wf_def hm_get_Some_iff)
  ultimately show ?thesis
    by (simp add: pop_pod_on_node_def hm_values_def comp_def)
qed

lemma settled_pop:
  assumes "cache_wf c" "settled c W"
  shows "settled (remove_node n (fst (pop_pod_on_node n c))) (W + mset (map snd (snd (pop_pod_on_node n c))))"
proof -
  let ?V = "mset (map fst (filter (\<lambda>(k, p). scheduled_on n p) (cache_pods c)))"
  let ?clear = "\<lambda>p. if scheduled_on n p
    then p\<lparr>scheduled := None, queued_info := (queued_info p)\<lparr>attempts := 0\<rparr>\<rparr> else p"
  have wf: "hm_wf (cache_pods c)" using assms(1) by (simp add: cache_wf_def)
  have V: "k \<in># ?V \<longleftrightarrow> (\<exists>p. hm_get (cache_pods c) k = Some p \<and> scheduled_on n p)" for k
    using wf by (force simp: hm_get_Some_iff)
  have "distinct (map fst (filter (\<lambda>(k, p). scheduled_on n p) (cache_pods c)))"
    using wf by (simp add: hm_wf_def distinct_map_filter)
  then have V1: "count ?V k \<le> 1" for k by (simp add: distinct_count_atmost_1)
  have get: "hm_get (cache_pods (remove_node n (fst (pop_pod_on_node n c)))) k =
      map_option ?clear (hm_get (cache_pods c) k)" for k
    by (simp add: remove_node_def pop_pod_on_node_def)
  have disj: "k \<notin># W" if "k \<in># ?V" for k
    using assms(2) that [unfolded V] unfolding settled_def scheduled_on_def by fastforce
  have W1: "count W k \<le> 1" for k using assms(2) unfolding settled_def by blast
  have "count (W + ?V) k \<le> 1" for k
    using V1 [of k] W1 [of k] disj [of k] unfolding count_union by (metis add_0 add_0_right not_in_iff)
  moreover have "scheduled p' = None"
    if k: "k \<in># W + ?V" and p': "hm_get (cache_pods (remove_node n (fst (pop_pod_on_node n c)))) k = Some p'"
    for k p'
  proof -
    obtain p where p: "hm_get (cache_pods c) k = Some p" "p' = ?clear p"
      using p' unfolding get by blast
    show ?thesis
    proof (cases "scheduled_on n p")
      case True
      then show ?thesis using p(2) by simp
    next
      case False
      then have "k \<in># W" using k V [of k] p(1) by auto
      then show ?thesis using assms(2) p False unfolding settled_def by simp
    qed
  qed
  ultimately show ?thesis
    unfolding settled_def pop_pod_names [OF assms(1)] by blast
qed

lemma sched_sound_remove_node:
  assumes "sched_sound s"
  shows "sched_sound (remove_cache_node nname s)"
proof -
  note d = sched_soundD [OF assms]
  obtain c ps where pop: "pop_pod_on_node nname (sch_cache s) = (c, ps)" by (metis prod.exhaust)
  have "waiting (sch_queue (remove_cache_node nname s)) = waiting (sch_queue s) + mset (map snd ps)"
    by (simp add: remove_cache_node_def pop waiting_fold_push)
  then show ?thesis
    using sched_wf_step [OF step_remove_node d(1)] balanced_pop_remove_node [OF d(2), of nname]
      homed_pop_remove_node [OF d(3), of nname] settled_pop [OF d(5,4), of nname]
    by (simp add: sched_sound_def pop)
qed

lemma sched_sound_rehash:
  assumes "sched_sound s" "mset ps = mset (cache_pods (sch_cache s))"
    "mset ns = mset (cache_nodes (sch_cache s))" "gang_rehash (sch_gang s) gs"
  shows "sched_sound (s\<lparr>sch_cache := \<lparr>cache_pods = ps, cache_nodes = ns\<rparr>, sch_gang := gs\<rparr>)"
proof -
  note d = sched_soundD [OF assms(1)]
  have "hm_wf (cache_pods (sch_cache s))" using d(5) by (simp add: cache_wf_def)
  note sums = hm_rehash(3) [OF this assms(2)]
  show ?thesis
    using sched_wf_step [OF step_rehash [OF assms(2-4)] d(1)] cache_wf_rehash(2,3) [OF d(5) assms(2,3)] d(2-4)
    by (simp add: sched_sound_def balanced_def node_balanced_def homed_def settled_def sums)
qed

lemma sched_sound_step:
  assumes "sched_step s e s'" "sched_sound s" "disciplined s e"
  shows "sched_sound s'"
  using assms
proof (induction rule: sched_step.induct)
  case (step_flush_backoff s now)
  then show ?case by (intro sched_sound_queue) simp_all
next
  case (step_flush_unschedulable s now)
  then show ?case by (intro sched_sound_queue waiting_flush_unschedulable) simp_all
qed (blast intro: sched_sound_schedule_one sched_sound_unassume sched_sound_watchdog sched_sound_update_pod
    sched_sound_remove_pod sched_sound_set_nodes sched_sound_update_node sched_sound_remove_node
    sched_sound_rehash)+

lemma reachable_sound: "reachable_disciplined s \<Longrightarrow> sched_sound s"
  by (induction rule: reachable_disciplined.induct) (auto intro: sched_sound_new sched_sound_step)

end
