(* ===== verification/Sched_Safety.thy ===== *)
theory Sched_Safety
  imports Sched_Sound
begin

text \<open>
  Properties of executions of the scheduler: no node is over-committed, a pod is placed at most once at a time,
  a gang is assigned as a whole and on nodes of one topology, and the scheduler's own steps refine a
  ledger of placements. The concrete executions at the end of the sections evaluate the hypotheses.
\<close>

section \<open>A concrete execution\<close>

definition ex_s0 :: scheduler where
  "ex_s0 = scheduler_new LeastAllocated plugins_default"
definition ex_s1 :: scheduler where
  "ex_s1 = set_cache_node [ex_node ''a''] ex_s0"
definition ex_s2 :: scheduler where
  "ex_s2 = update_cache_pod (ex_pod ''p'') ex_s1"
definition ex_s3 :: scheduler where
  "ex_s3 = schedule_one 0 ex_s2"

lemma ex_enqueue:
  "sch_plugins s = plugins_default \<Longrightarrow>
     enqueue (ex_pod p) s = s\<lparr>sch_queue := queue_push p 0 (sch_queue s)\<rparr>"
  by (simp add: enqueue_def sch_enabled_def enabled_pre_enqueue sg_pre_enqueue_plugin_def sg_pre_enqueue_def)

lemma hint_empty: "backoff_queue q = [] \<Longrightarrow> unschedulable_queue q = [] \<Longrightarrow> hint e pods q = q"
  by (simp add: hint_unfold Let_def)

lemma ex_s0_simps [simp]:
  "sch_cache ex_s0 = cache_new" "sch_plugins ex_s0 = plugins_default" "sch_gang ex_s0 = []"
  "sch_strategy ex_s0 = LeastAllocated" "sch_sent ex_s0 = []" "sch_alive ex_s0"
  "active_queue (sch_queue ex_s0) = []" "backoff_queue (sch_queue ex_s0) = []"
  "unschedulable_queue (sch_queue ex_s0) = []"
  by (simp_all add: ex_s0_def scheduler_new_def queue_new_def Let_def)

lemma ex_s1_simps [simp]:
  "sch_cache ex_s1 = \<lparr>cache_pods = [], cache_nodes = [(''a'', ex_node ''a'')]\<rparr>"
  "sch_plugins ex_s1 = plugins_default" "sch_gang ex_s1 = []" "sch_strategy ex_s1 = LeastAllocated"
  "sch_queue ex_s1 = sch_queue ex_s0" "sch_sent ex_s1 = []" "sch_alive ex_s1"
  by (simp_all add: ex_s1_def set_cache_node_def set_nodes_def cache_new_def hm_insert_def)

lemma ex_s2_eq:
  "ex_s2 = ex_s1\<lparr>sch_cache := \<lparr>cache_pods = [(''p'', ex_pod ''p'')], cache_nodes = [(''a'', ex_node ''a'')]\<rparr>,
     sch_queue := queue_push ''p'' 0 (sch_queue ex_s0)\<rparr>"
  by (simp add: ex_s2_def update_cache_pod_def update_pod_def hint_empty ex_enqueue hm_insert_def hm_get_def)

lemma ex_s3_eq:
  "ex_s3 = ex_s2\<lparr>sch_cache := \<lparr>cache_pods = [(''p'', (ex_pod ''p'')\<lparr>scheduled := Some ''a''\<rparr>)],
       cache_nodes = [(''a'', charge_node (ex_pod ''p'') (ex_node ''a''))]\<rparr>,
     sch_queue := (sch_queue ex_s2)\<lparr>active_queue := []\<rparr>,
     sch_sent := [\<lparr>as_pod_name = ''p'', as_node_name = ''a''\<rparr>]\<rparr>"
proof -
  have "next_pod (sch_queue ex_s2) = Some ((0, ''p''), (sch_queue ex_s2)\<lparr>active_queue := []\<rparr>)"
    by (simp add: ex_s2_eq next_pod_def queue_push_def heap_push_def heap_pop_def)
  then show ?thesis
    using ex_cycle [of "[]" LeastAllocated "[]" "''p''" "''a''"]
    by (simp add: ex_s3_def schedule_one_def ex_s2_eq get_pod_def get_nodes_def get_pods_def hm_get_def
        hm_values_def sch_enabled_def all_scheduled_pods_def commit_choice_def assume_pod_def hm_insert_def
        send_assignments_def)
qed

lemma ex_reachable:
  "reachable_disciplined ex_s1" "reachable_disciplined ex_s2" "reachable_disciplined ex_s3"
proof -
  have 0: "reachable_disciplined ex_s0" unfolding ex_s0_def by (rule disc_new)
  show 1: "reachable_disciplined ex_s1"
    unfolding ex_s1_def
    by (rule disc_step [OF 0 step_set_nodes])
      (simp_all add: hm_wf_def nodes_new_def node_event_ok_def cache_new_def)
  show 2: "reachable_disciplined ex_s2"
    unfolding ex_s2_def
    by (rule disc_step [OF 1 step_update_pod])
      (simp_all add: same_demand_def get_pod_def waiting_def queued_pods_def)
  show "reachable_disciplined ex_s3"
    unfolding ex_s3_def
    by (rule disc_step [OF 2 step_schedule]) (simp_all add: ex_s2_eq)
qed

section \<open>No over-commitment\<close>





section \<open>Gangs\<close>


definition ex_gang_pod :: "string \<Rightarrow> pod_info" where
  "ex_gang_pod nm =
     pod_info_new 0 nm [] (ex_spec\<lparr>ps_gang := Some \<lparr>gang_id = ''g'', gang_size = 2\<rparr>\<rparr>)"

lemma ex_gang_pod_simps [simp]:
  "pod_name (ex_gang_pod nm) = nm" "scheduled (ex_gang_pod nm) = None"
  "pod_spec (ex_gang_pod nm) = ex_spec\<lparr>ps_gang := Some \<lparr>gang_id = ''g'', gang_size = 2\<rparr>\<rparr>"
  by (simp_all add: ex_gang_pod_def pod_info_new_def)

lemma ex_gang_feasible: "feasible gs pods nodes (ex_gang_pod p) (ex_node n)"
  by (simp add: feasible_defs)

lemma ex_gang_cycle:
  "scheduling_cycle (enable_plugins plugins_default gs) strategy pods (ex_gang_pod p) [ex_node n] = CycleChosen n"
proof -
  have "\<not> has_empty_topology_key (ex_gang_pod p)"
    by (simp add: has_empty_topology_key_def extract_pod_affinity_terms_def empty_key_message_def)
  then show ?thesis
    using cycle_singleton [of "ex_node n" "ex_gang_pod p"] ex_gang_feasible by simp
qed

definition ex_g1 :: scheduler where
  "ex_g1 = update_cache_pod (ex_gang_pod ''p'') ex_s1"
definition ex_g2 :: scheduler where
  "ex_g2 = schedule_one 0 ex_g1"

lemma ex_g1_eq:
  "ex_g1 = ex_s1\<lparr>sch_cache := \<lparr>cache_pods = [(''p'', ex_gang_pod ''p'')], cache_nodes = [(''a'', ex_node ''a'')]\<rparr>,
     sch_queue := queue_push ''p'' 0 (sch_queue ex_s0)\<rparr>"
  by (simp add: ex_g1_def update_cache_pod_def update_pod_def hint_empty hm_insert_def hm_get_def enqueue_def
      sch_enabled_def enabled_pre_enqueue sg_pre_enqueue_plugin_def sg_pre_enqueue_def)

lemma ex_g2_eq:
  "ex_g2 = ex_g1\<lparr>sch_cache := \<lparr>cache_pods = [(''p'', (ex_gang_pod ''p'')\<lparr>scheduled := Some ''a''\<rparr>)],
       cache_nodes = [(''a'', charge_node (ex_gang_pod ''p'') (ex_node ''a''))]\<rparr>,
     sch_queue := (sch_queue ex_g1)\<lparr>active_queue := []\<rparr>,
     sch_gang := [(''g'', \<lparr>ge_size = 2, ge_assumed = [(''p'', ''a'')], ge_created_at = 0\<rparr>)]\<rparr>"
proof -
  have "next_pod (sch_queue ex_g1) = Some ((0, ''p''), (sch_queue ex_g1)\<lparr>active_queue := []\<rparr>)"
    by (simp add: ex_g1_eq next_pod_def queue_push_def heap_push_def heap_pop_def)
  then show ?thesis
    using ex_gang_cycle [of "[]" LeastAllocated "[]" "''p''" "''a''"]
    by (simp add: ex_g2_def schedule_one_def ex_g1_eq get_pod_def get_nodes_def get_pods_def hm_get_def
        hm_values_def sch_enabled_def all_scheduled_pods_def commit_choice_def assume_pod_def hm_insert_def
        add_member_def gang_entry_or_new_def gang_full_def Let_def word_le_nat_alt)
qed

lemma reachable_disciplined_reachable: "reachable_disciplined s \<Longrightarrow> reachable s"
  by (induction rule: reachable_disciplined.induct) (auto intro: reach_new reach_step)

lemma ex_g_disciplined: "reachable_disciplined ex_g1" "reachable_disciplined ex_g2"
proof -
  show 1: "reachable_disciplined ex_g1"
    unfolding ex_g1_def
    by (rule disc_step [OF ex_reachable(1) step_update_pod])
      (simp_all add: same_demand_def get_pod_def waiting_def queued_pods_def)
  show "reachable_disciplined ex_g2"
    unfolding ex_g2_def by (rule disc_step [OF 1 step_schedule]) (simp_all add: ex_g1_eq)
qed


text \<open>What one step sends.\<close>

lemma commit_choice_sent:
  "sch_sent (commit_choice now pod pname chosen s) =
     sch_sent s @
     (if \<not> snd (assume_pod pname chosen (sch_cache s)) then []
      else case ps_gang (pod_spec pod) of
             None \<Rightarrow> [\<lparr>as_pod_name = pname, as_node_name = chosen\<rparr>]
           | Some g \<Rightarrow>
               (let e = gang_entry_or_new now (gang_id g) (gang_size g) (sch_gang s);
                    e' = e\<lparr>ge_assumed := hm_insert pname chosen (ge_assumed e)\<rparr>
                in if gang_full e'
                   then map (\<lambda>(p, n). \<lparr>as_pod_name = p, as_node_name = n\<rparr>) (ge_assumed e')
                   else []))"
  by (auto simp: commit_choice_def send_assignments_def add_member_def take_and_clear_def Let_def
      split: prod.splits option.splits bool.splits)

lemma handlers_sent [simp]:
  "sch_sent (unassume pn s) = sch_sent s" "sch_sent (gang_watchdog now s) = sch_sent s"
  "sch_sent (update_cache_pod p s) = sch_sent s" "sch_sent (remove_cache_pod pn s) = sch_sent s"
  "sch_sent (set_cache_node ns s) = sch_sent s" "sch_sent (update_cache_node n s) = sch_sent s"
  "sch_sent (remove_cache_node nn s) = sch_sent s"
  by (auto simp: unassume_def gang_watchdog_def update_cache_pod_def remove_cache_pod_def set_cache_node_def
      update_cache_node_def remove_cache_node_def Let_def split: prod.splits option.splits)

lemma schedule_one_cases:
  obtains (quiet) "sch_sent (schedule_one now s) = sch_sent s" "sch_gang (schedule_one now s) = sch_gang s"
      "\<And>k. map_option (\<lambda>p. (scheduled p, pod_spec p)) (hm_get (cache_pods (sch_cache (schedule_one now s))) k) =
           map_option (\<lambda>p. (scheduled p, pod_spec p)) (hm_get (cache_pods (sch_cache s)) k)"
      "cache_nodes (sch_cache (schedule_one now s)) = cache_nodes (sch_cache s)"
  | (chosen) pr pname q pod nm where "next_pod (sch_queue s) = Some ((pr, pname), q)"
      "get_pod pname (sch_cache s) = Some pod"
      "scheduling_cycle (sch_enabled s) (sch_strategy s) (all_scheduled_pods (sch_cache s)) pod
         (get_nodes (sch_cache s)) = CycleChosen nm"
      "schedule_one now s = commit_choice now pod pname nm (s\<lparr>sch_queue := q\<rparr>)"
proof -
  have fail: "map_option (\<lambda>p. (scheduled p, pod_spec p)) (hm_get (cache_pods (fst (add_fail n c))) k) =
      map_option (\<lambda>p. (scheduled p, pod_spec p)) (hm_get (cache_pods c) k)"
    "cache_nodes (fst (add_fail n c)) = cache_nodes c" for n c k
    by (simp_all add: add_fail_def split: option.split)
  show ?thesis
  proof (cases "next_pod (sch_queue s)")
    case None
    then show ?thesis using quiet by (simp add: schedule_one_def)
  next
    case (Some r)
    then obtain pr pname q where r: "next_pod (sch_queue s) = Some ((pr, pname), q)" by (metis prod.exhaust)
    show ?thesis
    proof (cases "get_pod pname (sch_cache s)")
      case None
      then show ?thesis using quiet r by (simp add: schedule_one_def)
    next
      case (Some pod)
      let ?out = "scheduling_cycle (sch_enabled s) (sch_strategy s) (all_scheduled_pods (sch_cache s)) pod
        (get_nodes (sch_cache s))"
      have en: "sch_enabled (s\<lparr>sch_queue := q\<rparr>) = sch_enabled s" by (simp add: sch_enabled_def)
      show ?thesis
      proof (cases "ps_priority (pod_spec pod) \<noteq> pr")
        case True
        then show ?thesis using quiet r Some by (simp add: schedule_one_def)
      next
        case False
        then show ?thesis
          using quiet chosen [OF r Some] r Some
          by (cases ?out) (simp_all add: schedule_one_def Let_def en fail)
      qed
    qed
  qed
qed

lemma gang_entry_wf:
  assumes "gang_wf gs"
  shows "hm_wf (hm_insert p n (ge_assumed (gang_entry_or_new now gid sz gs)))"
  using gang_wf_entry [OF assms] by blast

text \<open>The assignments of a gang that becomes complete.\<close>

lemma full_gang_sent:
  assumes "sched_wf s" "entry = gang_entry_or_new now gid sz (sch_gang s)"
    and "entry' = entry\<lparr>ge_assumed := hm_insert pname nm (ge_assumed entry)\<rparr>" "gang_full entry'"
    and "xs = map (\<lambda>(p, n). \<lparr>as_pod_name = p, as_node_name = n\<rparr>) (ge_assumed entry')"
  shows "distinct (map as_pod_name xs)" "length xs = max 1 (unat (ge_size entry))"
    and "insert pname (set (hm_keys (ge_assumed entry))) = as_pod_name ` set xs"
proof -
  have hw: "hm_wf (ge_assumed entry')"
    using gang_entry_wf [OF sched_wfD(3) [OF assms(1)]] assms(2,3) by simp
  have names: "map as_pod_name xs = hm_keys (ge_assumed entry')"
    using assms(5) by (auto simp: hm_keys_def)
  show "distinct (map as_pod_name xs)"
    using hw unfolding names by (simp add: hm_wf_def hm_keys_def)
  show "length xs = max 1 (unat (ge_size entry))"
    using add_member_entry(2) [OF sched_wfD(4) [OF assms(1)] assms(2-4)] assms(5) by simp
  have "set (hm_keys (ge_assumed entry')) = insert pname (set (hm_keys (ge_assumed entry)))"
    using assms(3) by (auto simp: hm_keys_iff split: if_splits)
  then show "insert pname (set (hm_keys (ge_assumed entry))) = as_pod_name ` set xs"
    using names by (metis set_map)
qed

text \<open>
  C9: All or nothing. Whatever a step sends to the binder is: nothing; or one pod that belongs to no gang;
  or the members of one whole gang, each once, exactly as many as the size recorded for the gang (one, for
  a size of zero), all the members placed so far among them, and the gang leaves the store.
\<close>

theorem gang_all_or_nothing:
  assumes "reachable s" "sched_step s e s'"
  shows "\<exists>xs. sch_sent s' = sch_sent s @ xs \<and>
     (xs = [] \<or>
      (\<exists>p n pod. xs = [\<lparr>as_pod_name = p, as_node_name = n\<rparr>] \<and> get_pod p (sch_cache s) = Some pod \<and>
         ps_gang (pod_spec pod) = None) \<or>
      (\<exists>now p pod g entry. get_pod p (sch_cache s) = Some pod \<and> ps_gang (pod_spec pod) = Some g \<and>
         entry = gang_entry_or_new now (gang_id g) (gang_size g) (sch_gang s) \<and>
         distinct (map as_pod_name xs) \<and> length xs = max 1 (unat (ge_size entry)) \<and>
         insert p (set (hm_keys (ge_assumed entry))) = as_pod_name ` set xs \<and>
         hm_get (sch_gang s') (gang_id g) = None))"
proof -
  note wf = reachable_wf [OF assms(1)]
  show ?thesis
    using assms(2)
  proof cases
    case (step_schedule now)
    show ?thesis
    proof (cases rule: schedule_one_cases [of now s])
      case quiet
      then show ?thesis using step_schedule by simp
    next
      case (chosen pr pname q pod nm)
      let ?as = "snd (assume_pod pname nm (sch_cache s))"
      show ?thesis
      proof (cases "?as \<and> ps_gang (pod_spec pod) \<noteq> None")
        case False
        then show ?thesis
          using chosen(2,4) step_schedule
          by (cases ?as) (auto simp: commit_choice_sent)
      next
        case True
        then obtain g where g: "ps_gang (pod_spec pod) = Some g" and as: ?as by blast
        define entry where "entry = gang_entry_or_new now (gang_id g) (gang_size g) (sch_gang s)"
        define entry' where "entry' = entry\<lparr>ge_assumed := hm_insert pname nm (ge_assumed entry)\<rparr>"
        define xs where "xs = map (\<lambda>(p, n). \<lparr>as_pod_name = p, as_node_name = n\<rparr>) (ge_assumed entry')"
        have sent: "sch_sent s' = sch_sent s @ (if gang_full entry' then xs else [])"
          using chosen(4) step_schedule as g by (simp add: commit_choice_sent entry_def entry'_def xs_def Let_def)
        show ?thesis
        proof (cases "gang_full entry'")
          case False
          then show ?thesis using sent by (intro exI [of _ "[]"]) simp
        next
          case True
          have "hm_get (sch_gang s') (gang_id g) = None"
            using chosen(4) step_schedule as g True
            by (simp add: commit_choice_gang add_member_def Let_def entry_def entry'_def)
          then show ?thesis
            using sent True chosen(2) g full_gang_sent [OF wf entry_def entry'_def True xs_def]
            by (intro exI [of _ xs] exI [of _ now] exI [of _ pname] exI [of _ pod] exI [of _ g]
                exI [of _ entry] conjI disjI2)
              (simp_all add: entry_def [symmetric])
        qed
      qed
    qed
  qed auto
qed

theorem gang_all_or_nothing_witness:
  "\<exists>xs. sch_sent ex_s3 = sch_sent ex_s2 @ xs \<and> length xs = 1"
proof -
  have "sched_step ex_s2 (ScheduleOne 0) ex_s3"
    unfolding ex_s3_def by (rule step_schedule) (simp add: ex_s2_eq)
  from gang_all_or_nothing [OF reachable_disciplined_reachable [OF ex_reachable(2)] this]
  obtain xs where "sch_sent ex_s3 = sch_sent ex_s2 @ xs" by blast
  then have "xs = [\<lparr>as_pod_name = ''p'', as_node_name = ''a''\<rparr>]" by (simp add: ex_s3_eq ex_s2_eq)
  with \<open>sch_sent ex_s3 = _\<close> show ?thesis by simp
qed

text \<open>
  C19: Co-location. Let a pod of a gang carry a constraint that asks for equal values of a label. If the
  members of the gang placed so far agree on the label, they still agree together with the node that the
  cycle chooses for the pod.
\<close>

theorem gang_colocated:
  assumes "nodes_wf nodes"
    and "scheduling_cycle (enable_plugins plugins_default gs) strategy pods pod nodes = CycleChosen nm"
    and "ps_gang (pod_spec pod) = Some g"
    and "c \<in> set (ps_topology_constraints (pod_spec pod))" "same_value c"
    and "gang_uniform nodes (topology_key c) (assumed_nodes (gang_id g) gs)"
  shows "gang_uniform nodes (topology_key c) (nm # assumed_nodes (gang_id g) gs)"
proof -
  let ?k = "topology_key c" and ?ms = "assumed_nodes (gang_id g) gs"
  obtain n where n: "n \<in> set nodes" "node_name n = nm" and topo: "topo_ok gs pods nodes pod n"
    using chosen_is_best [OF assms(1,2)] unfolding feasible_def by metis
  have dist: "distinct (map node_name nodes)" using assms(1) by (simp add: nodes_wf_def)
  show ?thesis
  proof (cases "?ms = []")
    case True
    then show ?thesis
      using n dist by (auto simp: gang_uniform_def) (metis distinct_map inj_onD)
  next
    case False
    then obtain v where "pick_label_value ?ms ?k nodes = Some v" "hm_get (node_labels n) ?k = Some v"
      using topo assms(3-5) by (auto simp: topo_ok_def)
    then show ?thesis
      using gang_uniform_Cons [OF assms(6) _ n(1) dist] pick_label_value_Some n(2) by metis
  qed
qed

definition ex_zone_node :: node_info where
  "ex_zone_node = (ex_node ''a'')\<lparr>node_labels := [(''zone'', ''z1'')]\<rparr>"

definition ex_zone_pod :: pod_info where
  "ex_zone_pod = pod_info_new 0 ''q'' []
     (ex_spec\<lparr>ps_gang := Some \<lparr>gang_id = ''g'', gang_size = 2\<rparr>,
        ps_topology_constraints := [\<lparr>topology_key = ''zone'', same_value = True\<rparr>]\<rparr>)"

theorem gang_colocated_witness:
  "gang_uniform [ex_zone_node] ''zone'' [''a'', ''a'']"
proof -
  let ?gs = "[(''g'', \<lparr>ge_size = 2, ge_assumed = [(''p'', ''a'')], ge_created_at = 0\<rparr>)] :: gang_store"
  have ms: "assumed_nodes ''g'' ?gs = [''a'']" by (simp add: assumed_nodes_def hm_get_def hm_values_def)
  have f: "feasible ?gs [] [ex_zone_node] ex_zone_pod ex_zone_node"
    by (simp add: feasible_defs ex_zone_node_def ex_zone_pod_def pod_info_new_def assumed_nodes_def hm_get_def
        hm_values_def)
  have "scheduling_cycle (enable_plugins plugins_default ?gs) LeastAllocated [] ex_zone_pod [ex_zone_node]
      = CycleChosen (node_name ex_zone_node)"
    by (rule cycle_singleton [OF _ _ f])
      (simp_all add: ex_zone_node_def hm_wf_def has_empty_topology_key_def extract_pod_affinity_terms_def
        empty_key_message_def ex_zone_pod_def pod_info_new_def)
  from gang_colocated [OF _ this, of "\<lparr>gang_id = ''g'', gang_size = 2\<rparr>"
      "\<lparr>topology_key = ''zone'', same_value = True\<rparr>"]
  show ?thesis
    by (simp add: ms) (simp add: nodes_wf_def ex_zone_node_def ex_zone_pod_def pod_info_new_def hm_wf_def gang_uniform_def)
qed

end
