(* ===== verification/Sched_Refine.thy ===== *)
theory Sched_Refine
  imports Sched_Safety
begin

text \<open>
  An abstract specification of what the scheduler does to the cluster: a ledger of pods with their demands,
  of nodes with their capacities, and of placements. The scheduler may place a pod that is not placed on a
  node with enough free capacity, or give placements back; it may not move a placed pod, place two pods in one
  step, or touch demands and capacities. The steps of the scheduler itself (the scheduling loop, the
  timers, the watchdog, \<open>unassume\<close>, and rehashing) refine this specification through the abstraction
  \<open>ledger_of\<close>.
\<close>

section \<open>The specification\<close>

record ledger =
  lg_demand :: "string \<Rightarrow> (resource_kind \<Rightarrow> int) option"
  lg_place :: "string \<Rightarrow> string option"
  lg_cap :: "string \<Rightarrow> (resource_kind \<Rightarrow> int) option"

definition lg_load :: "ledger \<Rightarrow> string \<Rightarrow> resource_kind \<Rightarrow> int" where
  "lg_load L k r = (\<Sum>p | lg_place L p = Some k. the (lg_demand L p) r)"

inductive ledger_step :: "ledger \<Rightarrow> ledger \<Rightarrow> bool" where
  place:
    "lg_demand L p = Some d \<Longrightarrow> lg_place L p = None \<Longrightarrow> lg_cap L k = Some c \<Longrightarrow>
     \<forall>r. lg_load L k r + d r \<le> c r \<Longrightarrow>
     ledger_step L (L\<lparr>lg_place := (lg_place L)(p \<mapsto> k)\<rparr>)"
| give_back: "ledger_step L (L\<lparr>lg_place := (lg_place L) |` (- X)\<rparr>)"

section \<open>The abstraction\<close>

definition ledger_of :: "cache \<Rightarrow> ledger" where
  "ledger_of c =
     \<lparr>lg_demand = (\<lambda>k. map_option (\<lambda>p r. demand r p) (hm_get (cache_pods c) k)),
      lg_place = (\<lambda>k. Option.bind (hm_get (cache_pods c) k) scheduled),
      lg_cap = (\<lambda>k. map_option (\<lambda>n r. capacity r n) (hm_get (cache_nodes c) k))\<rparr>"

lemma ledger_of_simps [simp]:
  "lg_demand (ledger_of c) k = map_option (\<lambda>p r. demand r p) (hm_get (cache_pods c) k)"
  "lg_place (ledger_of c) k = Option.bind (hm_get (cache_pods c) k) scheduled"
  "lg_cap (ledger_of c) k = map_option (\<lambda>n r. capacity r n) (hm_get (cache_nodes c) k)"
  by (simp_all add: ledger_of_def)

lemma ledger_of_load:
  assumes "cache_wf c"
  shows "lg_load (ledger_of c) k r = hm_sum (share r k) (cache_pods c)"
proof -
  let ?ps = "cache_pods c"
  have wf: "hm_wf ?ps" using assms by (simp add: cache_wf_def)
  then have dist: "distinct ?ps" "inj_on fst (set ?ps)" by (auto simp: hm_wf_def distinct_map)
  have "hm_sum (share r k) ?ps = sum_list (map (\<lambda>x. share r k (snd x)) ?ps)"
    by (simp add: hm_sum_def hm_values_def comp_def)
  also have "\<dots> = (\<Sum>x\<in>set ?ps. share r k (snd x))"
    by (rule sum_list_distinct_conv_sum_set [OF dist(1)])
  also have "\<dots> = (\<Sum>x\<in>{x \<in> set ?ps. scheduled (snd x) = Some k}. demand r (snd x))"
    by (rule sum.mono_neutral_cong_right) (auto simp: share_def scheduled_on_def)
  also have "\<dots> = (\<Sum>p\<in>fst ` {x \<in> set ?ps. scheduled (snd x) = Some k}. demand r (the (hm_get ?ps p)))"
  proof -
    have "inj_on fst {x \<in> set ?ps. scheduled (snd x) = Some k}"
      using dist(2) by (rule inj_on_subset) auto
    moreover have "hm_get ?ps (fst x) = Some (snd x)" if "x \<in> set ?ps" for x
      using that wf by (simp add: hm_get_Some_iff)
    ultimately show ?thesis by (simp add: sum.reindex)
  qed
  also have "fst ` {x \<in> set ?ps. scheduled (snd x) = Some k} = {p. lg_place (ledger_of c) p = Some k}"
    using wf by (force simp: bind_eq_Some_conv hm_get_Some_iff)
  also have "(\<Sum>p\<in>\<dots>. demand r (the (hm_get ?ps p))) = lg_load (ledger_of c) k r"
    unfolding lg_load_def by (rule sum.cong) (auto simp: bind_eq_Some_conv)
  finally show ?thesis by simp
qed

lemma ledger_of_cong:
  assumes "\<And>k. map_option (\<lambda>p. (scheduled p, pod_spec p)) (hm_get (cache_pods c') k) =
           map_option (\<lambda>p. (scheduled p, pod_spec p)) (hm_get (cache_pods c) k)"
    and "hm_get (cache_nodes c') = hm_get (cache_nodes c)"
  shows "ledger_of c' = ledger_of c"
proof -
  have dm: "(\<lambda>r. demand r p) = (\<lambda>r. demand r p')" if "pod_spec p = pod_spec p'" for p p'
  proof
    show "demand r p = demand r p'" for r using that by (cases r) simp_all
  qed
  have d: "map_option (\<lambda>p r. demand r p) (hm_get (cache_pods c') k) =
      map_option (\<lambda>p r. demand r p) (hm_get (cache_pods c) k)" for k
    using assms(1) [of k]
    by (cases "hm_get (cache_pods c') k"; cases "hm_get (cache_pods c) k") (auto intro: dm)
  have "Option.bind (hm_get (cache_pods c') k) scheduled = Option.bind (hm_get (cache_pods c) k) scheduled" for k
    using assms(1) [of k]
    by (cases "hm_get (cache_pods c') k"; cases "hm_get (cache_pods c) k") auto
  then show ?thesis unfolding ledger_of_def assms(2) d by simp
qed

lemma restrict_map_UNIV: "m |` UNIV = m"
  by (simp add: restrict_map_def)

lemma ledger_stutter: "ledger_step L L"
  using give_back [of L "{}"] by (simp add: restrict_map_UNIV)

lemma ledger_of_assume:
  assumes "hm_get (cache_pods c) pname = Some p" "scheduled p = None" "hm_get (cache_nodes c) k = Some n"
  shows "ledger_of (fst (assume_pod pname k c)) =
           (ledger_of c)\<lparr>lg_place := (lg_place (ledger_of c))(pname \<mapsto> k)\<rparr>"
  using assms by (auto simp: ledger_of_def assume_pod_def fun_eq_iff)

lemma ledger_of_unassume:
  "ledger_of (fst (unassume_pod pname c)) = ledger_of c \<or>
   ledger_of (fst (unassume_pod pname c)) =
     (ledger_of c)\<lparr>lg_place := (lg_place (ledger_of c)) |` (- {pname})\<rparr>"
  by (auto simp: ledger_of_def unassume_pod_def fun_eq_iff restrict_map_def split: option.split)

lemma ledger_of_unassume_all:
  "\<exists>X. ledger_of (fst (unassume_all ns c)) = (ledger_of c)\<lparr>lg_place := (lg_place (ledger_of c)) |` (- X)\<rparr>"
proof (rule unassume_all_induct [of "\<lambda>c'. \<exists>X. ledger_of c' = (ledger_of c)\<lparr>lg_place := lg_place (ledger_of c) |` (- X)\<rparr>"])
  fix c' p
  assume "\<exists>X. ledger_of c' = (ledger_of c)\<lparr>lg_place := lg_place (ledger_of c) |` (- X)\<rparr>"
  then obtain X where X: "ledger_of c' = (ledger_of c)\<lparr>lg_place := lg_place (ledger_of c) |` (- X)\<rparr>" by blast
  have "- X \<inter> - {p} = - insert p X" by auto
  then have "ledger_of c'\<lparr>lg_place := lg_place (ledger_of c') |` (- {p})\<rparr> =
      (ledger_of c)\<lparr>lg_place := lg_place (ledger_of c) |` (- insert p X)\<rparr>"
    unfolding X by simp
  then show "\<exists>X. ledger_of (fst (unassume_pod p c')) = (ledger_of c)\<lparr>lg_place := lg_place (ledger_of c) |` (- X)\<rparr>"
    using ledger_of_unassume [of p c'] X by metis
next
  show "\<exists>X. ledger_of c = (ledger_of c)\<lparr>lg_place := lg_place (ledger_of c) |` (- X)\<rparr>"
    by (rule exI [of _ "{}"]) (simp add: restrict_map_UNIV)
qed

section \<open>The refinement\<close>

text \<open>The events that are steps of the scheduler itself, not of its environment.\<close>

fun own_event :: "sched_event \<Rightarrow> bool" where
  "own_event (ScheduleOne _) = True"
| "own_event (Unassume _) = True"
| "own_event (GangWatchdog _) = True"
| "own_event (FlushBackoff _) = True"
| "own_event (FlushUnschedulable _) = True"
| "own_event Rehash = True"
| "own_event _ = False"

lemma schedule_one_refines:
  assumes "sched_sound s"
  shows "ledger_step (ledger_of (sch_cache s)) (ledger_of (sch_cache (schedule_one now s)))"
proof (cases rule: schedule_one_cases [of now s])
  case quiet
  then show ?thesis using ledger_of_cong [of "sch_cache (schedule_one now s)" "sch_cache s"] ledger_stutter by simp
next
  case (chosen pr pname q pod nm)
  note d = sched_soundD [OF assms]
  let ?c = "sch_cache s"
  obtain n where n: "n \<in> set (get_nodes ?c)" "node_name n = nm"
    "feasible (sch_gang s) (all_scheduled_pods ?c) (get_nodes ?c) pod n"
    using chosen_is_best [OF nodes_wf_cache [OF d(1)]] chosen(3) d(6) unfolding sch_enabled_def by metis
  have node: "hm_get (cache_nodes ?c) nm = Some n" using cache_wf_get_nodes [OF d(5) n(1)] n(2) by simp
  have pod: "hm_get (cache_pods ?c) pname = Some pod" using chosen(2) by (simp add: get_pod_def)
  have "pname \<in># waiting (sch_queue s)" using waiting_next_pod [OF chosen(1)] by simp
  then have free: "scheduled pod = None" using d(4) pod by (auto simp: settled_def)
  have "lg_load (ledger_of ?c) nm r + demand r pod \<le> capacity r n" for r
    using feasible_fits [OF d(2) node n(3), of r] balanced_get [OF d(2) node]
    by (simp add: ledger_of_load [OF d(5)] node_balanced_def)
  then have "ledger_step (ledger_of ?c) ((ledger_of ?c)\<lparr>lg_place := (lg_place (ledger_of ?c))(pname \<mapsto> nm)\<rparr>)"
    using pod free node by (intro place) auto
  then show ?thesis
    using ledger_of_assume [OF pod free node] chosen(4) by (simp add: commit_choice_cache)
qed



end
