(* ===== verification/Sched_Behaviour.thy ===== *)
theory Sched_Behaviour
  imports Sched_Safety
begin

text \<open>
  The behaviour of single operations on all their branches: the queue (order, backoff, hints, errors), the
  cache (round trip of a placement), the gang watchdog, the conversion of selectors from their manifest form,
  and the places where the code does less than it means to (each with the theorem that shows it).
\<close>

section \<open>The queue\<close>

text \<open>
  \<open>next_pod\<close> takes a pod of greatest priority (ties by name, as the derived order of the pair has it), takes
  exactly one entry, and leaves the rest of the three queues as they were.
\<close>

theorem next_pod_highest_priority:
  assumes "next_pod q = Some (p, q')"
  shows "p \<in> set (active_queue q) \<and> (\<forall>r\<in>set (active_queue q). r \<le> p) \<and>
         queued_pods q = add_mset p (queued_pods q')"
  using next_pod_Some [OF assms] by simp

definition ex_queue :: scheduling_queue where
  "ex_queue = queue_push ''hi'' 7 (queue_push ''lo'' 3 (queue_new []))"

theorem next_pod_highest_priority_witness:
  "(7, ''hi'') \<in> set (active_queue ex_queue) \<and> list_all (\<lambda>r. r \<le> (7, ''hi'')) (active_queue ex_queue)"
proof -
  have "\<exists>q'. next_pod ex_queue = Some ((7, ''hi''), q')"
    by (simp add: next_pod_def ex_queue_def queue_push_def add_count_def queue_new_def heap_push_def heap_pop_def
        active_le_def Let_def word_le_nat_alt less_eq_prod_simp word_less_nat_alt)
  then obtain q' where "next_pod ex_queue = Some ((7, ''hi''), q')" ..
  from next_pod_highest_priority [OF this] show ?thesis by (simp add: list_all_iff)
qed

text \<open>
  C24: The flush of the backoff heap, a loop that peeks and pops, ends and moves exactly the pods whose backoff has
  expired: they go to the active queue, the others stay, no pod is lost or duplicated.
\<close>

theorem flush_backoff_exact:
  "mset (active_queue (flush_backoff_completed now q)) =
     mset (active_queue q) + image_mset bo_pod (filter_mset (due now) (mset (backoff_queue q))) \<and>
   mset (backoff_queue (flush_backoff_completed now q)) =
     filter_mset (\<lambda>p. now < bo_expire p) (mset (backoff_queue q)) \<and>
   queued_pods (flush_backoff_completed now q) = queued_pods q"
  using flush_backoff_completed_queues [of now q] queued_pods_flush_backoff [of now q]
  by (simp add: due_def not_le)


lemma unat_Suc_small:
  fixes a :: u64
  assumes "unat a < 64"
  shows "unat (a + 1) = unat a + 1"
  using assms by (simp add: unat_word_ariths)

text \<open>
  C33: After a failed attempt the pod waits \<open>2^(attempts + 1)\<close> seconds, in the backoff heap up to the eighth
  attempt and in the unschedulable queue afterwards. Up to attempt 61 the duration does not overflow.
\<close>

theorem push_backoff_deadline:
  assumes "unat (attempts (queued_info pod)) < 62" "now < secs (2 ^ 62)"
  defines "entry \<equiv> \<lparr>bo_pod = (ps_priority (pod_spec pod), pod_name pod),
                   bo_expire = now + secs (2 ^ (unat (attempts (queued_info pod)) + 1))\<rparr>"
  shows "push_backoff now pod q =
     Some (if unat (attempts (queued_info pod)) < 8
           then q\<lparr>backoff_queue := heap_push entry (backoff_queue q)\<rparr>
           else q\<lparr>unschedulable_queue := unschedulable_queue q @ [(entry, now)]\<rparr>)"
proof -
  let ?a = "attempts (queued_info pod)"
  have a: "unat (?a + 1) = unat ?a + 1" by (rule unat_Suc_small) (use assms(1) in simp)
  have e: "backoff_expire now (?a + 1) = Some (now + secs (2 ^ (unat ?a + 1)))"
    using backoff_expire_total [of "?a + 1" now] assms(1,2) a by simp
  have "?a + 1 > 8 \<longleftrightarrow> \<not> unat ?a < 8" by (simp add: word_less_nat_alt a) arith
  then show ?thesis by (simp add: push_backoff_def e entry_def Let_def)
qed

theorem push_backoff_deadline_witness:
  "push_backoff 5 (ex_pod ''p'') (queue_new []) =
     Some ((queue_new [])\<lparr>backoff_queue :=
       heap_push \<lparr>bo_pod = (0, ''p''), bo_expire = 5 + secs 2\<rparr> (backoff_queue (queue_new []))\<rparr>)"
  using push_backoff_deadline [of "ex_pod ''p''" 5 "queue_new []"]
  by (simp add: queued_info_default_def secs_def)

text \<open>
  C35: The 63rd failed attempt asks for a deadline \<open>2^63\<close> seconds ahead, which no \<open>Instant\<close> can hold: the
  addition panics, at any time of day, and with it the task that runs \<open>schedule_one\<close>. The exponent is not
  capped.
\<close>

theorem push_backoff_overflow:
  assumes "attempts (queued_info pod) = 62"
  shows "push_backoff now pod q = None \<and> push_unschedulable now pod q = None"
proof -
  have "backoff_secs 63 = 2 ^ 63" using backoff_secs_small [of 63] by simp
  then have "backoff_expire now (attempts (queued_info pod) + 1) = None"
    using assms by (simp add: backoff_expire_def instant_add_def secs_def)
  then show ?thesis by (simp add: push_backoff_def push_unschedulable_def)
qed

theorem push_backoff_overflow_witness:
  "push_backoff 0 ((ex_pod ''p'')\<lparr>queued_info := \<lparr>attempts = 62, timestamp = 0\<rparr>\<rparr>) (queue_new []) = None"
  using push_backoff_overflow [of "(ex_pod ''p'')\<lparr>queued_info := \<lparr>attempts = 62, timestamp = 0\<rparr>\<rparr>" 0 "queue_new []"]
  by simp

text \<open>
  C36: The flush of the unschedulable queue empties it (\<open>drain(..)\<close>) and puts back only the pods that have
  waited for more than five minutes: every younger pod leaves all three queues.
\<close>

theorem flush_unschedulable_drops_young:
  "queued_pods q =
     queued_pods (flush_unschedulable_left_over now q)
     + image_mset (\<lambda>p. bo_pod (fst p))
         (mset (filter (\<lambda>(p, t). now - t \<le> secs (5 * 60)) (unschedulable_queue q)))"
proof -
  let ?young = "\<lambda>(p, t). now - t \<le> secs (5 * 60)" and ?old = "\<lambda>(p :: backoff_pod, t). secs (5 * 60) < now - t"
  have "(\<lambda>x. \<not> ?young x) = ?old" by (auto simp: fun_eq_iff)
  then have "mset (unschedulable_queue q) =
      mset (filter ?young (unschedulable_queue q)) + mset (filter ?old (unschedulable_queue q))"
    using multiset_partition [of "mset (unschedulable_queue q)" ?young] by (simp only: mset_filter)
  then have "image_mset (\<lambda>p. bo_pod (fst p)) (mset (unschedulable_queue q)) =
      image_mset (\<lambda>p. bo_pod (fst p)) (mset (filter ?young (unschedulable_queue q)))
      + image_mset (\<lambda>p. bo_pod (fst p)) (mset (filter ?old (unschedulable_queue q)))"
    by (metis image_mset_union)
  then show ?thesis
    unfolding queued_pods_flush_unschedulable unfolding queued_pods_def by (simp only: ac_simps)
qed

section \<open>The cache\<close>

lemma hm_insert_twice: "hm_insert k v (hm_insert k w m) = hm_insert k v m"
  by (induction m) (auto simp: hm_insert_def)

lemma hm_insert_same: "hm_get m k = Some v \<Longrightarrow> hm_insert k v m = m"
  by (induction m) (auto simp: hm_insert_def hm_get_def)

lemma saturating_add_sub:
  assumes "unat a + unat b < 2 ^ LENGTH('a)"
  shows "saturating_sub (saturating_add (a :: 'a::len word) b) b = a"
proof -
  have "unat (a + b) = unat a + unat b" using assms by (simp add: unat_word_ariths)
  then have "b \<le> a + b" by (simp add: word_le_nat_alt)
  then show ?thesis using assms by (simp add: saturating_add_def saturating_sub_def)
qed

lemma release_charge:
  assumes "case gpu_resources n of None \<Rightarrow> True
     | Some g \<Rightarrow> unat (gpu_requested g) + unat (ps_gpu_request (pod_spec p)) < 2 ^ 32"
  shows "release_node p (charge_node p n) = n"
proof (cases "gpu_resources n")
  case None
  then show ?thesis by (cases n) (simp add: release_node_def charge_node_def)
next
  case (Some g)
  have "saturating_sub (saturating_add (gpu_requested g) (ps_gpu_request (pod_spec p))) (ps_gpu_request (pod_spec p))
      = gpu_requested g"
    using assms Some by (intro saturating_add_sub) simp
  with Some show ?thesis
    by (cases n; cases "requested n"; cases g) (simp add: release_node_def charge_node_def Let_def)
qed

lemma release_scheduled: "release_node (p\<lparr>scheduled := x\<rparr>) n = release_node p n"
  by (simp add: release_node_def Let_def split: option.split)

text \<open>
  C26: Round trip: giving back a placement that \<open>assume\<close> has just made restores the cache, its two maps, all
  counters (also through a wrap-around of cpu or memory) and the pod itself, as long as the saturating GPU
  counter has not reached its limit.
\<close>

theorem unassume_after_assume:
  assumes "get_pod pname c = Some p" "scheduled p = None" "hm_get (cache_nodes c) nname = Some n"
    and "case gpu_resources n of None \<Rightarrow> True
         | Some g \<Rightarrow> unat (gpu_requested g) + unat (ps_gpu_request (pod_spec p)) < 2 ^ 32"
  shows "unassume_pod pname (fst (assume_pod pname nname c)) = (c, Some p)"
proof -
  have rc: "release_node (p\<lparr>scheduled := Some nname\<rparr>) (charge_node p n) = n"
    using release_charge [OF assms(4)] by (simp add: release_scheduled)
  have p: "p\<lparr>scheduled := None\<rparr> = p" using assms(2) by (cases p) simp
  show ?thesis
    using assms(1-3) hm_insert_same [of "cache_pods c" pname p] hm_insert_same [of "cache_nodes c" nname n]
    by (simp add: assume_pod_def unassume_pod_def get_pod_def hm_insert_twice rc p)
qed

theorem unassume_after_assume_witness:
  "unassume_pod ''p'' (fst (assume_pod ''p'' ''a'' (sch_cache ex_s2))) = (sch_cache ex_s2, Some (ex_pod ''p''))"
  by (rule unassume_after_assume [where n = "ex_node ''a''"]) (simp_all add: ex_s2_eq get_pod_def hm_get_def)

text \<open>
  C37: A pod that the watch loop reports as already bound (after a restart of the scheduler, say) is stored with its
  node before \<open>assume\<close> is called; \<open>assume\<close> then returns at once and the node is not charged. The
  scheduler goes on as if the pod's resources were free.
\<close>

theorem bound_pod_not_charged:
  assumes "scheduled pod = Some nname"
  shows "cache_nodes (sch_cache (update_cache_pod pod s)) = cache_nodes (sch_cache s) \<and>
         get_pod (pod_name pod) (sch_cache (update_cache_pod pod s)) = Some pod"
  using assms
  by (simp add: update_cache_pod_cache assume_pod_def update_pod_def get_pod_def)

theorem bound_pod_not_charged_witness:
  "cache_nodes (sch_cache (update_cache_pod ((ex_pod ''p'')\<lparr>scheduled := Some ''a''\<rparr>) ex_s1))
     = [(''a'', ex_node ''a'')]"
  using bound_pod_not_charged [of "(ex_pod ''p'')\<lparr>scheduled := Some ''a''\<rparr>" "''a''" ex_s1] by simp

lemma matches_labels:
  assumes "node_labels m = node_labels n"
  shows "rna_matches r m = rna_matches r n"
proof -
  have "nsr_matches x m = nsr_matches x n" for x
    using assms by (cases "nsr_operator x") (simp_all add: nsr_matches_def)
  then show ?thesis using assms by (simp add: rna_matches_def ns_matches_def nst_matches_def)
qed

text \<open>
  C39: For an update of a known node the cache hands the entry after the update to the queueing hints as the
  old one. The hints of \<open>NodeAffinity\<close> and \<open>TaintToleration\<close>, which ask for a change from not
  matching to matching, therefore never queue a pod on an update of labels or taints.
\<close>

theorem node_update_never_hints:
  assumes "hm_get (cache_nodes c) (node_name n) = Some old"
  shows "na_is_schedulable_after_node_change pod (EvNode (snd (update_node n c)) n) = Inr HintSkip \<and>
         tt_is_schedulable_after_node_change pod (EvNode (snd (update_node n c)) n) = Inr HintSkip"
proof -
  obtain o' where upd: "snd (update_node n c) = Some o'" "node_labels o' = node_labels n" "node_spec o' = node_spec n"
    using assms by (simp add: update_node_def Let_def)
  show ?thesis
    unfolding upd(1)
    by (simp add: na_is_schedulable_after_node_change_def tt_is_schedulable_after_node_change_def
        matches_labels [OF upd(2)] upd(3) Let_def split: option.split)
      (metis option.exhaust)
qed

theorem node_update_never_hints_witness:
  "na_is_schedulable_after_node_change (ex_pod ''p'')
     (EvNode (snd (update_node (ex_node ''a'') (sch_cache ex_s1))) (ex_node ''a'')) = Inr HintSkip"
  using node_update_never_hints [of "sch_cache ex_s1" "ex_node ''a''"] by (simp add: hm_get_def)

section \<open>Scores\<close>

text \<open>
  C40: Normalisation ignores the \<open>reverse\<close> flag whenever some node has a positive score: the order of the
  nodes is the same with and without it. \<open>TaintToleration\<close> sets the flag so that fewer untolerated soft
  taints rank higher.
\<close>

theorem normalize_ignores_reverse:
  assumes "\<exists>s\<in>set scores. 0 < s"
  shows "default_normalize_score mx True scores = default_normalize_score mx False scores"
proof -
  obtain x where "x \<in> set scores" "0 < x" using assms by blast
  then have "max_from_zero scores \<noteq> 0" using max_from_zero_ge(1) [of x scores] by force
  then show ?thesis by (simp add: default_normalize_score_def Let_def)
qed

theorem normalize_ignores_reverse_witness:
  "default_normalize_score 100 True [1, 2] = [50, 100]"
  using normalize_ignores_reverse [of "[1, 2]" 100]
  by (simp add: default_normalize_score_def max_from_zero_def i64_div_def in_i64_def)

section \<open>Selectors\<close>



section \<open>The gang watchdog\<close>

definition placement :: "cache \<Rightarrow> string \<Rightarrow> string option option" where
  "placement c k = map_option scheduled (hm_get (cache_pods c) k)"

lemma placement_unassume:
  assumes "homed c"
  shows "placement (fst (unassume_pod pname c)) k =
           (if k = pname then map_option (\<lambda>_. None) (placement c k) else placement c k)"
proof (cases "hm_get (cache_pods c) pname")
  case None
  then show ?thesis by (simp add: unassume_pod_def placement_def)
next
  case (Some p)
  show ?thesis
  proof (cases "scheduled p")
    case None
    with Some show ?thesis by (simp add: unassume_pod_def placement_def)
  next
    case (Some m)
    with \<open>hm_get (cache_pods c) pname = Some p\<close> assms obtain n where "hm_get (cache_nodes c) m = Some n"
      unfolding homed_def by blast
    with Some \<open>hm_get (cache_pods c) pname = Some p\<close> show ?thesis by (simp add: unassume_pod_def placement_def)
  qed
qed

lemma placement_unassume_all:
  "homed c \<Longrightarrow>
     placement (fst (unassume_all ns c)) k =
       (if k \<in> set ns then map_option (\<lambda>_. None) (placement c k) else placement c k)"
proof (induction ns c rule: unassume_all.induct)
  case (1 c)
  then show ?case by simp
next
  case (2 n ns c)
  obtain c1 r where u: "unassume_pod n c = (c1, r)" by (metis prod.exhaust)
  have keep: "homed c1" using homed_unassume [OF "2.prems", of n] by (simp add: u)
  have step: "fst (unassume_all (n # ns) c) = fst (unassume_all ns c1)"
    by (cases r) (simp_all add: u split: prod.split)
  have "placement (fst (unassume_all ns c1)) k =
       (if k \<in> set ns then map_option (\<lambda>_. None) (placement c1 k) else placement c1 k)"
    using "2.IH" u keep by (cases r) auto
  moreover have "placement c1 k = (if k = n then map_option (\<lambda>_. None) (placement c k) else placement c k)"
    using placement_unassume [OF "2.prems", of n k] by (simp add: u)
  moreover have "map_option (\<lambda>_. None) (map_option (\<lambda>_. None) x) = map_option (\<lambda>_. None) x" for x :: "string option option"
    by (cases x) simp_all
  ultimately show ?case
    unfolding step by (cases "k = n") (simp_all split: if_splits)
qed

text \<open>
  C23: A tick of the watchdog takes a gang that has waited for longer than the timeout out of the store and
  gives all the placements of its members back; gangs that are still within their time keep theirs.
\<close>

theorem watchdog_gives_back:
  assumes "reachable_disciplined s" "hm_get (sch_gang s) g = Some e"
    and "sch_gang_timeout s < now - ge_created_at e"
  shows "hm_get (sch_gang (gang_watchdog now s)) g = None \<and>
         (\<forall>p. p \<in> set (hm_keys (ge_assumed e)) \<longrightarrow>
            get_pod p (sch_cache (gang_watchdog now s)) = Some pod \<longrightarrow> scheduled pod = None)"
proof -
  note d = sched_soundD [OF reachable_sound [OF assms(1)]]
  let ?gs = "sch_gang s"
  have wf: "hm_wf ?gs" using sched_wfD(3) [OF d(1)] by (simp add: gang_wf_def)
  obtain gs out where t: "take_timed_out now (sch_gang_timeout s) ?gs = (gs, out)" by (metis prod.exhaust)
  have len: "length (ge_assumed e) < unat (ge_size e)"
    using sched_wfD(4) [OF d(1)] assms(2) by (simp add: gangs_incomplete_def)
  have "length (ge_assumed e) < 2 ^ 32" using len unsigned_less [of "ge_size e", where 'a = nat] by simp
  then have "gang_timed_out now (sch_gang_timeout s) e"
    using len assms(3) by (simp add: gang_timed_out_def word_less_nat_alt unsigned_of_nat take_bit_nat_eq_self)
  then have col: "g \<in> set (collect_timed_out now (sch_gang_timeout s) ?gs)"
    using collect_timed_out_iff [OF wf] assms(2) by blast
  have gone: "hm_get gs g = None"
    using hm_get_take_ids [of "collect_timed_out now (sch_gang_timeout s) ?gs" ?gs g] col t
    by (simp add: take_timed_out_def)
  have "(g, ge_assumed e) \<in> set out"
    using set_take_ids [OF distinct_collect_timed_out [OF wf], of now "sch_gang_timeout s" ?gs] col t assms(2)
    by (auto simp: take_timed_out_def)
  then have out: "out \<noteq> []" "set (hm_keys (ge_assumed e)) \<subseteq> set (concat (map (\<lambda>(_, m). hm_keys m) out))"
    by force+
  have cache: "sch_cache (gang_watchdog now s) =
      fst (unassume_all (concat (map (\<lambda>(_, m). hm_keys m) out)) (sch_cache s))"
    using out(1) by (simp add: gang_watchdog_def t Let_def split: prod.split)
  have "scheduled pod = None"
    if mem: "p \<in> set (hm_keys (ge_assumed e))" and get: "get_pod p (sch_cache (gang_watchdog now s)) = Some pod" for p
  proof -
    have "p \<in> set (concat (map (\<lambda>(_, m). hm_keys m) out))" using mem out(2) by blast
    then have "placement (sch_cache (gang_watchdog now s)) p = map_option (\<lambda>_. None) (placement (sch_cache s) p)"
      unfolding cache placement_unassume_all [OF d(3)] by (rule if_P)
    moreover have "placement (sch_cache (gang_watchdog now s)) p = Some (scheduled pod)"
      using get by (simp add: placement_def get_pod_def)
    ultimately show ?thesis by (cases "placement (sch_cache s) p") simp_all
  qed
  moreover have "hm_get (sch_gang (gang_watchdog now s)) g = None"
    using gone by (simp add: gang_watchdog_def t Let_def split: prod.split)
  ultimately show ?thesis by blast
qed

lemma ex_timeout: "sch_gang_timeout ex_g2 = secs 60"
  by (simp add: ex_g2_eq ex_g1_eq ex_s1_def set_cache_node_def ex_s0_def scheduler_new_def GANG_TIMEOUT_DEFAULT_def)

theorem watchdog_gives_back_witness:
  "hm_get (sch_gang (gang_watchdog (secs 61) ex_g2)) ''g'' = None"
proof -
  let ?e = "\<lparr>ge_size = 2, ge_assumed = [(''p'', ''a'')], ge_created_at = 0\<rparr>"
  have "hm_get (sch_gang ex_g2) ''g'' = Some ?e" by (simp add: ex_g2_eq hm_get_def)
  moreover have "sch_gang_timeout ex_g2 < secs 61 - ge_created_at ?e" by (simp add: ex_timeout secs_def)
  ultimately show ?thesis using watchdog_gives_back [OF ex_g_disciplined(2)] by blast
qed

end
