(* ===== verification/Sched_Xline.thy ===== *)
theory Sched_Xline
  imports Sched_Safety
begin

text \<open>
  The watch loop that feeds the scheduler, \<open>libscheduler/src/with_xline\<close>: quantities of the manifests
  (\<open>parse_cpu\<close>, \<open>parse_memory\<close>), the conversion of pods and nodes, the handlers of the two watch streams, the
  start-up and the reconnect loop. Strings are ASCII. The YAML parser (\<open>serde_yaml\<close>) and the content of the
  store are arguments. The lemmas show that the whole service only takes steps of \<open>sched_step\<close>, so that the
  invariants of the scheduler hold for it.
\<close>

section \<open>Strings\<close>

fun split_char :: "char \<Rightarrow> string \<Rightarrow> string list" where
  "split_char c [] = [[]]"
| "split_char c (x # xs) =
     (if x = c then [] # split_char c xs
      else (case split_char c xs of [] \<Rightarrow> [[x]] | w # ws \<Rightarrow> (x # w) # ws))"

text \<open>\<open>ends_with\<close> and \<open>trim_end_matches\<close> (which strips the suffix as often as it occurs).\<close>

definition ends_with :: "string \<Rightarrow> string \<Rightarrow> bool" where
  "ends_with suf s \<longleftrightarrow> length suf \<le> length s \<and> drop (length s - length suf) s = suf"

function trim_end_matches :: "string \<Rightarrow> string \<Rightarrow> string" where
  "trim_end_matches suf s =
     (if suf \<noteq> [] \<and> ends_with suf s then trim_end_matches suf (take (length s - length suf) s) else s)"
  by pat_completeness auto
termination
  by (relation "measure (\<lambda>(_, s). length s)") (auto simp: ends_with_def simp flip: length_greater_0_conv)

declare trim_end_matches.simps [simp del]

definition to_lower :: "char \<Rightarrow> char" where
  "to_lower c = (let n = of_char c :: nat in if 65 \<le> n \<and> n \<le> 90 then char_of (n + 32) else c)"

definition to_lowercase :: "string \<Rightarrow> string" where
  "to_lowercase = map to_lower"

section \<open>Quantities\<close>

text \<open>
  \<open>str::parse::<f64>\<close>: an optional sign, then \<open>inf\<close>, \<open>infinity\<close>, \<open>nan\<close> (any case), or digits with an optional point (at
  least one digit) and an optional exponent. The value is the nearest \<open>f64\<close>. Values beyond the range of
  \<open>f64\<close> stay rational here; the conversion to \<open>u64\<close> saturates for them all the same.
\<close>

datatype f64_value = Finite rat | PosInf | NegInf | NaN

definition span_digits :: "string \<Rightarrow> string \<times> string" where
  "span_digits s = (takeWhile (\<lambda>c. digit_val c \<noteq> None) s, dropWhile (\<lambda>c. digit_val c \<noteq> None) s)"

definition digits_value :: "string \<Rightarrow> nat" where
  "digits_value s = (case parse_digits_acc 0 s of Some n \<Rightarrow> n | None \<Rightarrow> 0)"

definition parse_exponent :: "string \<Rightarrow> int option" where
  "parse_exponent s =
     (case s of
        [] \<Rightarrow> Some 0
      | c # cs \<Rightarrow>
          if to_lower c \<noteq> CHR ''e'' then None
          else
            (let neg = (cs \<noteq> [] \<and> hd cs = CHR ''-'');
                 ds = (if cs \<noteq> [] \<and> (hd cs = CHR ''-'' \<or> hd cs = CHR ''+'') then tl cs else cs)
             in map_option (\<lambda>n. if neg then - int n else int n) (parse_digits ds)))"

definition parse_number :: "string \<Rightarrow> rat option" where
  "parse_number s =
     (let (whole, rest) = span_digits s;
          (frac, rest') =
            (if rest \<noteq> [] \<and> hd rest = CHR ''.'' then span_digits (tl rest) else ([], rest))
      in if whole = [] \<and> frac = [] then None
         else map_option
                (\<lambda>e. of_nat (digits_value (whole @ frac)) * 10 powi (e - int (length frac)))
                (parse_exponent rest'))"

definition parse_f64 :: "string \<Rightarrow> f64_value option" where
  "parse_f64 s =
     (let neg = (s \<noteq> [] \<and> hd s = CHR ''-'');
          body = (if s \<noteq> [] \<and> (hd s = CHR ''-'' \<or> hd s = CHR ''+'') then tl s else s);
          low = to_lowercase body
      in if low = ''inf'' \<or> low = ''infinity'' then Some (if neg then NegInf else PosInf)
         else if low = ''nan'' then Some NaN
         else map_option (\<lambda>x. Finite (f64_round (if neg then - x else x))) (parse_number body))"

text \<open>The product with \<open>1000.0\<close> and the saturating cast to \<open>u64\<close>.\<close>

fun milli_u64 :: "f64_value \<Rightarrow> u64" where
  "milli_u64 (Finite x) = f64_as_u64 (f64_mul x 1000)"
| "milli_u64 PosInf = - 1"
| "milli_u64 NegInf = 0"
| "milli_u64 NaN = 0"

definition parse_u64_or_0 :: "string \<Rightarrow> u64" where
  "parse_u64_or_0 s = (case parse_u64 s of Some v \<Rightarrow> v | None \<Rightarrow> 0)"

definition parse_cpu :: "string \<Rightarrow> u64" where
  "parse_cpu cpu_str =
     (if ends_with ''m'' cpu_str then parse_u64_or_0 (trim_end_matches ''m'' cpu_str)
      else milli_u64 (case parse_f64 cpu_str of Some v \<Rightarrow> v | None \<Rightarrow> Finite 0))"

definition parse_memory :: "string \<Rightarrow> u64" where
  "parse_memory memory_str =
     (let m = to_lowercase memory_str
      in if ends_with ''ki'' m then parse_u64_or_0 (trim_end_matches ''ki'' m) * 1024
         else if ends_with ''mi'' m then parse_u64_or_0 (trim_end_matches ''mi'' m) * 1024 * 1024
         else if ends_with ''gi'' m then parse_u64_or_0 (trim_end_matches ''gi'' m) * 1024 * 1024 * 1024
         else if ends_with ''k'' m then parse_u64_or_0 (trim_end_matches ''k'' m) * 1000
         else if ends_with ''m'' m then parse_u64_or_0 (trim_end_matches ''m'' m) * 1000 * 1000
         else if ends_with ''g'' m then parse_u64_or_0 (trim_end_matches ''g'' m) * 1000 * 1000 * 1000
         else parse_u64_or_0 m)"

section \<open>Conversions\<close>

definition container_limits :: "c_container_spec \<Rightarrow> c_resource option" where
  "container_limits c = Option.bind (c_cont_resources c) c_limits"

definition limits_of :: "c_container_spec list \<Rightarrow> c_resource list" where
  "limits_of cs = List.map_filter container_limits cs"

definition limit_cpu :: "c_resource \<Rightarrow> u64" where
  "limit_cpu l = parse_cpu (case c_res_cpu l of Some s \<Rightarrow> s | None \<Rightarrow> [])"

definition limit_memory :: "c_resource \<Rightarrow> u64" where
  "limit_memory l = parse_memory (case c_res_memory l of Some s \<Rightarrow> s | None \<Rightarrow> [])"

definition limit_gpu :: "c_resource \<Rightarrow> u32" where
  "limit_gpu l = (case c_res_gpu l of Some n \<Rightarrow> n | None \<Rightarrow> 0)"

definition max_gpu_mem :: "c_resource \<Rightarrow> u64 option \<Rightarrow> u64 option" where
  "max_gpu_mem l m =
     (case c_res_gpu_memory l of
        None \<Rightarrow> m
      | Some s \<Rightarrow>
          (let v = parse_memory s in Some (case m of None \<Rightarrow> v | Some m' \<Rightarrow> max m' v)))"

definition max_option :: "u64 option \<Rightarrow> u64 option \<Rightarrow> u64 option" where
  "max_option a b =
     (case (a, b) of
        (Some x, Some y) \<Rightarrow> Some (max x y)
      | (Some x, None) \<Rightarrow> Some x
      | (None, Some y) \<Rightarrow> Some y
      | (None, None) \<Rightarrow> None)"

definition convert_pod_task_to_pod_info :: "instant \<Rightarrow> c_pod_task \<Rightarrow> pod_info" where
  "convert_pod_task_to_pod_info now pod_task =
     (let sp = c_pt_spec pod_task;
          run = limits_of (c_ps_containers sp);
          init = limits_of (c_ps_init_containers sp);
          total_cpu = fold (\<lambda>l a. a + limit_cpu l) run 0;
          total_memory = fold (\<lambda>l a. a + limit_memory l) run 0;
          total_gpu = fold (\<lambda>l a. saturating_add a (limit_gpu l)) run 0;
          gpu_mem = fold max_gpu_mem run None;
          init_cpu = fold (\<lambda>l a. max a (limit_cpu l)) init 0;
          init_memory = fold (\<lambda>l a. max a (limit_memory l)) init 0;
          init_gpu = fold (\<lambda>l a. max a (limit_gpu l)) init 0;
          init_gpu_mem = fold max_gpu_mem init None
      in \<lparr>pod_name = c_meta_name (c_pt_metadata pod_task),
          pod_labels = c_meta_labels (c_pt_metadata pod_task),
          pod_spec =
            \<lparr>ps_resources =
               \<lparr>res_cpu = max total_cpu init_cpu, res_memory = max total_memory init_memory\<rparr>,
             ps_priority = 0,
             ps_scheduling_gates = [],
             ps_tolerations = c_ps_tolerations sp,
             ps_node_name = c_ps_node_name sp,
             ps_node_selector = [],
             ps_affinity = map_option affinity_from (c_ps_affinity sp),
             ps_gpu_request = max total_gpu init_gpu,
             ps_gpu_memory_request = max_option gpu_mem init_gpu_mem,
             ps_gang =
               map_option (\<lambda>g. \<lparr>gang_id = c_gang_id g, gang_size = c_gang_size g\<rparr>) (c_ps_gang sp),
             ps_topology_constraints =
               map (\<lambda>c. \<lparr>topology_key = c_topology_key c, same_value = c_same_value c\<rparr>)
                 (c_ps_topology_constraints sp)\<rparr>,
          queued_info = queued_info_default now,
          scheduled = c_ps_node_name sp\<rparr>)"

definition label_or :: "labels \<Rightarrow> string \<Rightarrow> string \<Rightarrow> string" where
  "label_or ls k d = (case hm_get ls k of Some v \<Rightarrow> v | None \<Rightarrow> d)"

definition node_gpus :: "labels \<Rightarrow> gpu_resources option" where
  "node_gpus ls =
     map_option
       (\<lambda>total.
          \<lparr>gpu_total = total, gpu_requested = 0,
           gpu_memory_per_gpu =
             (case Option.bind (hm_get ls ''nvidia.com/gpu.memory-gib'') parse_u64 of
                Some gib \<Rightarrow> gib * 1024 * 1024 * 1024
              | None \<Rightarrow> 0),
           gpu_model = label_or ls ''nvidia.com/gpu.product'' []\<rparr>)
       (Option.bind (hm_get ls ''nvidia.com/gpu.count'') parse_u32)"

definition convert_k8s_node_to_node_info :: "c_node \<Rightarrow> node_info" where
  "convert_k8s_node_to_node_info k8s_node =
     (let ls = c_meta_labels (c_node_metadata k8s_node);
          alloc = c_ns_allocatable (c_node_status k8s_node)
      in \<lparr>node_name = c_meta_name (c_node_metadata k8s_node),
          node_labels = ls,
          node_spec = \<lparr>unschedulable = False, taints = c_ns_taints (c_node_spec k8s_node)\<rparr>,
          requested = resources_default,
          allocatable =
            \<lparr>res_cpu = parse_cpu (label_or alloc ''cpu'' ''0''),
             res_memory = parse_memory (label_or alloc ''memory'' ''0'')\<rparr>,
          gpu_resources = node_gpus ls\<rparr>)"

section \<open>Watch events\<close>

record 'v kv =
  kv_key :: string
  kv_value :: 'v

datatype event_type = Put | Delete

record 'v watch_event =
  we_type :: event_type
  we_kv :: "'v kv option"
  we_prev_kv :: "'v kv option"

text \<open>A message of a watch stream: an error, the end of the stream, or a response with its events.\<close>

type_synonym 'v watch_msg = "string + 'v watch_event list option"

definition get_pod_from_kv :: "('v \<Rightarrow> c_pod_task option) \<Rightarrow> instant \<Rightarrow> 'v kv \<Rightarrow> pod_info option" where
  "get_pod_from_kv parse now kv =
     map_option (convert_pod_task_to_pod_info now) (parse (kv_value kv))"

definition get_node_from_kv :: "('v \<Rightarrow> c_node option) \<Rightarrow> 'v kv \<Rightarrow> node_info option" where
  "get_node_from_kv parse kv = map_option convert_k8s_node_to_node_info (parse (kv_value kv))"

text \<open>The last non-empty segment of a key.\<close>

definition key_name :: "string \<Rightarrow> string option" where
  "key_name key = List.find (\<lambda>s. s \<noteq> []) (rev (split_char (CHR ''/'') key))"

definition handle_pod_event ::
    "('v \<Rightarrow> c_pod_task option) \<Rightarrow> instant \<Rightarrow> 'v watch_event \<Rightarrow> scheduler \<Rightarrow> scheduler" where
  "handle_pod_event parse now e s =
     (case we_kv e of
        None \<Rightarrow> s
      | Some kv \<Rightarrow>
          (case we_type e of
             Put \<Rightarrow>
               (case get_pod_from_kv parse now kv of
                  None \<Rightarrow> s
                | Some new_pod \<Rightarrow>
                    (let prev_pod = Option.bind (we_prev_kv e) (get_pod_from_kv parse now)
                     in case (ps_node_name (pod_spec new_pod), prev_pod) of
                          (None, _) \<Rightarrow> update_cache_pod new_pod s
                        | (Some _, None) \<Rightarrow> update_cache_pod new_pod s
                        | _ \<Rightarrow> s))
           | Delete \<Rightarrow>
               (case key_name (kv_key kv) of Some n \<Rightarrow> remove_cache_pod n s | None \<Rightarrow> s)))"

definition handle_pod_update ::
    "('v \<Rightarrow> c_pod_task option) \<Rightarrow> instant \<Rightarrow> 'v watch_msg \<Rightarrow> scheduler \<Rightarrow> scheduler" where
  "handle_pod_update parse now msg s =
     (case msg of Inr (Some events) \<Rightarrow> fold (handle_pod_event parse now) events s | _ \<Rightarrow> s)"

definition handle_node_event ::
    "('v \<Rightarrow> c_node option) \<Rightarrow> 'v watch_event \<Rightarrow> scheduler \<Rightarrow> scheduler" where
  "handle_node_event parse e s =
     (case we_kv e of
        None \<Rightarrow> s
      | Some kv \<Rightarrow>
          (case we_type e of
             Put \<Rightarrow>
               (case get_node_from_kv parse kv of
                  Some node \<Rightarrow> update_cache_node node s
                | None \<Rightarrow> s)
           | Delete \<Rightarrow>
               (case key_name (kv_key kv) of Some n \<Rightarrow> remove_cache_node n s | None \<Rightarrow> s)))"

definition handle_node_update ::
    "('v \<Rightarrow> c_node option) \<Rightarrow> 'v watch_msg \<Rightarrow> scheduler \<Rightarrow> scheduler" where
  "handle_node_update parse msg s =
     (case msg of Inr (Some events) \<Rightarrow> fold (handle_node_event parse) events s | _ \<Rightarrow> s)"

section \<open>Start-up\<close>

text \<open>\<open>str::replace\<close> with the empty string.\<close>

function remove_all :: "string \<Rightarrow> string \<Rightarrow> string" where
  "remove_all pat s =
     (if s = [] then []
      else if pat \<noteq> [] \<and> take (length pat) s = pat then remove_all pat (drop (length pat) s)
      else hd s # remove_all pat (tl s))"
  by pat_completeness auto
termination
  by (relation "measure (\<lambda>(_, s). length s)") (auto simp flip: length_greater_0_conv)

declare remove_all.simps [simp del]

text \<open>
  The listing of the pods reads the keys under the prefix and then each pod again by name; \<open>get\<close> is the answer of the store
  (an error, nothing, or a value). \<open>Inl\<close> is the early return with an error.
\<close>

definition get_pod_task ::
    "('v \<Rightarrow> c_pod_task option) \<Rightarrow> (string \<Rightarrow> string + 'v option) \<Rightarrow> string \<Rightarrow> string + c_pod_task option" where
  "get_pod_task parse get pname =
     (case get (''/registry/pods/'' @ pname) of
        Inl err \<Rightarrow> Inl err
      | Inr None \<Rightarrow> Inr None
      | Inr (Some v) \<Rightarrow> (case parse v of None \<Rightarrow> Inl ''yaml'' | Some p \<Rightarrow> Inr (Some p)))"

fun list_pods_loop ::
    "('v \<Rightarrow> c_pod_task option) \<Rightarrow> (string \<Rightarrow> string + 'v option) \<Rightarrow> instant \<Rightarrow> string list
       \<Rightarrow> string + pod_info list" where
  "list_pods_loop parse get now [] = Inr []"
| "list_pods_loop parse get now (n # ns) =
     (case get_pod_task parse get n of
        Inl err \<Rightarrow> Inl err
      | Inr r \<Rightarrow>
          (case list_pods_loop parse get now ns of
             Inl err \<Rightarrow> Inl err
           | Inr ps \<Rightarrow>
               Inr (case r of None \<Rightarrow> ps | Some p \<Rightarrow> convert_pod_task_to_pod_info now p # ps)))"

definition list_pods ::
    "('v \<Rightarrow> c_pod_task option) \<Rightarrow> (string \<Rightarrow> string + 'v option) \<Rightarrow> instant \<Rightarrow> string + 'v kv list
       \<Rightarrow> string + pod_info list" where
  "list_pods parse get now resp =
     (case resp of
        Inl err \<Rightarrow> Inl err
      | Inr kvs \<Rightarrow>
          list_pods_loop parse get now (map (\<lambda>kv. remove_all ''/registry/pods/'' (kv_key kv)) kvs))"

fun list_nodes_loop :: "('v \<Rightarrow> c_node option) \<Rightarrow> 'v kv list \<Rightarrow> string + node_info list" where
  "list_nodes_loop parse [] = Inr []"
| "list_nodes_loop parse (kv # kvs) =
     (case parse (kv_value kv) of
        None \<Rightarrow> Inl ''yaml''
      | Some n \<Rightarrow>
          (case list_nodes_loop parse kvs of
             Inl err \<Rightarrow> Inl err
           | Inr ns \<Rightarrow> Inr (convert_k8s_node_to_node_info n # ns)))"

definition list_nodes :: "('v \<Rightarrow> c_node option) \<Rightarrow> string + 'v kv list \<Rightarrow> string + node_info list" where
  "list_nodes parse resp = (case resp of Inl err \<Rightarrow> Inl err | Inr kvs \<Rightarrow> list_nodes_loop parse kvs)"

definition scheduler_start ::
    "scoring_strategy \<Rightarrow> plugins \<Rightarrow> string + node_info list \<Rightarrow> string + pod_info list \<Rightarrow> string + scheduler" where
  "scheduler_start strategy ps nodes pods =
     (case nodes of
        Inl err \<Rightarrow> Inl err
      | Inr exist_nodes \<Rightarrow>
          (case pods of
             Inl err \<Rightarrow> Inl err
           | Inr exist_pods \<Rightarrow>
               Inr (fold update_cache_pod exist_pods
                     (set_cache_node exist_nodes (scheduler_new strategy ps)))))"

section \<open>The reconnect loop\<close>

text \<open>
  The two variables of the loop: the revision to watch from and the pause before the next attempt (in milliseconds),
  doubled at each failure up to five seconds and reset by a connection.
\<close>

record watch_vars =
  wv_since :: int
  wv_backoff :: nat

definition watch_init :: watch_vars where
  "watch_init = \<lparr>wv_since = 0, wv_backoff = 100\<rparr>"

definition watch_retry :: "watch_vars \<Rightarrow> watch_vars" where
  "watch_retry w = w\<lparr>wv_backoff := min (wv_backoff w * 2) 5000\<rparr>"

definition watch_connected :: "watch_vars \<Rightarrow> watch_vars" where
  "watch_connected w = w\<lparr>wv_backoff := 100\<rparr>"

definition watch_revision :: "int option \<Rightarrow> watch_vars \<Rightarrow> watch_vars" where
  "watch_revision revision w = w\<lparr>wv_since := (case revision of Some r \<Rightarrow> r | None \<Rightarrow> wv_since w)\<rparr>"

inductive service_step ::
    "('v \<Rightarrow> c_pod_task option) \<Rightarrow> ('v \<Rightarrow> c_node option) \<Rightarrow>
     watch_vars \<times> scheduler \<Rightarrow> watch_vars \<times> scheduler \<Rightarrow> bool"
  for parse_pod parse_node where
  sv_pod_msg:
    "service_step parse_pod parse_node (w, s)
       (watch_revision revision w, handle_pod_update parse_pod now (Inr (Some events)) s)"
| sv_node_msg:
    "service_step parse_pod parse_node (w, s)
       (watch_revision revision w, handle_node_update parse_node (Inr (Some events)) s)"
| sv_unassume: "service_step parse_pod parse_node (w, s) (w, unassume pname s)"
| sv_disconnected: "service_step parse_pod parse_node (w, s) (watch_retry w, s)"
| sv_connected: "service_step parse_pod parse_node (w, s) (watch_connected w, s)"
| sv_schedule: "sch_alive s \<Longrightarrow> service_step parse_pod parse_node (w, s) (w, schedule_one now s)"
| sv_watchdog: "service_step parse_pod parse_node (w, s) (w, gang_watchdog now s)"
| sv_flush_backoff:
    "service_step parse_pod parse_node (w, s)
       (w, s\<lparr>sch_queue := flush_backoff_completed now (sch_queue s)\<rparr>)"
| sv_flush_unschedulable:
    "service_step parse_pod parse_node (w, s)
       (w, s\<lparr>sch_queue := flush_unschedulable_left_over now (sch_queue s)\<rparr>)"

inductive service_reachable ::
    "('v \<Rightarrow> c_pod_task option) \<Rightarrow> ('v \<Rightarrow> c_node option) \<Rightarrow> watch_vars \<times> scheduler \<Rightarrow> bool"
  for parse_pod parse_node where
  sv_start:
    "scheduler_start strategy plugins_default (list_nodes parse_node node_resp)
       (list_pods parse_pod get now pod_resp) = Inr s \<Longrightarrow>
     service_reachable parse_pod parse_node (watch_init, s)"
| sv_next:
    "service_reachable parse_pod parse_node st \<Longrightarrow> service_step parse_pod parse_node st st' \<Longrightarrow>
     service_reachable parse_pod parse_node st'"

section \<open>The service takes steps of the scheduler\<close>

lemma reachable_fold:
  assumes "reachable s" "\<And>x s. x \<in> set xs \<Longrightarrow> reachable s \<Longrightarrow> reachable (f x s)"
  shows "reachable (fold f xs s)"
  using assms by (induction xs arbitrary: s) auto

lemma reachable_pod_event: "reachable s \<Longrightarrow> reachable (handle_pod_event parse now e s)"
  by (auto simp: handle_pod_event_def Let_def split: option.split event_type.split
      intro: reach_step step_update_pod step_remove_pod)

lemma reachable_node_event:
  assumes "reachable s" "\<And>v n. parse v = Some n \<Longrightarrow> hm_wf (c_meta_labels (c_node_metadata n))"
  shows "reachable (handle_node_event parse e s)"
proof -
  have "hm_wf (node_labels n)" if "get_node_from_kv parse kv = Some n" for kv n
    using that assms(2) by (auto simp: get_node_from_kv_def convert_k8s_node_to_node_info_def Let_def)
  then show ?thesis
    using assms(1) by (auto simp: handle_node_event_def split: option.split event_type.split
        intro: reach_step step_update_node step_remove_node)
qed

lemma list_nodes_wf:
  assumes "\<And>v n. parse v = Some n \<Longrightarrow> hm_wf (c_meta_labels (c_node_metadata n))"
  shows "list_nodes_loop parse kvs = Inr ns \<Longrightarrow> \<forall>n\<in>set ns. hm_wf (node_labels n)"
  using assms
  by (induction kvs arbitrary: ns)
    (auto simp: convert_k8s_node_to_node_info_def Let_def split: option.splits sum.splits)

lemma reachable_start:
  assumes "\<And>v n. parse_node v = Some n \<Longrightarrow> hm_wf (c_meta_labels (c_node_metadata n))"
    and "scheduler_start strategy plugins_default (list_nodes parse_node resp) pods = Inr s"
  shows "reachable s"
proof -
  obtain kvs ns ps where ns: "list_nodes_loop parse_node kvs = Inr ns"
    and s: "s = fold update_cache_pod ps (set_cache_node ns (scheduler_new strategy plugins_default))"
    using assms(2) by (auto simp: scheduler_start_def list_nodes_def split: sum.splits)
  have "reachable (set_cache_node ns (scheduler_new strategy plugins_default))"
    by (rule reach_step [OF reach_new step_set_nodes]) (rule list_nodes_wf [OF assms(1) ns])
  then show ?thesis
    unfolding s by (rule reachable_fold) (auto intro: reach_step step_update_pod)
qed


definition ex_cnode :: c_node where
  "ex_cnode =
     \<lparr>c_node_metadata = \<lparr>c_meta_name = ''a'', c_meta_labels = [(''zone'', ''z1'')]\<rparr>,
      c_node_spec = \<lparr>c_ns_taints = []\<rparr>,
      c_node_status = \<lparr>c_ns_allocatable = [(''cpu'', ''2''), (''memory'', ''4Gi'')]\<rparr>\<rparr>"


section \<open>Names and quantities\<close>

lemma split_char_free: "c \<notin> set w \<Longrightarrow> split_char c w = [w]"
  by (induction w) auto

lemma split_char_append: "split_char c (u @ c # w) = split_char c u @ split_char c w"
proof (induction u)
  case Nil
  then show ?case by simp
next
  case (Cons x u)
  obtain y ys where "split_char c u = y # ys" by (cases "split_char c u") (cases u, auto split: list.splits if_splits)+
  with Cons show ?case by auto
qed

text \<open>
  The name that the handlers of deletions cut out of a registry key is the name the key was made from, for
  every name that is not empty and has no slash; this holds under both prefixes.
\<close>

theorem key_name_roundtrip:
  assumes "n \<noteq> []" "CHR ''/'' \<notin> set n"
  shows "key_name (''/registry/pods/'' @ n) = Some n \<and> key_name (''/registry/nodes/'' @ n) = Some n"
proof -
  have "key_name (u @ CHR ''/'' # n) = Some n" for u
    unfolding key_name_def split_char_append split_char_free [OF assms(2)] using assms(1) by simp
  from this [of "''/registry/pods''"] this [of "''/registry/nodes''"] show ?thesis by simp
qed

theorem key_name_roundtrip_witness:
  "key_name ''/registry/pods/web-1'' = Some ''web-1''"
  using key_name_roundtrip [of "''web-1''"] by simp

lemma show_nat_digits: "c \<in> set (show_nat n) \<Longrightarrow> \<exists>d<10. c = digit_char d"
proof (induction n rule: show_nat.induct)
  case (1 n)
  show ?case
  proof (cases "n < 10")
    case True
    with "1.prems" show ?thesis by (auto simp: show_nat.simps [of n])
  next
    case False
    with "1.prems" have "c \<in> set (show_nat (n div 10)) \<or> c = digit_char (n mod 10)"
      by (subst (asm) show_nat.simps) auto
    then show ?thesis using "1.IH" [OF False] pos_mod_bound by (metis mod_less_divisor zero_less_numeral)
  qed
qed

lemma digit_cases: "d < 10 \<Longrightarrow> d = 0 \<or> d = 1 \<or> d = 2 \<or> d = 3 \<or> d = 4 \<or> d = 5 \<or> d = 6 \<or> d = 7 \<or> d = 8 \<or> d = (9 :: nat)"
  by arith

lemma digit_char_facts:
  assumes "d < 10"
  shows "to_lower (digit_char d) = digit_char d"
    "digit_char d \<notin> {CHR ''m'', CHR ''i'', CHR ''k'', CHR ''g'', CHR ''+'', CHR ''-'', CHR ''n''}"
  using digit_cases [OF assms] by (elim disjE; simp add: to_lower_def digit_char_def char_of_def bit_iff_odd)+

lemma show_nat_chars:
  assumes "c \<in> set (show_nat n)"
  shows "to_lower c = c" "digit_val c \<noteq> None"
    "c \<notin> {CHR ''m'', CHR ''i'', CHR ''k'', CHR ''g'', CHR ''+'', CHR ''-'', CHR ''n''}"
  using show_nat_digits [OF assms] digit_char_facts by auto

lemma lower_show_nat: "map to_lower (show_nat n) = show_nat n"
  by (rule map_idI) (rule show_nat_chars(1))

lemma ends_with_append: "length t = length suf \<Longrightarrow> ends_with suf (a @ t) \<longleftrightarrow> t = suf"
  by (auto simp: ends_with_def)

lemma ends_with_last:
  assumes "ends_with suf s" "suf \<noteq> []"
  shows "s \<noteq> []" "last s = last suf"
proof -
  let ?k = "length s - length suf"
  have d: "drop ?k s = suf" and len: "length suf \<le> length s" using assms(1) by (simp_all add: ends_with_def)
  show "s \<noteq> []" using len assms(2) by auto
  have "?k < length s" using len assms(2) by (simp add: diff_less_mono2 flip: length_greater_0_conv)
  then show "last s = last suf" using last_drop [of ?k s] d by simp
qed

lemma show_nat_no_suffix:
  assumes "last suf \<in> {CHR ''m'', CHR ''i'', CHR ''k'', CHR ''g''}" "suf \<noteq> []"
  shows "\<not> ends_with suf (show_nat n)"
proof
  assume "ends_with suf (show_nat n)"
  then have "last suf \<in> set (show_nat n)"
    using ends_with_last [OF _ assms(2)] show_nat_nonempty by (metis last_in_set)
  then show False using show_nat_chars(3) assms(1) by blast
qed

lemma trim_show_nat:
  assumes "last suf \<in> {CHR ''m'', CHR ''i'', CHR ''k'', CHR ''g''}" "suf \<noteq> []"
  shows "trim_end_matches suf (show_nat n @ suf) = show_nat n"
proof -
  have "trim_end_matches suf (show_nat n @ suf) = trim_end_matches suf (show_nat n)"
    using assms(2) by (subst trim_end_matches.simps) (simp add: ends_with_append)
  also have "\<dots> = show_nat n"
    by (subst trim_end_matches.simps) (simp add: show_nat_no_suffix [OF assms])
  finally show ?thesis .
qed

lemma parse_u64_show: "n < 2 ^ 64 \<Longrightarrow> parse_u64_or_0 (show_nat n) = of_nat n"
proof -
  assume n: "n < 2 ^ 64"
  have "hd (show_nat n) \<in> set (show_nat n)" by (simp add: show_nat_nonempty)
  then have "hd (show_nat n) \<noteq> CHR ''+''" using show_nat_chars(3) by blast
  then show ?thesis
    using n by (simp add: parse_u64_or_0_def parse_u64_def parse_nat_below_def parse_digits_show)
qed

lemma ends_with_snoc: "last suf \<noteq> c \<Longrightarrow> suf \<noteq> [] \<Longrightarrow> \<not> ends_with suf (s @ [c])"
  using ends_with_last [of suf "s @ [c]"] by auto

lemma lower_units:
  "map to_lower ''Ki'' = ''ki''" "map to_lower ''Mi'' = ''mi''" "map to_lower ''Gi'' = ''gi''"
  "map to_lower ''k'' = ''k''" "map to_lower ''M'' = ''m''" "map to_lower ''G'' = ''g''"
  by (simp_all add: to_lower_def char_of_def bit_iff_odd)

lemma parse_memory_unit:
  assumes "map to_lower u = v"
  shows "parse_memory (show_nat n @ u) =
    (let m = show_nat n @ v
     in if ends_with ''ki'' m then parse_u64_or_0 (trim_end_matches ''ki'' m) * 1024
        else if ends_with ''mi'' m then parse_u64_or_0 (trim_end_matches ''mi'' m) * 1024 * 1024
        else if ends_with ''gi'' m then parse_u64_or_0 (trim_end_matches ''gi'' m) * 1024 * 1024 * 1024
        else if ends_with ''k'' m then parse_u64_or_0 (trim_end_matches ''k'' m) * 1000
        else if ends_with ''m'' m then parse_u64_or_0 (trim_end_matches ''m'' m) * 1000 * 1000
        else if ends_with ''g'' m then parse_u64_or_0 (trim_end_matches ''g'' m) * 1000 * 1000 * 1000
        else parse_u64_or_0 m)"
  unfolding parse_memory_def to_lowercase_def map_append lower_show_nat assms ..

text \<open>
  C31: A quantity of memory that is a printed number with a unit is read as the number times the unit, for all seven
  forms (the product is that of \<open>u64\<close>, which wraps from 16 EiB on).
\<close>

theorem parse_memory_units:
  assumes "n < 2 ^ 64"
  shows "parse_memory (show_nat n) = of_nat n \<and>
         parse_memory (show_nat n @ ''Ki'') = of_nat n * 1024 \<and>
         parse_memory (show_nat n @ ''Mi'') = of_nat n * 1024 * 1024 \<and>
         parse_memory (show_nat n @ ''Gi'') = of_nat n * 1024 * 1024 * 1024 \<and>
         parse_memory (show_nat n @ ''k'') = of_nat n * 1000 \<and>
         parse_memory (show_nat n @ ''M'') = of_nat n * 1000 * 1000 \<and>
         parse_memory (show_nat n @ ''G'') = of_nat n * 1000 * 1000 * 1000"
proof (intro conjI)
  note p = parse_u64_show [OF assms] and t = trim_show_nat
  show "parse_memory (show_nat n) = of_nat n"
    using parse_memory_unit [of "[]" "[]" n] show_nat_no_suffix p by (simp add: Let_def)
  show "parse_memory (show_nat n @ ''Ki'') = of_nat n * 1024"
    unfolding parse_memory_unit [OF lower_units(1)] Let_def by (simp add: ends_with_append t p)
  show "parse_memory (show_nat n @ ''Mi'') = of_nat n * 1024 * 1024"
    unfolding parse_memory_unit [OF lower_units(2)] Let_def by (simp add: ends_with_append t p)
  show "parse_memory (show_nat n @ ''Gi'') = of_nat n * 1024 * 1024 * 1024"
    unfolding parse_memory_unit [OF lower_units(3)] Let_def by (simp add: ends_with_append t p)
  show "parse_memory (show_nat n @ ''k'') = of_nat n * 1000"
    unfolding parse_memory_unit [OF lower_units(4)] Let_def by (simp add: ends_with_append ends_with_snoc t p)
  show "parse_memory (show_nat n @ ''M'') = of_nat n * 1000 * 1000"
    unfolding parse_memory_unit [OF lower_units(5)] Let_def by (simp add: ends_with_append ends_with_snoc t p)
  show "parse_memory (show_nat n @ ''G'') = of_nat n * 1000 * 1000 * 1000"
    unfolding parse_memory_unit [OF lower_units(6)] Let_def by (simp add: ends_with_append ends_with_snoc t p)
qed

theorem parse_memory_units_witness:
  "parse_memory (show_nat 4 @ ''Gi'') = 4294967296"
  using parse_memory_units [of 4] by simp

lemma f64_round_int:
  assumes "0 \<le> m" "m < 2 ^ 53"
  shows "f64_round (of_int m) = of_int m"
proof (cases "m = 0")
  case True
  then show ?thesis by (simp add: f64_round_def)
next
  case False
  let ?x = "of_int m :: rat" and ?r = "rexp (of_int m)"
  have pos: "1 \<le> m" "0 < ?x" using False assms(1) by simp_all
  note b = rexp_bounds [OF pos(2)]
  have r: "?r \<le> 52"
  proof (rule ccontr)
    assume "\<not> ?thesis"
    then have "(2 :: rat) powi 53 \<le> 2 powi ?r" by (intro powi_2_le) simp
    also have "\<dots> \<le> ?x" by (rule b(1))
    finally have "(of_int (2 ^ 53) :: rat) \<le> of_int m" by (simp add: powi_2_nat)
    then show False using assms(2) by (simp only: of_int_le_iff)
  qed
  let ?e = "?r - 52" and ?d = "nat (52 - ?r)"
  have "(2 :: rat) powi (- ?e) = of_int (2 ^ ?d)" using r by (subst powi_2_nat) auto
  then have inv: "1 / (2 :: rat) powi ?e = of_int (2 ^ ?d)"
    using power_int_minus [of "2 :: rat" ?e] by (simp add: inverse_eq_divide)
  have "?x / 2 powi ?e = ?x * (1 / 2 powi ?e)" by simp
  then have "?x / 2 powi ?e = of_int (m * 2 ^ ?d)" unfolding inv by simp
  then have "f64_round_pos ?x = (?x / 2 powi ?e) * 2 powi ?e"
    by (simp only: f64_round_pos_def Let_def rne_of_int)
  then show ?thesis using pos by (simp add: f64_round_def)
qed

lemma parse_number_show: "parse_number (show_nat n) = Some (of_nat n)"
proof -
  have "takeWhile (\<lambda>c. digit_val c \<noteq> None) (show_nat n) = show_nat n"
    "dropWhile (\<lambda>c. digit_val c \<noteq> None) (show_nat n) = []"
    using show_nat_chars(2) by (auto simp: takeWhile_eq_all_conv dropWhile_eq_Nil_conv)
  then have "span_digits (show_nat n) = (show_nat n, [])" by (simp only: span_digits_def)
  then show ?thesis
    by (simp add: parse_number_def show_nat_nonempty parse_exponent_def digits_value_def parse_digits_acc_show)
qed

lemma parse_f64_show: "n < 2 ^ 53 \<Longrightarrow> parse_f64 (show_nat n) = Some (Finite (of_nat n))"
proof -
  assume n: "n < 2 ^ 53"
  have "hd (show_nat n) \<in> set (show_nat n)" by (simp add: show_nat_nonempty)
  then have h: "hd (show_nat n) \<noteq> CHR ''+''" "hd (show_nat n) \<noteq> CHR ''-''" "hd (show_nat n) \<noteq> CHR ''i''"
    "hd (show_nat n) \<noteq> CHR ''n''"
    using show_nat_chars(3) by blast+
  have "show_nat n \<noteq> ''inf''" "show_nat n \<noteq> ''infinity''" "show_nat n \<noteq> ''nan''"
    using h by (metis list.sel(1))+
  moreover have "f64_round (of_nat n) = of_nat n"
    using f64_round_int [of "int n"] n by simp
  ultimately show ?thesis
    using h by (simp add: parse_f64_def Let_def to_lowercase_def lower_show_nat parse_number_show)
qed

text \<open>
  C32: A quantity of cpu that is a printed number of millicores (\<open>n m\<close>) or of cores (\<open>n\<close>) is read exactly, the
  second through \<open>f64\<close> and a saturating cast, as long as the number of millicores stays below \<open>2^53\<close>.
\<close>

theorem parse_cpu_exact:
  assumes "n * 1000 < 2 ^ 53"
  shows "parse_cpu (show_nat n @ ''m'') = of_nat n \<and> parse_cpu (show_nat n) = of_nat (n * 1000)"
proof
  have n: "n < 2 ^ 53" "n < 2 ^ 64" using assms by auto
  show "parse_cpu (show_nat n @ ''m'') = of_nat n"
    using parse_u64_show [OF n(2)] by (simp add: parse_cpu_def ends_with_append trim_show_nat)
  have mul: "f64_mul (of_nat n) 1000 = of_nat (n * 1000)"
    using f64_round_int [of "int (n * 1000)"] assms by (simp add: f64_mul_def)
  have "rat_trunc (of_nat k) = int k" for k by (simp add: rat_trunc_def)
  moreover have "max 0 (min (2 ^ 64 - 1) (int (n * 1000))) = int (n * 1000)" using assms by simp
  ultimately have "f64_as_u64 (of_nat (n * 1000)) = of_nat (n * 1000)"
    by (simp only: f64_as_u64_def of_int_of_nat_eq)
  then show "parse_cpu (show_nat n) = of_nat (n * 1000)"
    using mul by (simp add: parse_cpu_def show_nat_no_suffix parse_f64_show [OF n(1)])
qed

theorem parse_cpu_exact_witness: "parse_cpu (show_nat 2) = 2000 \<and> parse_cpu (show_nat 250 @ ''m'') = 250"
  using parse_cpu_exact [of 2] parse_cpu_exact [of 250] by simp

end
