(* ===== verification/Gf256.thy ===== *)
theory Gf256
  imports Rk8s_Prelude
begin

text \<open>
  The byte arithmetic of \<open>libvault/src/shamir.rs\<close>: two tables, sum, product and quotient. The lemmas show that it is
  the field with 256 elements: the type \<open>gf256\<close> of bytes with these operations is an instance of the library's class
  \<open>field\<close>. The table checks are three: the logarithm inverts the exponential, the exponential starts at
  one, and the multiplication by the generator is linear. The last section bounds the roots of a polynomial.
\<close>

unbundle bit_operations_syntax

section \<open>Byte arithmetic\<close>

definition GF256_EXP :: "u8 list" where
  "GF256_EXP =
     [0x01, 0xe5, 0x4c, 0xb5, 0xfb, 0x9f, 0xfc, 0x12, 0x03, 0x34, 0xd4, 0xc4, 0x16, 0xba, 0x1f, 0x36,
      0x05, 0x5c, 0x67, 0x57, 0x3a, 0xd5, 0x21, 0x5a, 0x0f, 0xe4, 0xa9, 0xf9, 0x4e, 0x64, 0x63, 0xee,
      0x11, 0x37, 0xe0, 0x10, 0xd2, 0xac, 0xa5, 0x29, 0x33, 0x59, 0x3b, 0x30, 0x6d, 0xef, 0xf4, 0x7b,
      0x55, 0xeb, 0x4d, 0x50, 0xb7, 0x2a, 0x07, 0x8d, 0xff, 0x26, 0xd7, 0xf0, 0xc2, 0x7e, 0x09, 0x8c,
      0x1a, 0x6a, 0x62, 0x0b, 0x5d, 0x82, 0x1b, 0x8f, 0x2e, 0xbe, 0xa6, 0x1d, 0xe7, 0x9d, 0x2d, 0x8a,
      0x72, 0xd9, 0xf1, 0x27, 0x32, 0xbc, 0x77, 0x85, 0x96, 0x70, 0x08, 0x69, 0x56, 0xdf, 0x99, 0x94,
      0xa1, 0x90, 0x18, 0xbb, 0xfa, 0x7a, 0xb0, 0xa7, 0xf8, 0xab, 0x28, 0xd6, 0x15, 0x8e, 0xcb, 0xf2,
      0x13, 0xe6, 0x78, 0x61, 0x3f, 0x89, 0x46, 0x0d, 0x35, 0x31, 0x88, 0xa3, 0x41, 0x80, 0xca, 0x17,
      0x5f, 0x53, 0x83, 0xfe, 0xc3, 0x9b, 0x45, 0x39, 0xe1, 0xf5, 0x9e, 0x19, 0x5e, 0xb6, 0xcf, 0x4b,
      0x38, 0x04, 0xb9, 0x2b, 0xe2, 0xc1, 0x4a, 0xdd, 0x48, 0x0c, 0xd0, 0x7d, 0x3d, 0x58, 0xde, 0x7c,
      0xd8, 0x14, 0x6b, 0x87, 0x47, 0xe8, 0x79, 0x84, 0x73, 0x3c, 0xbd, 0x92, 0xc9, 0x23, 0x8b, 0x97,
      0x95, 0x44, 0xdc, 0xad, 0x40, 0x65, 0x86, 0xa2, 0xa4, 0xcc, 0x7f, 0xec, 0xc0, 0xaf, 0x91, 0xfd,
      0xf7, 0x4f, 0x81, 0x2f, 0x5b, 0xea, 0xa8, 0x1c, 0x02, 0xd1, 0x98, 0x71, 0xed, 0x25, 0xe3, 0x24,
      0x06, 0x68, 0xb3, 0x93, 0x2c, 0x6f, 0x3e, 0x6c, 0x0a, 0xb8, 0xce, 0xae, 0x74, 0xb1, 0x42, 0xb4,
      0x1e, 0xd3, 0x49, 0xe9, 0x9c, 0xc8, 0xc6, 0xc7, 0x22, 0x6e, 0xdb, 0x20, 0xbf, 0x43, 0x51, 0x52,
      0x66, 0xb2, 0x76, 0x60, 0xda, 0xc5, 0xf3, 0xf6, 0xaa, 0xcd, 0x9a, 0xa0, 0x75, 0x54, 0x0e, 0x01]"

definition GF256_LOG :: "u8 list" where
  "GF256_LOG =
     [0x00, 0xff, 0xc8, 0x08, 0x91, 0x10, 0xd0, 0x36, 0x5a, 0x3e, 0xd8, 0x43, 0x99, 0x77, 0xfe, 0x18,
      0x23, 0x20, 0x07, 0x70, 0xa1, 0x6c, 0x0c, 0x7f, 0x62, 0x8b, 0x40, 0x46, 0xc7, 0x4b, 0xe0, 0x0e,
      0xeb, 0x16, 0xe8, 0xad, 0xcf, 0xcd, 0x39, 0x53, 0x6a, 0x27, 0x35, 0x93, 0xd4, 0x4e, 0x48, 0xc3,
      0x2b, 0x79, 0x54, 0x28, 0x09, 0x78, 0x0f, 0x21, 0x90, 0x87, 0x14, 0x2a, 0xa9, 0x9c, 0xd6, 0x74,
      0xb4, 0x7c, 0xde, 0xed, 0xb1, 0x86, 0x76, 0xa4, 0x98, 0xe2, 0x96, 0x8f, 0x02, 0x32, 0x1c, 0xc1,
      0x33, 0xee, 0xef, 0x81, 0xfd, 0x30, 0x5c, 0x13, 0x9d, 0x29, 0x17, 0xc4, 0x11, 0x44, 0x8c, 0x80,
      0xf3, 0x73, 0x42, 0x1e, 0x1d, 0xb5, 0xf0, 0x12, 0xd1, 0x5b, 0x41, 0xa2, 0xd7, 0x2c, 0xe9, 0xd5,
      0x59, 0xcb, 0x50, 0xa8, 0xdc, 0xfc, 0xf2, 0x56, 0x72, 0xa6, 0x65, 0x2f, 0x9f, 0x9b, 0x3d, 0xba,
      0x7d, 0xc2, 0x45, 0x82, 0xa7, 0x57, 0xb6, 0xa3, 0x7a, 0x75, 0x4f, 0xae, 0x3f, 0x37, 0x6d, 0x47,
      0x61, 0xbe, 0xab, 0xd3, 0x5f, 0xb0, 0x58, 0xaf, 0xca, 0x5e, 0xfa, 0x85, 0xe4, 0x4d, 0x8a, 0x05,
      0xfb, 0x60, 0xb7, 0x7b, 0xb8, 0x26, 0x4a, 0x67, 0xc6, 0x1a, 0xf8, 0x69, 0x25, 0xb3, 0xdb, 0xbd,
      0x66, 0xdd, 0xf1, 0xd2, 0xdf, 0x03, 0x8d, 0x34, 0xd9, 0x92, 0x0d, 0x63, 0x55, 0xaa, 0x49, 0xec,
      0xbc, 0x95, 0x3c, 0x84, 0x0b, 0xf5, 0xe6, 0xe7, 0xe5, 0xac, 0x7e, 0x6e, 0xb9, 0xf9, 0xda, 0x8e,
      0x9a, 0xc9, 0x24, 0xe1, 0x0a, 0x15, 0x6b, 0x3a, 0xa0, 0x51, 0xf4, 0xea, 0xb2, 0x97, 0x9e, 0x5d,
      0x22, 0x88, 0x94, 0xce, 0x19, 0x01, 0x71, 0x4c, 0xa5, 0xe3, 0xc5, 0x31, 0xbb, 0xcc, 0x1f, 0x2d,
      0x3b, 0x52, 0x6f, 0xf6, 0x2e, 0x89, 0xf7, 0xc0, 0x68, 0x1b, 0x64, 0x04, 0x06, 0xbf, 0x83, 0x38]"

definition gf256_add :: "u8 \<Rightarrow> u8 \<Rightarrow> u8" where
  "gf256_add a b = a XOR b"

definition gf256_sub :: "u8 \<Rightarrow> u8 \<Rightarrow> u8" where
  "gf256_sub a b = gf256_add a b"

definition gf256_mul :: "u8 \<Rightarrow> u8 \<Rightarrow> u8" where
  "gf256_mul a b =
     (if a = 0 \<or> b = 0 then 0
      else GF256_EXP ! ((unat (GF256_LOG ! unat a) + unat (GF256_LOG ! unat b)) mod 255))"

text \<open>The difference of two bytes fits into \<open>i16\<close>.\<close>

definition gf256_checked_div :: "u8 \<Rightarrow> u8 \<Rightarrow> u8 option" where
  "gf256_checked_div a b =
     (if a = 0 then Some 0
      else if b = 0 then None
      else
        (let a_log = uint (GF256_LOG ! unat a);
             b_log = uint (GF256_LOG ! unat b);
             diff = a_log - b_log;
             diff' = (if diff < 0 then diff + 255 else diff)
         in Some (GF256_EXP ! nat (diff' mod 255))))"

section \<open>The tables\<close>

lemma length_tables [simp]: "length GF256_EXP = 256" "length GF256_LOG = 256"
  by (simp_all add: GF256_EXP_def GF256_LOG_def)

lemma log_exp_table: "map (\<lambda>e. GF256_LOG ! unat e) (take 255 GF256_EXP) = 255 # map of_nat [1..<255]"
  unfolding GF256_EXP_def GF256_LOG_def by (simp add: upt_rec)

text \<open>The multiplication by the generator \<open>0xe5\<close>, as a linear map given by its values on the eight bits.\<close>

definition gen_basis :: "u8 list" where
  "gen_basis = [0xe5, 0xd1, 0xb9, 0x69, 0xd2, 0xbf, 0x65, 0xca]"

fun linear :: "nat \<Rightarrow> u8 list \<Rightarrow> u8 \<Rightarrow> u8" where
  "linear k [] b = 0"
| "linear k (v # vs) b = (if bit b k then v else 0) XOR linear (Suc k) vs b"

definition gen_times :: "u8 \<Rightarrow> u8" where
  "gen_times b = linear 0 gen_basis b"

lemma gen_times_table: "map gen_times (take 255 GF256_EXP) = tl GF256_EXP"
  unfolding GF256_EXP_def gen_times_def gen_basis_def by (simp add: bit_numeral_simps)

section \<open>The multiplicative group\<close>

definition gexp :: "nat \<Rightarrow> u8" where
  "gexp i = GF256_EXP ! (i mod 255)"

definition glog :: "u8 \<Rightarrow> nat" where
  "glog a = unat (GF256_LOG ! unat a) mod 255"

lemma exp_first: "GF256_EXP ! 0 = 1" "GF256_EXP ! 255 = 1" "GF256_LOG ! 0 = 0"
  by (simp_all add: GF256_EXP_def GF256_LOG_def)

lemma gexp_0 [simp]: "gexp 0 = 1"
  by (simp add: gexp_def exp_first)

lemma gexp_mod [simp]: "gexp (i mod 255) = gexp i"
  by (simp add: gexp_def)

lemma gexp_add_mod: "gexp (i mod 255 + j) = gexp (i + j)" "gexp (i + j mod 255) = gexp (i + j)"
  by (simp_all add: gexp_def mod_simps)

lemma glog_gexp [simp]: "glog (gexp i) = i mod 255"
proof -
  let ?i = "i mod 255"
  have "map (\<lambda>e. GF256_LOG ! unat e) (take 255 GF256_EXP) ! ?i = (255 # map of_nat [1..<255]) ! ?i"
    by (simp only: log_exp_table)
  then have "GF256_LOG ! unat (gexp i) = (if ?i = 0 then 255 else of_nat ?i)"
    by (simp add: gexp_def nth_Cons')
  then show ?thesis by (auto simp: glog_def unat_of_nat)
qed

lemma gexp_nonzero [simp]: "gexp i \<noteq> 0"
proof
  assume *: "gexp i = 0"
  then have "i mod 255 = 0"
    using glog_gexp [of i] by (simp add: glog_def exp_first)
  then have "gexp i = 1" using gexp_mod [of i] by simp
  with * show False by simp
qed

lemma gexp_eq_iff: "gexp i = gexp j \<longleftrightarrow> i mod 255 = j mod 255"
  by (metis glog_gexp gexp_mod)

lemma gexp_range: "gexp ` {..<255} = UNIV - {0}"
proof (rule card_subset_eq)
  have "inj_on gexp {..<255}" by (auto simp: inj_on_def gexp_eq_iff)
  then show "card (gexp ` {..<255}) = card (UNIV - {0 :: u8})"
    by (simp add: card_image card_Diff_subset card_word)
qed auto

lemma gexp_glog: "a \<noteq> 0 \<Longrightarrow> gexp (glog a) = a"
  using gexp_range by (auto simp: set_eq_iff image_iff) (metis glog_gexp gexp_mod)

lemma gf_cases [case_names zero exp]:
  obtains "a = 0" | i where "i < 255" "a = gexp i"
  using gexp_range by (cases "a = 0") auto

lemma mul_gexp [simp]: "gf256_mul (gexp i) (gexp j) = gexp (i + j)"
proof -
  have "gf256_mul (gexp i) (gexp j) = gexp (glog (gexp i) + glog (gexp j))"
    unfolding gf256_mul_def glog_def gexp_def [of "_ + _"] by (simp add: mod_simps)
  then show ?thesis by (simp add: gexp_add_mod)
qed

lemma mul_zero [simp]: "gf256_mul 0 a = 0" "gf256_mul a 0 = 0"
  by (simp_all add: gf256_mul_def)

lemma gf_mul_commute: "gf256_mul a b = gf256_mul b a"
  by (cases a rule: gf_cases; cases b rule: gf_cases) (simp_all add: add.commute)

lemma gf_mul_assoc: "gf256_mul (gf256_mul a b) c = gf256_mul a (gf256_mul b c)"
  by (cases a rule: gf_cases; cases b rule: gf_cases; cases c rule: gf_cases) (simp_all add: add.assoc)

lemma gf_mul_1: "gf256_mul 1 a = a"
  using mul_gexp [of 0] by (cases a rule: gf_cases) simp_all

section \<open>Distributivity\<close>

lemma xor_left_self: "a XOR (a XOR b) = (b :: u8)"
  by (rule bit_eqI) (auto simp: bit_xor_iff)

lemma linear_xor: "linear k vs (a XOR b) = linear k vs a XOR linear k vs b"
  by (induction vs arbitrary: k) (auto simp: bit_xor_iff xor.assoc xor.left_commute xor_left_self)

lemma gen_times_xor: "gen_times (a XOR b) = gen_times a XOR gen_times b"
  by (simp add: gen_times_def linear_xor)

lemma gen_times_0 [simp]: "gen_times 0 = 0"
  using gen_times_xor [of 0 0] by simp

lemma gen_times_gexp: "gen_times (gexp i) = gexp (Suc i)"
proof -
  let ?i = "i mod 255"
  have "map gen_times (take 255 GF256_EXP) ! ?i = tl GF256_EXP ! ?i"
    by (simp only: gen_times_table)
  then have *: "gen_times (gexp i) = GF256_EXP ! Suc ?i"
    by (simp add: gexp_def nth_tl)
  show ?thesis
  proof (cases "Suc ?i = 255")
    case True
    then have "Suc i mod 255 = 0" by (simp add: mod_Suc)
    then show ?thesis using * True by (simp add: gexp_def exp_first)
  next
    case False
    then have "Suc i mod 255 = Suc ?i" by (simp add: mod_Suc)
    then show ?thesis using * by (simp add: gexp_def)
  qed
qed

lemma gen_times_power: "(gen_times ^^ k) b = gf256_mul (gexp k) b"
proof (induction k)
  case (Suc k)
  then show ?case by (cases b rule: gf_cases) (simp_all add: gen_times_gexp)
qed (simp add: gf_mul_1)

lemma gf_distrib: "gf256_mul a (b XOR c) = gf256_mul a b XOR gf256_mul a c"
proof (cases a rule: gf_cases)
  case (exp i)
  have "(gen_times ^^ k) (b XOR c) = (gen_times ^^ k) b XOR (gen_times ^^ k) c" for k
    by (induction k) (simp_all add: gen_times_xor)
  then show ?thesis by (simp add: gen_times_power exp)
qed simp

lemma gf_distrib_right: "gf256_mul (b XOR c) a = gf256_mul b a XOR gf256_mul c a"
  by (metis gf_distrib gf_mul_commute)

section \<open>Quotients\<close>

lemma log_difference:
  fixes la lb :: nat
  shows "nat ((if int la - int lb < 0 then int la - int lb + 255 else int la - int lb) mod 255) =
    (la + (255 - lb mod 255)) mod 255"
proof -
  have "int ((la + (255 - lb mod 255)) mod 255) = (int la + 255 - int lb mod 255) mod 255"
    by (simp add: zmod_int of_nat_diff less_imp_le algebra_simps)
  also have "\<dots> = (int la - int lb) mod 255"
    by (metis add_diff_eq diff_add_eq mod_add_self2 mod_diff_right_eq)
  finally show ?thesis by (simp add: nat_eq_iff)
qed

lemma checked_div_gexp: "gf256_checked_div (gexp i) (gexp j) = Some (gexp (i + (255 - j mod 255)))"
proof -
  have "gf256_checked_div (gexp i) (gexp j) = Some (gexp (unat (GF256_LOG ! unat (gexp i)) + (255 - glog (gexp j))))"
    unfolding gf256_checked_div_def Let_def uint_nat log_difference glog_def
      gexp_def [of "a + b" for a b]
    by simp
  also have "\<dots> = Some (gexp (glog (gexp i) + (255 - glog (gexp j))))"
    unfolding glog_def by (simp only: gexp_add_mod)
  finally show ?thesis by (simp only: glog_gexp gexp_add_mod)
qed

lemma checked_div_mul: "b \<noteq> 0 \<Longrightarrow> \<exists>q. gf256_checked_div a b = Some q \<and> gf256_mul q b = a"
proof (cases a rule: gf_cases)
  case zero
  then show ?thesis by (simp add: gf256_checked_div_def)
next
  case (exp i)
  assume "b \<noteq> 0"
  then obtain j where b: "b = gexp j" by (cases b rule: gf_cases) auto
  have "gexp (i + (255 - j mod 255) + j) = gexp i"
  proof -
    have "gexp (i + (255 - j mod 255) + j) = gexp (i + (255 - j mod 255) + j mod 255)"
      by (rule gexp_add_mod(2) [symmetric])
    also have "i + (255 - j mod 255) + j mod 255 = i + 255"
      using mod_less_divisor [of 255 j] by simp
    also have "gexp (i + 255) = gexp i" by (simp add: gexp_def)
    finally show ?thesis .
  qed
  then show ?thesis by (simp add: exp b checked_div_gexp)
qed

lemma gf_inverse: "a \<noteq> 0 \<Longrightarrow> gf256_mul (case gf256_checked_div 1 a of Some q \<Rightarrow> q | None \<Rightarrow> 0) a = 1"
  using checked_div_mul [of a 1] by auto

section \<open>The field\<close>

typedef gf256 = "UNIV :: u8 set"
  morphisms byte Gf ..

setup_lifting type_definition_gf256

instantiation gf256 :: field
begin

lift_definition zero_gf256 :: gf256 is 0 .
lift_definition one_gf256 :: gf256 is 1 .
lift_definition plus_gf256 :: "gf256 \<Rightarrow> gf256 \<Rightarrow> gf256" is gf256_add .
lift_definition minus_gf256 :: "gf256 \<Rightarrow> gf256 \<Rightarrow> gf256" is gf256_sub .
lift_definition uminus_gf256 :: "gf256 \<Rightarrow> gf256" is "\<lambda>a. a" .
lift_definition times_gf256 :: "gf256 \<Rightarrow> gf256 \<Rightarrow> gf256" is gf256_mul .
lift_definition inverse_gf256 :: "gf256 \<Rightarrow> gf256" is
  "\<lambda>a. case gf256_checked_div 1 a of Some q \<Rightarrow> q | None \<Rightarrow> 0" .
definition divide_gf256 :: "gf256 \<Rightarrow> gf256 \<Rightarrow> gf256" where
  "divide_gf256 a b = a * inverse b"

instance
proof
  fix a b c :: gf256
  show "a + b + c = a + (b + c)" by transfer (simp add: gf256_add_def xor.assoc)
  show "a + b = b + a" by transfer (simp add: gf256_add_def xor.commute)
  show "0 + a = a" by transfer (simp add: gf256_add_def)
  show "- a + a = 0" by transfer (simp add: gf256_add_def)
  show "a - b = a + - b" by transfer (simp add: gf256_sub_def)
  show "a * b * c = a * (b * c)" by transfer (rule gf_mul_assoc)
  show "a * b = b * a" by transfer (rule gf_mul_commute)
  show "1 * a = a" by transfer (rule gf_mul_1)
  show "(a + b) * c = a * c + b * c"
    by transfer (simp add: gf256_add_def gf_distrib_right)
  show "(0 :: gf256) \<noteq> 1" by transfer simp
  show "a \<noteq> 0 \<Longrightarrow> inverse a * a = 1"
    by transfer (rule gf_inverse)
  show "a div b = a * inverse b" by (rule divide_gf256_def)
  show "inverse (0 :: gf256) = 0" by transfer (simp add: gf256_checked_div_def)
qed

end

lemma Gf_arith:
  "Gf 0 = 0" "Gf 1 = 1" "Gf (gf256_add a b) = Gf a + Gf b" "Gf (gf256_sub a b) = Gf a - Gf b"
  "Gf (gf256_mul a b) = Gf a * Gf b"
  by (simp_all add: zero_gf256_def one_gf256_def plus_gf256.abs_eq minus_gf256.abs_eq times_gf256.abs_eq)

lemma Gf_eq_iff [simp]: "Gf a = Gf b \<longleftrightarrow> a = b"
  by (simp add: Gf_inject)

lemma Gf_checked_div:
  assumes "b \<noteq> 0"
  shows "\<exists>q. gf256_checked_div a b = Some q \<and> Gf q = Gf a / Gf b"
proof -
  obtain q where q: "gf256_checked_div a b = Some q" "gf256_mul q b = a"
    using checked_div_mul [OF assms] by blast
  have "Gf b \<noteq> 0" using assms Gf_arith(1) Gf_eq_iff by metis
  moreover have "Gf q * Gf b = Gf a" using q(2) Gf_arith(5) by metis
  ultimately show ?thesis using q(1) by (auto simp: eq_divide_eq)
qed

lemma gf_minus: "a - b = a + (b :: gf256)"
  by transfer (simp add: gf256_sub_def)

section \<open>Polynomials over a field\<close>

text \<open>A polynomial is the list of its coefficients, the constant term first.\<close>

fun poly_val :: "'a :: comm_ring_1 list \<Rightarrow> 'a \<Rightarrow> 'a" where
  "poly_val [] x = 0"
| "poly_val (c # cs) x = c + x * poly_val cs x"

fun deflate :: "'a :: comm_ring_1 list \<Rightarrow> 'a \<Rightarrow> 'a list" where
  "deflate [] a = []"
| "deflate [c] a = []"
| "deflate (c # cs) a = poly_val cs a # deflate cs a"

lemma deflate_val: "poly_val p x = poly_val p a + (x - a) * poly_val (deflate p a) x"
proof (induction p a rule: deflate.induct)
  case (3 c d cs a)
  have "c + x * px = c + a * pa + (x - a) * (pa + x * q)" if "px = pa + (x - a) * q" for px pa q
    unfolding that by (simp add: algebra_simps)
  from this [OF 3] show ?case by (simp only: poly_val.simps(2) deflate.simps(3))
qed auto

lemma deflate_length: "length (deflate p a) = length p - 1"
  by (induction p a rule: deflate.induct) auto

lemma deflate_zero: "set (deflate p a) \<subseteq> {0} \<Longrightarrow> poly_val p a = 0 \<Longrightarrow> set p \<subseteq> {0}"
  by (induction p a rule: deflate.induct) auto

lemma poly_roots:
  fixes p :: "'a :: field list"
  assumes "distinct xs" "length p \<le> length xs" "\<And>x. x \<in> set xs \<Longrightarrow> poly_val p x = 0"
  shows "set p \<subseteq> {0}"
  using assms
proof (induction xs arbitrary: p)
  case (Cons a xs)
  have "set (deflate p a) \<subseteq> {0}"
  proof (rule Cons.IH)
    show "poly_val (deflate p a) x = 0" if "x \<in> set xs" for x
      using deflate_val [of p x a] Cons.prems that by auto
  qed (use Cons.prems in \<open>auto simp: deflate_length\<close>)
  then show ?case using Cons.prems(3) [of a] deflate_zero by auto
qed simp

lemma poly_val_zero: "set p \<subseteq> {0} \<Longrightarrow> poly_val p x = 0"
  by (induction p) auto

lemma poly_val_append: "poly_val (p @ q) x = poly_val p x + x ^ length p * poly_val q x"
  by (induction p) (auto simp: algebra_simps)

lemma poly_val_replicate [simp]: "poly_val (replicate n 0) x = 0"
  by (induction n) auto

text \<open>Two polynomials that agree on more points than they have coefficients are equal up to zeros at the end.\<close>

lemma poly_val_map2:
  "length p = length q \<Longrightarrow> poly_val (map2 (-) p q) x = poly_val p x - poly_val q x"
proof (induction p q rule: list_induct2)
  case (Cons c p d q)
  show ?case by (simp add: Cons.IH algebra_simps)
qed simp

lemma poly_unique:
  fixes p q :: "'a :: field list"
  assumes "distinct xs" "length p = length q" "length p \<le> length xs"
    and "\<And>x. x \<in> set xs \<Longrightarrow> poly_val p x = poly_val q x"
  shows "p = q"
proof -
  have "set (map2 (-) p q) \<subseteq> {0}"
    by (rule poly_roots [OF assms(1)]) (use assms in \<open>auto simp: poly_val_map2\<close>)
  then have "p ! i = q ! i" if "i < length p" for i
    using that assms(2) by (fastforce simp: set_conv_nth)
  then show ?thesis using assms(2) by (simp add: nth_equalityI)
qed

end
