(* ===== verification/Vault_Shamir.thy ===== *)
theory Vault_Shamir
  imports Gf256
begin

text \<open>
  \<open>libvault/src/shamir.rs\<close>: the sharing of the master key: splitting, interpolation and recovery. The bytes that
  the random generator delivers are an argument, a function of the position of the secret's byte and the index. The
  lemmas show that interpolation recovers the polynomial and that fewer shares than the threshold determine nothing.
\<close>

section \<open>Errors\<close>

text \<open>The errors of \<open>errors.rs\<close> that the modelled operations return.\<close>

datatype rv_error =
    ErrShamirShareCountInvalid
  | ErrBarrierAlreadyInit
  | ErrBarrierNotInit
  | ErrBarrierSealed
  | ErrBarrierUnsealed
  | ErrBarrierUnsealing
  | ErrBarrierKeyInvalid
  | ErrBarrierKeyDeprecated
  | ErrBarrierUnsealFailed
  | ErrBarrierEpochMismatch
  | ErrBarrierVersionMismatch
  | ErrCoreSealConfigInvalid
  | ErrCoreSealConfigNotFound
  | ErrCoreDeprecatedUnsealKeySetNotFound
  | SerdeJson
  | OpenSSL

section \<open>Polynomials\<close>

definition add_polynomials :: "u8 list \<Rightarrow> u8 list \<Rightarrow> u8 list" where
  "add_polynomials a b =
     (let a' = a @ replicate (length b - length a) 0;
          b' = b @ replicate (length a - length b) 0
      in map2 gf256_add a' b')"

fun multiply_loop :: "u8 list \<Rightarrow> u8 list \<Rightarrow> u8 list \<Rightarrow> u8 list \<Rightarrow> u8 list" where
  "multiply_loop a [] termpadding resultterms = resultterms"
| "multiply_loop a (bterm # b) termpadding resultterms =
     (let thisvalue = termpadding @ map (\<lambda>aterm. gf256_mul aterm bterm) a
      in multiply_loop a b (termpadding @ [0]) (add_polynomials resultterms thisvalue))"

definition multiply_polynomials :: "u8 list \<Rightarrow> u8 list \<Rightarrow> u8 list" where
  "multiply_polynomials a b = multiply_loop a b [] []"

fun lagrange_inner :: "u8 list \<Rightarrow> nat \<Rightarrow> nat list \<Rightarrow> u8 list \<Rightarrow> u8 list option" where
  "lagrange_inner xs i [] this_polynomial = Some this_polynomial"
| "lagrange_inner xs i (j # js) this_polynomial =
     (if i = j then lagrange_inner xs i js this_polynomial
      else
        (let denominator = gf256_sub (xs ! i) (xs ! j);
             first_term = gf256_checked_div (xs ! j) denominator;
             second_term = gf256_checked_div 1 denominator
         in case (first_term, second_term) of
              (Some a, Some b) \<Rightarrow>
                lagrange_inner xs i js (multiply_polynomials this_polynomial [a, b])
            | _ \<Rightarrow> None))"

fun lagrange_outer :: "u8 list \<Rightarrow> u8 list \<Rightarrow> nat list \<Rightarrow> u8 list \<Rightarrow> u8 list option" where
  "lagrange_outer xs fxs [] returned_coefficients = Some returned_coefficients"
| "lagrange_outer xs fxs (i # is) returned_coefficients =
     (case lagrange_inner xs i [0..<length fxs] [1] of
        None \<Rightarrow> None
      | Some p \<Rightarrow>
          (let this_polynomial =
                 (if length fxs + 1 \<ge> i then multiply_polynomials p [fxs ! i] else p)
           in lagrange_outer xs fxs is (add_polynomials returned_coefficients this_polynomial)))"

definition full_lagrange :: "u8 list \<Rightarrow> u8 list \<Rightarrow> u8 list option" where
  "full_lagrange xs fxs = lagrange_outer xs fxs [0..<length fxs] []"

section \<open>Splitting and recovery\<close>

record shamir_secret =
  coefficients :: "u8 list list"

definition with_secret :: "(nat \<Rightarrow> nat \<Rightarrow> u8) \<Rightarrow> u8 list \<Rightarrow> u8 \<Rightarrow> shamir_secret" where
  "with_secret fill_bytes secret threshold =
     \<lparr>coefficients =
        map (\<lambda>(k, c). c # map (fill_bytes k) [0..<unat (threshold - 1)]) (enumerate 0 secret)\<rparr>"

fun accumulate_loop :: "u8 \<Rightarrow> u8 list \<Rightarrow> u8 \<Rightarrow> u8 \<Rightarrow> u8" where
  "accumulate_loop i [] accumulator x_i = accumulator"
| "accumulate_loop i (c # cs) accumulator x_i =
     accumulate_loop i cs (gf256_add accumulator (gf256_mul c x_i)) (gf256_mul x_i i)"

definition accumulate_share_bytes :: "u8 \<Rightarrow> u8 list \<Rightarrow> rv_error + u8" where
  "accumulate_share_bytes i coefficient_bytes =
     (if i = 0 then Inl ErrShamirShareCountInvalid
      else Inr (accumulate_loop i coefficient_bytes 0 1))"

fun share_loop :: "u8 \<Rightarrow> u8 list list \<Rightarrow> u8 list \<Rightarrow> rv_error + u8 list" where
  "share_loop i [] share_bytes = Inr share_bytes"
| "share_loop i (coefficient # cs) share_bytes =
     (case accumulate_share_bytes i coefficient of
        Inl e \<Rightarrow> Inl e
      | Inr b \<Rightarrow> share_loop i cs (share_bytes @ [b]))"

definition get_share :: "shamir_secret \<Rightarrow> u8 \<Rightarrow> rv_error + u8 list" where
  "get_share s i =
     (if i = 0 then Inl ErrShamirShareCountInvalid
      else
        (case share_loop i (coefficients s) [] of
           Inl e \<Rightarrow> Inl e
         | Inr share_bytes \<Rightarrow> Inr (share_bytes @ [i])))"

text \<open>\<open>None\<close> is the panic on an empty share.\<close>

definition is_valid_share :: "shamir_secret \<Rightarrow> u8 list \<Rightarrow> bool option" where
  "is_valid_share s share =
     (if share = [] then None
      else Some (case get_share s (last share) of Inr t \<Rightarrow> t = share | Inl _ \<Rightarrow> False))"

fun split_loop :: "shamir_secret \<Rightarrow> u8 list \<Rightarrow> rv_error + u8 list list" where
  "split_loop secret_data [] = Inr []"
| "split_loop secret_data (i # is) =
     (case get_share secret_data i of
        Inl e \<Rightarrow> Inl e
      | Inr shared \<Rightarrow>
          (case split_loop secret_data is of Inl e \<Rightarrow> Inl e | Inr out \<Rightarrow> Inr (shared # out)))"

definition split :: "(nat \<Rightarrow> nat \<Rightarrow> u8) \<Rightarrow> u8 list \<Rightarrow> u8 \<Rightarrow> u8 \<Rightarrow> rv_error + u8 list list" where
  "split fill_bytes secret part threshold =
     (if part < threshold \<or> threshold < 2 \<or> part = 255 then Inl ErrShamirShareCountInvalid
      else split_loop (with_secret fill_bytes secret threshold) (map of_nat [1..<unat (part + 1)]))"

fun collect_xs :: "nat \<Rightarrow> u8 list list \<Rightarrow> u8 list \<Rightarrow> u8 list option" where
  "collect_xs len [] xs = Some xs"
| "collect_xs len (share # shares) xs =
     (if share = [] then None
      else if last share \<in> set xs then None
      else if length share \<noteq> len then None
      else collect_xs len shares (xs @ [last share]))"

fun recover_loop :: "u8 list \<Rightarrow> u8 list list \<Rightarrow> nat list \<Rightarrow> u8 list \<Rightarrow> u8 list option" where
  "recover_loop xs shares [] mysecretdata = Some mysecretdata"
| "recover_loop xs shares (byte_to_use # rounds) mysecretdata =
     (case full_lagrange xs (map (\<lambda>share. share ! byte_to_use) shares) of
        None \<Rightarrow> None
      | Some resulting_poly \<Rightarrow>
          recover_loop xs shares rounds (mysecretdata @ [resulting_poly ! 0]))"

definition recover_secret :: "u8 list list \<Rightarrow> u8 list option" where
  "recover_secret shares =
     (if length shares < 2 then None
      else
        (case collect_xs (length (shares ! 0)) shares [] of
           None \<Rightarrow> None
         | Some xs \<Rightarrow> recover_loop xs shares [0..<length (shares ! 0) - 1] []))"

definition combine :: "u8 list list \<Rightarrow> u8 list option" where
  "combine shares = recover_secret shares"


section \<open>Polynomials as functions\<close>

definition pval :: "u8 list \<Rightarrow> u8 \<Rightarrow> gf256" where
  "pval p x = poly_val (map Gf p) (Gf x)"

lemma pval_simps [simp]:
  "pval [] x = 0" "pval (c # p) x = Gf c + Gf x * pval p x" "pval (replicate n 0) x = 0"
  by (simp_all add: pval_def Gf_arith)

lemma pval_append: "pval (p @ q) x = pval p x + Gf x ^ length p * pval q x"
  by (simp add: pval_def poly_val_append)

lemma length_add_polynomials [simp]: "length (add_polynomials a b) = max (length a) (length b)"
  by (simp add: add_polynomials_def Let_def)

lemma pval_map2_add: "length a = length b \<Longrightarrow> pval (map2 gf256_add a b) x = pval a x + pval b x"
proof (induction a b rule: list_induct2)
  case (Cons c p d q)
  show ?case by (simp add: Cons.IH Gf_arith algebra_simps)
qed simp

lemma pval_add: "pval (add_polynomials a b) x = pval a x + pval b x"
  by (simp add: add_polynomials_def Let_def pval_map2_add pval_append)

lemma pval_scale: "pval (map (\<lambda>aterm. gf256_mul aterm c) a) x = pval a x * Gf c"
  by (induction a) (simp_all add: Gf_arith algebra_simps)

lemma multiply_loop_val:
  "pval (multiply_loop a b (replicate n 0) r) x = pval r x + Gf x ^ n * (pval a x * pval b x)"
proof (induction b arbitrary: n r)
  case (Cons c b)
  have pad: "replicate n 0 @ [0 :: u8] = replicate (Suc n) 0" by (simp add: replicate_append_same)
  show ?case
    unfolding multiply_loop.simps Let_def pad Cons.IH
    by (simp add: pval_add pval_append pval_scale algebra_simps)
qed simp

lemma pval_mult: "pval (multiply_polynomials a b) x = pval a x * pval b x"
  using multiply_loop_val [of a b 0 "[]" x] by (simp add: multiply_polynomials_def)

lemma multiply_loop_length:
  "a \<noteq> [] \<Longrightarrow> length (multiply_loop a b p r) =
     (if b = [] then length r else max (length r) (length p + length a + length b - 1))"
  by (induction b arbitrary: p r) (auto simp: Let_def)

lemma length_multiply: "a \<noteq> [] \<Longrightarrow> b \<noteq> [] \<Longrightarrow> length (multiply_polynomials a b) = length a + length b - 1"
  by (simp add: multiply_polynomials_def multiply_loop_length)

section \<open>Interpolation\<close>

lemma gf_sub_zero [simp]: "gf256_sub a b = 0 \<longleftrightarrow> a = b"
proof -
  have "gf256_sub a b = 0 \<longleftrightarrow> Gf (gf256_sub a b) = Gf 0" by simp
  also have "\<dots> \<longleftrightarrow> a = b" unfolding Gf_arith by simp
  finally show ?thesis .
qed

definition lagrange_factor :: "u8 list \<Rightarrow> nat \<Rightarrow> nat \<Rightarrow> u8 \<Rightarrow> gf256" where
  "lagrange_factor xs i j x = (if i = j then 1 else (Gf x - Gf (xs ! j)) / (Gf (xs ! i) - Gf (xs ! j)))"

lemma lagrange_inner_val:
  assumes "distinct xs" "i < length xs" "set js \<subseteq> {..<length xs}" "p \<noteq> []"
  shows "\<exists>q. lagrange_inner xs i js p = Some q \<and> length q = length p + length (filter (\<lambda>j. j \<noteq> i) js) \<and>
    (\<forall>x. pval q x = pval p x * (\<Prod>j\<leftarrow>js. lagrange_factor xs i j x))"
  using assms(3,4)
proof (induction js arbitrary: p)
  case (Cons j js)
  show ?case
  proof (cases "i = j")
    case True
    then show ?thesis using Cons by (auto simp: lagrange_factor_def)
  next
    case False
    let ?d = "gf256_sub (xs ! i) (xs ! j)"
    have "?d \<noteq> 0" using assms False Cons.prems(1) by (simp add: nth_eq_iff_index_eq)
    then obtain a b where ab: "gf256_checked_div (xs ! j) ?d = Some a" "gf256_checked_div 1 ?d = Some b"
      "Gf a = Gf (xs ! j) / Gf ?d" "Gf b = Gf 1 / Gf ?d"
      using Gf_checked_div by meson
    have val: "pval [a, b] x = lagrange_factor xs i j x" for x
      using False by (simp add: lagrange_factor_def ab Gf_arith gf_minus add_divide_distrib add.commute)
    let ?p = "multiply_polynomials p [a, b]"
    have len: "length ?p = length p + 1" using Cons.prems(2) by (simp add: length_multiply)
    then have "?p \<noteq> []" by (metis Suc_eq_plus1 length_0_conv nat.distinct(1))
    then obtain q where q: "lagrange_inner xs i js ?p = Some q"
      "length q = length ?p + length (filter (\<lambda>j. j \<noteq> i) js)"
      "\<forall>x. pval q x = pval ?p x * (\<Prod>j\<leftarrow>js. lagrange_factor xs i j x)"
      using Cons.IH [of ?p] Cons.prems(1) by auto
    have "pval q x = pval p x * (\<Prod>j\<leftarrow>j # js. lagrange_factor xs i j x)" for x
      by (simp only: q(3) pval_mult val list.map prod_list.Cons mult.assoc)
    moreover have "lagrange_inner xs i (j # js) p = Some q"
      using False q(1) by (simp add: Let_def ab(1,2))
    moreover have "length q = length p + length (filter (\<lambda>j. j \<noteq> i) (j # js))"
      using False q(2) len by simp
    ultimately show ?thesis by blast
  qed
qed simp

lemma length_filter_neq: "i < n \<Longrightarrow> length (filter (\<lambda>j. j \<noteq> i) [0..<n]) = n - 1"
proof -
  assume "i < n"
  have "length (filter (\<lambda>j. j \<noteq> i) [0..<n]) = card ({0..<n} - {i})"
    by (subst distinct_card [symmetric]) (auto intro: arg_cong [of _ _ card])
  then show ?thesis using \<open>i < n\<close> by simp
qed

lemma lagrange_outer_val:
  assumes "distinct xs" "length fxs = length xs" "set is \<subseteq> {..<length xs}"
  shows "\<exists>q. lagrange_outer xs fxs is r = Some q \<and>
    length q = (if is = [] then length r else max (length r) (length xs)) \<and>
    (\<forall>x. pval q x =
      pval r x + (\<Sum>i\<leftarrow>is. Gf (fxs ! i) * (\<Prod>j\<leftarrow>[0..<length xs]. lagrange_factor xs i j x)))"
  using assms(3)
proof (induction "is" arbitrary: r)
  case (Cons i "is")
  let ?n = "length xs"
  have i: "i < ?n" using Cons.prems by simp
  obtain p where p: "lagrange_inner xs i [0..<?n] [1] = Some p" "length p = ?n"
    "\<forall>x. pval p x = (\<Prod>j\<leftarrow>[0..<?n]. lagrange_factor xs i j x)"
    using lagrange_inner_val [OF assms(1) i, of "[0..<?n]" "[1]"] i
    by (auto simp: length_filter_neq Gf_arith atLeast0LessThan)
  have "p \<noteq> []" using p(2) i by auto
  let ?r = "add_polynomials r (multiply_polynomials p [fxs ! i])"
  have len: "length ?r = max (length r) ?n" using \<open>p \<noteq> []\<close> p(2) by (simp add: length_multiply)
  obtain q where q: "lagrange_outer xs fxs is ?r = Some q"
    "length q = (if is = [] then length ?r else max (length ?r) ?n)"
    "\<forall>x. pval q x = pval ?r x + (\<Sum>i\<leftarrow>is. Gf (fxs ! i) * (\<Prod>j\<leftarrow>[0..<?n]. lagrange_factor xs i j x))"
    using Cons.IH [of ?r] Cons.prems by auto
  have "lagrange_outer xs fxs (i # is) r = Some q"
    using p(1) q(1) i assms(2) by (simp add: Let_def)
  moreover have "length q = max (length r) ?n" using q(2) len by auto
  moreover have "pval q x =
      pval r x + (\<Sum>i\<leftarrow>i # is. Gf (fxs ! i) * (\<Prod>j\<leftarrow>[0..<?n]. lagrange_factor xs i j x))" for x
    by (simp add: q(3) p(3) pval_add pval_mult algebra_simps)
  ultimately show ?case by (intro exI [of _ q]) simp
qed simp

lemma lagrange_basis:
  assumes "distinct xs" "i < length xs" "k < length xs"
  shows "(\<Prod>j\<leftarrow>[0..<length xs]. lagrange_factor xs i j (xs ! k)) = (if i = k then 1 else 0)"
proof (cases "i = k")
  case True
  have "lagrange_factor xs i j (xs ! k) = 1" if "j < length xs" for j
    using that assms True by (simp add: lagrange_factor_def nth_eq_iff_index_eq)
  then have "map (\<lambda>j. lagrange_factor xs i j (xs ! k)) [0..<length xs] = map (\<lambda>j. 1) [0..<length xs]"
    by (intro map_cong) auto
  then show ?thesis using True by (simp add: map_replicate_const)
next
  case False
  then have "lagrange_factor xs i k (xs ! k) = 0" by (simp add: lagrange_factor_def)
  then show ?thesis using False assms(3) by (force simp: prod_list_zero_iff)
qed

lemma sum_list_pick: "k < n \<Longrightarrow> (\<Sum>i\<leftarrow>[0..<n]. f i * (if i = k then 1 else 0 :: gf256)) = f k"
  by (simp add: interv_sum_list_conv_sum_set_nat sum.delta if_distrib [of "(*) _"] cong: if_cong)

lemma full_lagrange_interpolates:
  assumes "distinct xs" "length fxs = length xs" "xs \<noteq> []"
  shows "\<exists>q. full_lagrange xs fxs = Some q \<and> length q = length xs \<and>
    (\<forall>k<length xs. pval q (xs ! k) = Gf (fxs ! k))"
proof -
  obtain q where q: "full_lagrange xs fxs = Some q" "length q = length xs"
    "\<forall>x. pval q x = (\<Sum>i\<leftarrow>[0..<length xs]. Gf (fxs ! i) * (\<Prod>j\<leftarrow>[0..<length xs]. lagrange_factor xs i j x))"
    using lagrange_outer_val [OF assms(1,2), of "[0..<length xs]" "[]"] assms(3) assms(2)
    by (auto simp: full_lagrange_def atLeast0LessThan)
  have "pval q (xs ! k) = Gf (fxs ! k)" if "k < length xs" for k
  proof -
    have "map (\<lambda>i. Gf (fxs ! i) * (\<Prod>j\<leftarrow>[0..<length xs]. lagrange_factor xs i j (xs ! k))) [0..<length xs] =
      map (\<lambda>i. Gf (fxs ! i) * (if i = k then 1 else 0)) [0..<length xs]"
      by (rule map_cong) (simp_all only: lagrange_basis [OF assms(1) _ that] set_upt atLeastLessThan_iff)
    then show ?thesis using q(3) that by (simp only: sum_list_pick)
  qed
  then show ?thesis using q by blast
qed

section \<open>Shares\<close>

lemma accumulate_loop_val: "Gf (accumulate_loop i cs acc x_i) = Gf acc + Gf x_i * pval cs i"
  by (induction cs arbitrary: acc x_i) (simp_all add: Gf_arith algebra_simps)

definition share_byte :: "u8 \<Rightarrow> u8 list \<Rightarrow> u8" where
  "share_byte i cs = accumulate_loop i cs 0 1"

lemma Gf_share_byte: "Gf (share_byte i cs) = pval cs i"
  by (simp add: share_byte_def accumulate_loop_val Gf_arith)

definition share_of :: "u8 list list \<Rightarrow> u8 \<Rightarrow> u8 list" where
  "share_of coefs i = map (share_byte i) coefs @ [i]"

lemma share_of_simps [simp]:
  "last (share_of coefs i) = i" "length (share_of coefs i) = length coefs + 1" "share_of coefs i \<noteq> []"
  "k < length coefs \<Longrightarrow> share_of coefs i ! k = share_byte i (coefs ! k)"
  by (simp_all add: share_of_def nth_append)

lemma share_loop_eq: "i \<noteq> 0 \<Longrightarrow> share_loop i cs acc = Inr (acc @ map (share_byte i) cs)"
  by (induction cs arbitrary: acc) (simp_all add: accumulate_share_bytes_def share_byte_def)

lemma get_share_eq:
  "get_share s i = (if i = 0 then Inl ErrShamirShareCountInvalid else Inr (share_of (coefficients s) i))"
  by (simp add: get_share_def share_loop_eq share_of_def)

lemma split_loop_eq: "0 \<notin> set is \<Longrightarrow> split_loop s is = Inr (map (share_of (coefficients s)) is)"
  by (induction "is") (auto simp: get_share_eq)

lemma share_ids:
  assumes "part \<noteq> (255 :: u8)"
  shows "set (map of_nat [1..<unat (part + 1)]) = {i :: u8. i \<noteq> 0 \<and> i \<le> part}"
proof -
  have "(- 1 :: u8) = 255" by simp
  then have "part \<noteq> - 1" using assms by metis
  then have "1 + part \<noteq> 0" by (metis add.commute eq_neg_iff_add_eq_0)
  then have *: "unat (part + 1) = Suc (unat part)" by (simp add: unatSuc add.commute [of part])
  show ?thesis
  proof (intro set_eqI iffI)
    fix i :: u8
    assume "i \<in> set (map of_nat [1..<unat (part + 1)])"
    then obtain n where "n \<in> {1..<Suc (unat part)}" and i: "i = of_nat n"
      unfolding * set_map set_upt by blast
    then have n: "0 < n" "n \<le> unat part" by auto
    have "unat part < 256" by (rule order_less_le_trans [OF unsigned_less]) simp
    then have "unat i = n" using n by (simp add: i unat_of_nat)
    then show "i \<in> {i. i \<noteq> 0 \<and> i \<le> part}" using n by (auto simp: word_le_nat_alt)
  next
    fix i assume "i \<in> {i. i \<noteq> 0 \<and> i \<le> part}"
    then have "unat i \<noteq> 0" "unat i \<le> unat part" by (simp_all add: unsigned_eq_0_iff word_le_nat_alt)
    then have "unat i \<in> set [1..<unat (part + 1)]" by (auto simp: * Suc_le_eq)
    then show "i \<in> set (map of_nat [1..<unat (part + 1)])" by (force simp: image_iff)
  qed
qed

lemma split_eq:
  "split fill_bytes secret part threshold =
     (if part < threshold \<or> threshold < 2 \<or> part = 255 then Inl ErrShamirShareCountInvalid
      else Inr (map (share_of (coefficients (with_secret fill_bytes secret threshold)))
             (map of_nat [1..<unat (part + 1)])))"
proof (cases "part < threshold \<or> threshold < 2 \<or> part = 255")
  case False
  then have "0 \<notin> set (map of_nat [1..<unat (part + 1)] :: u8 list)" by (subst share_ids) auto
  then show ?thesis using False by (simp add: split_def split_loop_eq del: set_map)
qed (simp add: split_def)

lemma threshold_pred: "2 \<le> t \<Longrightarrow> unat (t - 1) = unat t - 1" for t :: u8
  by (rule unat_minus_one) auto

lemma coefficients_with_secret:
  "length (coefficients (with_secret fill_bytes secret threshold)) = length secret"
  "k < length secret \<Longrightarrow> coefficients (with_secret fill_bytes secret threshold) ! k =
     secret ! k # map (fill_bytes k) [0..<unat (threshold - 1)]"
  by (simp_all add: with_secret_def nth_enumerate_eq)

lemma collect_xs_eq:
  assumes "distinct (xs @ map last shares)" "\<And>s. s \<in> set shares \<Longrightarrow> s \<noteq> [] \<and> length s = len"
  shows "collect_xs len shares xs = Some (xs @ map last shares)"
  using assms by (induction shares arbitrary: xs) auto

text \<open>Interpolation through enough shares of a polynomial gives its constant term.\<close>

lemma interpolate_shares:
  assumes "distinct is" "length coef \<le> length is" "coef \<noteq> []"
  shows "\<exists>q. full_lagrange is (map (\<lambda>i. share_byte i coef) is) = Some q \<and> q ! 0 = coef ! 0"
proof -
  obtain q where q: "full_lagrange is (map (\<lambda>i. share_byte i coef) is) = Some q" "length q = length is"
    "\<forall>k<length is. pval q (is ! k) = Gf (map (\<lambda>i. share_byte i coef) is ! k)"
    using full_lagrange_interpolates [OF assms(1), of "map (\<lambda>i. share_byte i coef) is"] assms by fastforce
  let ?p = "coef @ replicate (length is - length coef) 0"
  have "map Gf q = map Gf ?p"
  proof (rule poly_unique [of "map Gf is"])
    fix x assume "x \<in> set (map Gf is)"
    then obtain k where k: "k < length is" "x = Gf (is ! k)" by (auto simp: in_set_conv_nth)
    have "pval q (is ! k) = pval coef (is ! k)" using q(3) k by (simp add: Gf_share_byte)
    moreover have "pval ?p (is ! k) = pval coef (is ! k)" by (simp add: pval_append)
    ultimately show "poly_val (map Gf q) x = poly_val (map Gf ?p) x" by (simp only: pval_def k(2))
  qed (use assms q(2) in \<open>auto simp: distinct_map inj_on_def\<close>)
  then have "q = ?p" by (metis Gf_eq_iff list.inj_map_strong)
  then show ?thesis using q(1) assms(3) by (auto simp: nth_append)
qed

lemma recover_loop_eq:
  assumes "\<And>k. k \<in> set ks \<Longrightarrow>
    \<exists>q. full_lagrange xs (map (\<lambda>share. share ! k) shares) = Some q \<and> q ! 0 = v k"
  shows "recover_loop xs shares ks acc = Some (acc @ map v ks)"
  using assms by (induction ks arbitrary: acc) fastforce+

lemma recover_shares:
  assumes "distinct is" "2 \<le> length is"
    and coefs: "\<And>k. k < length coefs \<Longrightarrow> coefs ! k \<noteq> [] \<and> length (coefs ! k) \<le> length is"
  shows "recover_secret (map (share_of coefs) is) = Some (map hd coefs)"
proof -
  let ?shares = "map (share_of coefs) is"
  have len0: "length (?shares ! 0) = length coefs + 1" using assms(2) by (cases "is") auto
  have "collect_xs (length coefs + 1) ?shares [] = Some is"
    by (subst collect_xs_eq) (use assms(1) in \<open>auto simp: comp_def\<close>)
  moreover have "recover_loop is ?shares [0..<length coefs] [] =
      Some ([] @ map (\<lambda>k. coefs ! k ! 0) [0..<length coefs])"
  proof (rule recover_loop_eq)
    fix k assume "k \<in> set [0..<length coefs]"
    then have k: "k < length coefs" by simp
    have "map (\<lambda>share. share ! k) ?shares = map (\<lambda>i. share_byte i (coefs ! k)) is"
      using k by simp
    then show "\<exists>q. full_lagrange is (map (\<lambda>share. share ! k) ?shares) = Some q \<and> q ! 0 = coefs ! k ! 0"
      using interpolate_shares [OF assms(1), of "coefs ! k"] coefs [OF k] by metis
  qed
  moreover have "map (\<lambda>k. coefs ! k ! 0) [0..<length coefs] = map hd coefs"
    using coefs by (intro nth_equalityI) (auto simp: hd_conv_nth)
  ultimately show ?thesis using assms(2) by (simp add: recover_secret_def len0)
qed

lemma chosen_shares:
  assumes "set chosen \<subseteq> set (map (share_of coefs) ids)" "distinct chosen"
  shows "chosen = map (share_of coefs) (map last chosen) \<and> distinct (map last chosen)"
proof -
  have own: "s = share_of coefs (last s)" if "s \<in> set chosen" for s
    using assms(1) that by auto
  then have "chosen = map (share_of coefs) (map last chosen)" by (simp add: map_idI)
  moreover have "inj_on last (set chosen)" by (rule inj_onI) (metis own)
  ultimately show ?thesis using assms(2) by (simp add: distinct_map)
qed

section \<open>Properties\<close>

lemma split_recovers:
  assumes "split fill_bytes secret part threshold = Inr shares"
    and "set chosen \<subseteq> set shares" "distinct chosen" "unat threshold \<le> length chosen"
  shows "combine chosen = Some secret"
proof -
  let ?coefs = "coefficients (with_secret fill_bytes secret threshold)"
  have t: "\<not> threshold < 2" and sh: "shares = map (share_of ?coefs) (map of_nat [1..<unat (part + 1)])"
    using assms(1) by (auto simp: split_eq split: if_splits)
  have t2: "2 \<le> unat threshold" using t by (simp add: word_less_nat_alt)
  have t1: "unat (threshold - 1) = unat threshold - 1" using t by (intro threshold_pred) simp
  have chosen: "chosen = map (share_of ?coefs) (map last chosen)" "distinct (map last chosen)"
    using chosen_shares assms(2,3) unfolding sh by blast+
  have "recover_secret (map (share_of ?coefs) (map last chosen)) = Some (map hd ?coefs)"
    using t2 assms(4) by (intro recover_shares chosen(2)) (auto simp: coefficients_with_secret t1)
  moreover have "map hd ?coefs = secret"
    by (intro nth_equalityI) (auto simp: coefficients_with_secret)
  ultimately show ?thesis using chosen(1) by (simp add: combine_def)
qed

text \<open>
  C6: The sharing of the key recovers it: any choice of at least \<open>threshold\<close> different shares among the ones that \<open>split\<close>
  made combines to the secret, for every secret, every random choice and every accepted number of parts.
\<close>

theorem split_combine:
  assumes "split fill_bytes secret part threshold = Inr shares"
    and "set chosen \<subseteq> set shares" "distinct chosen" "unat threshold \<le> length chosen"
  shows "combine chosen = Some secret"
  using split_recovers [OF assms] .

definition ex_shares :: "u8 list list" where
  "ex_shares = map (share_of (coefficients (with_secret (\<lambda>k n. of_nat (7 * k + n + 3)) [42, 7] 2)))
     (map of_nat [1..<unat (3 + 1 :: u8)])"

theorem split_combine_witness: "combine [ex_shares ! 2, ex_shares ! 0] = Some [42, 7]"
proof (rule split_combine)
  show "split (\<lambda>k n. of_nat (7 * k + n + 3)) [42, 7] 3 2 = Inr ex_shares"
    by (simp add: split_eq ex_shares_def)
  show "set [ex_shares ! 2, ex_shares ! 0] \<subseteq> set ex_shares"
    using nth_mem [of 2 ex_shares] nth_mem [of 0 ex_shares] by (simp add: ex_shares_def)
  show "distinct [ex_shares ! 2, ex_shares ! 0]"
    by (simp add: ex_shares_def share_of_def)
  show "unat (2 :: u8) \<le> length [ex_shares ! 2, ex_shares ! 0]" by simp
qed

text \<open>The random bytes are determined by the secret byte and the bytes of one share less than there are coefficients.\<close>

lemma shares_determine_random:
  assumes "distinct ids" "0 \<notin> set ids" "length r = length ids" "length r' = length ids"
    and "map (\<lambda>i. share_byte i (c # r)) ids = map (\<lambda>i. share_byte i (c # r')) ids"
  shows "r = r'"
proof -
  have "map Gf (c # r) = map Gf (c # r')"
  proof (rule poly_unique [of "map Gf (0 # ids)"])
    fix x assume "x \<in> set (map Gf (0 # ids))"
    then obtain i where i: "i \<in> set (0 # ids)" "x = Gf i" by auto
    have "pval (c # r) i = pval (c # r') i"
    proof (cases "i = 0")
      case False
      then have "share_byte i (c # r) = share_byte i (c # r')" using i(1) assms(5) by simp
      then show ?thesis by (metis Gf_share_byte)
    qed (simp add: Gf_arith)
    then show "poly_val (map Gf (c # r)) x = poly_val (map Gf (c # r')) x" by (simp only: pval_def i(2))
  qed (use assms in \<open>auto simp: distinct_map inj_on_def\<close>)
  then show ?thesis by (metis Gf_eq_iff list.inj_map_strong list.inject)
qed

lemma random_exists:
  assumes "distinct ids" "0 \<notin> set ids" "length ys = length ids"
  shows "\<exists>r. length r = length ids \<and> map (\<lambda>i. share_byte i (c # r)) ids = ys"
proof -
  let ?R = "{r :: u8 list. length r = length ids}" and ?f = "\<lambda>r. map (\<lambda>i. share_byte i (c # r)) ids"
  have "finite ?R" using finite_lists_length_eq [of "UNIV :: u8 set"] by simp
  moreover have "?f ` ?R \<subseteq> ?R" by auto
  moreover have "inj_on ?f ?R" using shares_determine_random [OF assms(1,2)] by (auto intro: inj_onI)
  ultimately have "?f ` ?R = ?R" by (rule endo_inj_surj)
  then have "ys \<in> ?f ` ?R" using assms(3) by simp
  then show ?thesis by auto
qed

definition same_shares :: "u8 list \<Rightarrow> shamir_secret \<Rightarrow> shamir_secret \<Rightarrow> bool" where
  "same_shares ids s s' \<longleftrightarrow> (\<forall>i\<in>set ids. get_share s i = get_share s' i)"

lemma same_shares_iff:
  assumes "0 \<notin> set ids" "length secret' = length secret"
  shows "same_shares ids (with_secret fill' secret' t) (with_secret fill secret t) \<longleftrightarrow>
    (\<forall>k<length secret.
       map (\<lambda>i. share_byte i (secret' ! k # map (fill' k) [0..<unat (t - 1)])) ids =
       map (\<lambda>i. share_byte i (secret ! k # map (fill k) [0..<unat (t - 1)])) ids)"
proof -
  have "share_of (coefficients (with_secret fill' secret' t)) i =
      share_of (coefficients (with_secret fill secret t)) i \<longleftrightarrow>
    (\<forall>k<length secret. share_byte i (secret' ! k # map (fill' k) [0..<unat (t - 1)]) =
       share_byte i (secret ! k # map (fill k) [0..<unat (t - 1)]))" for i
    using assms(2) by (simp only: share_of_def append_same_eq) (simp add: list_eq_iff_nth_eq coefficients_with_secret)
  moreover have "i \<noteq> 0" if "i \<in> set ids" for i using assms(1) that by auto
  ultimately show ?thesis by (auto simp: same_shares_def get_share_eq)
qed

text \<open>
  C7: Fewer shares than the threshold say nothing about the secret: whatever the shares of \<open>threshold - 1\<close> different
  holders are, every other secret of the same length gives the same shares under exactly one choice of the
  random bytes (so that all secrets are equally likely for random bytes).
\<close>

theorem fewer_shares_reveal_nothing:
  assumes "2 \<le> threshold" "distinct ids" "0 \<notin> set ids" "length ids = unat threshold - 1"
    and "length secret' = length secret"
  shows "\<exists>fill'. same_shares ids (with_secret fill' secret' threshold) (with_secret fill secret threshold) \<and>
    (\<forall>fill''. same_shares ids (with_secret fill'' secret' threshold) (with_secret fill secret threshold) \<longrightarrow>
       (\<forall>k<length secret. \<forall>n<unat threshold - 1. fill'' k n = fill' k n))"
proof -
  have t1: "unat (threshold - 1) = length ids"
    using assms(4) threshold_pred [OF assms(1)] by simp
  let ?ys = "\<lambda>k. map (\<lambda>i. share_byte i (secret ! k # map (fill k) [0..<length ids])) ids"
  have "\<forall>k. \<exists>r. length r = length ids \<and> map (\<lambda>i. share_byte i (secret' ! k # r)) ids = ?ys k"
    by (intro allI random_exists assms(2,3)) simp
  then obtain r where r: "\<forall>k. length (r k) = length ids \<and> map (\<lambda>i. share_byte i (secret' ! k # r k)) ids = ?ys k"
    by (rule choice [THEN exE])
  let ?fill' = "\<lambda>k n. r k ! n"
  have map_r: "map (?fill' k) [0..<length ids] = r k" for k
    using r map_nth [of "r k"] by simp
  have unique: "fill'' k n = ?fill' k n"
    if "same_shares ids (with_secret fill'' secret' threshold) (with_secret fill secret threshold)"
      "k < length secret" "n < length ids" for fill'' k n
  proof -
    have "map (\<lambda>i. share_byte i (secret' ! k # map (fill'' k) [0..<length ids])) ids = ?ys k"
      using that(1,2) by (simp add: same_shares_iff [OF assms(3,5)] t1)
    also have "\<dots> = map (\<lambda>i. share_byte i (secret' ! k # r k)) ids" using r by simp
    finally have "map (fill'' k) [0..<length ids] = r k"
      by (rule shares_determine_random [OF assms(2,3), rotated 2]) (use r in simp_all)
    then have "map (fill'' k) [0..<length ids] ! n = r k ! n" by simp
    then show ?thesis using that(3) by simp
  qed
  have same: "same_shares ids (with_secret ?fill' secret' threshold) (with_secret fill secret threshold)"
    unfolding same_shares_iff [OF assms(3,5)] t1 map_r using r by simp
  show ?thesis
    by (rule exI [of _ ?fill'], intro conjI allI impI same unique) (simp_all only: assms(4))
qed

theorem fewer_shares_reveal_nothing_witness:
  "\<exists>fill'. same_shares [3] (with_secret fill' [9] 2) (with_secret (\<lambda>_ _. 5) [42] 2)"
  using fewer_shares_reveal_nothing [of 2 "[3]" "[9]" "[42]" "\<lambda>_ _. 5"] by auto

end
