(* ===== verification/Vault_Barrier.thy ===== *)
theory Vault_Barrier
  imports Vault_Shamir
begin

text \<open>
  \<open>libvault/src/storage/barrier_aes_gcm.rs\<close>: the encrypting layer between the vault and its storage. The cipher,
  the hash functions and the JSON coder are an argument (\<open>vault_lib\<close>); what the code relies on is \<open>ext_ok\<close>. The
  storage backend is a map that answers without input or output errors. The lemmas show the layout of a stored value, that what
  is written is read back, and that the key that initialised the barrier unseals it.
\<close>

section \<open>External functions\<close>

type_synonym bytes = "u8 list"

record seal_config =
  secret_shares :: u8
  secret_threshold :: u8

record barrier_init =
  bi_init_version :: u32
  bi_init_key :: bytes

text \<open>
  \<open>ve_crypter_ok\<close>: the cipher accepts the key and the nonce; \<open>None\<close> is an error of the cipher. The second result of the
  encryption is the tag.
\<close>

record vault_lib =
  ve_iv_len :: nat
  ve_crypter_ok :: "bytes \<Rightarrow> bytes \<Rightarrow> bool"
  ve_gcm_encrypt :: "bytes \<Rightarrow> bytes \<Rightarrow> bytes option \<Rightarrow> bytes \<Rightarrow> (bytes \<times> bytes) option"
  ve_gcm_decrypt :: "bytes \<Rightarrow> bytes \<Rightarrow> bytes option \<Rightarrow> bytes \<Rightarrow> bytes \<Rightarrow> bytes option"
  ve_sha256 :: "bytes \<Rightarrow> bytes"
  ve_blake3 :: "bytes \<Rightarrow> bytes"
  ve_init_to_json :: "barrier_init \<Rightarrow> bytes"
  ve_init_of_json :: "bytes \<Rightarrow> barrier_init option"
  ve_config_to_json :: "seal_config \<Rightarrow> bytes"
  ve_config_of_json :: "bytes \<Rightarrow> seal_config option"
  ve_set_to_json :: "bytes list \<Rightarrow> bytes"
  ve_set_of_json :: "bytes \<Rightarrow> bytes list option"

text \<open>Decryption inverts encryption with a tag of sixteen bytes, and JSON is read as it was written.\<close>

definition ext_ok :: "vault_lib \<Rightarrow> bool" where
  "ext_ok ve \<longleftrightarrow>
     (\<forall>key iv aad pt ct tag. ve_gcm_encrypt ve key iv aad pt = Some (ct, tag) \<longrightarrow>
        length tag = 16 \<and> ve_gcm_decrypt ve key iv aad ct tag = Some pt) \<and>
     (\<forall>x. ve_init_of_json ve (ve_init_to_json ve x) = Some x) \<and>
     (\<forall>x. ve_config_of_json ve (ve_config_to_json ve x) = Some x) \<and>
     (\<forall>x. ve_set_of_json ve (ve_set_to_json ve x) = Some x)"

definition path_bytes :: "string \<Rightarrow> bytes" where
  "path_bytes = map of_char"

section \<open>The barrier\<close>

definition EPOCH_SIZE :: nat where "EPOCH_SIZE = 4"
definition KEY_EPOCH :: u8 where "KEY_EPOCH = 1"
definition AES_GCM_VERSION1 :: u8 where "AES_GCM_VERSION1 = 1"
definition AES_GCM_VERSION2 :: u8 where "AES_GCM_VERSION2 = 2"
definition AES_BLOCK_SIZE :: nat where "AES_BLOCK_SIZE = 16"
definition BARRIER_INIT_PATH :: string where "BARRIER_INIT_PATH = ''barrier/init''"

record barrier =
  br_sealed :: bool
  br_key :: "bytes option"
  br_version :: u8
  br_backend :: "(string, bytes) hashmap"

definition barrier_new :: "(string, bytes) hashmap \<Rightarrow> barrier" where
  "barrier_new physical =
     \<lparr>br_sealed = True, br_key = None, br_version = AES_GCM_VERSION2, br_backend = physical\<rparr>"

definition init_cipher :: "bytes \<Rightarrow> barrier \<Rightarrow> barrier" where
  "init_cipher key b = b\<lparr>br_key := Some key\<rparr>"

definition reset_cipher :: "barrier \<Rightarrow> barrier" where
  "reset_cipher b = b\<lparr>br_key := None\<rparr>"

text \<open>The random nonce is an argument, as a function of the index.\<close>

definition encrypt :: "vault_lib \<Rightarrow> (nat \<Rightarrow> u8) \<Rightarrow> barrier \<Rightarrow> string \<Rightarrow> bytes \<Rightarrow> rv_error + bytes" where
  "encrypt ve nonce b path plaintext =
     (case br_key b of
        None \<Rightarrow> Inl ErrBarrierNotInit
      | Some key \<Rightarrow>
          (let iv = map nonce [0..<ve_iv_len ve];
               aad = (if br_version b = AES_GCM_VERSION2 then Some (path_bytes path) else None)
           in if \<not> ve_crypter_ok ve key iv then Inl OpenSSL
              else
                (case ve_gcm_encrypt ve key iv aad plaintext of
                   None \<Rightarrow> Inl OpenSSL
                 | Some (ct, tag) \<Rightarrow> Inr ([0, 0, 0, KEY_EPOCH, br_version b] @ iv @ ct @ tag))))"

text \<open>The comparison of the first four bytes; \<open>None\<close> is the panic on a value that is too short.\<close>

fun epoch_mismatch :: "bytes \<Rightarrow> bytes \<Rightarrow> bool option" where
  "epoch_mismatch [] c = Some False"
| "epoch_mismatch (e # es) [] = None"
| "epoch_mismatch (e # es) (c # cs) = (if c \<noteq> e then Some True else epoch_mismatch es cs)"

definition decrypt :: "vault_lib \<Rightarrow> barrier \<Rightarrow> string \<Rightarrow> bytes \<Rightarrow> (rv_error + bytes) option" where
  "decrypt ve b path ciphertext =
     (case br_key b of
        None \<Rightarrow> Some (Inl ErrBarrierNotInit)
      | Some key \<Rightarrow>
          (case epoch_mismatch [0, 0, 0, KEY_EPOCH] ciphertext of
             None \<Rightarrow> None
           | Some True \<Rightarrow> Some (Inl ErrBarrierEpochMismatch)
           | Some False \<Rightarrow>
               (let iv_len = ve_iv_len ve;
                    iv = take iv_len (drop 5 ciphertext)
                in if iv_len \<noteq> 0 \<and> length ciphertext < 5 + iv_len then None
                   else if \<not> ve_crypter_ok ve key iv then Some (Inl OpenSSL)
                   else if length ciphertext < 5 then None
                   else
                     (let version = ciphertext ! 4
                      in if version \<noteq> AES_GCM_VERSION1 \<and> version \<noteq> AES_GCM_VERSION2
                         then Some (Inl ErrBarrierVersionMismatch)
                         else if length ciphertext < 5 + iv_len + 16 then None
                         else
                           (let aad = (if version = AES_GCM_VERSION2 then Some (path_bytes path) else None);
                                raw = take (length ciphertext - 16 - (5 + iv_len)) (drop (5 + iv_len) ciphertext);
                                tag = drop (length ciphertext - 16) ciphertext
                            in case ve_gcm_decrypt ve key iv aad raw tag of
                                 None \<Rightarrow> Some (Inl OpenSSL)
                               | Some out \<Rightarrow> Some (Inr out))))))"

section \<open>Storage operations\<close>

definition barrier_get :: "vault_lib \<Rightarrow> string \<Rightarrow> barrier \<Rightarrow> (rv_error + bytes option) option" where
  "barrier_get ve key b =
     (if br_sealed b then Some (Inl ErrBarrierSealed)
      else
        (case hm_get (br_backend b) key of
           None \<Rightarrow> Some (Inr None)
         | Some value \<Rightarrow>
             (case decrypt ve b key value of
                None \<Rightarrow> None
              | Some (Inl e) \<Rightarrow> Some (Inl e)
              | Some (Inr plain) \<Rightarrow> Some (Inr (Some plain)))))"

definition barrier_put ::
    "vault_lib \<Rightarrow> (nat \<Rightarrow> u8) \<Rightarrow> string \<Rightarrow> bytes \<Rightarrow> barrier \<Rightarrow> (rv_error + unit) \<times> barrier" where
  "barrier_put ve nonce key value b =
     (if br_sealed b then (Inl ErrBarrierSealed, b)
      else
        (case encrypt ve nonce b key value of
           Inl e \<Rightarrow> (Inl e, b)
         | Inr ciphertext \<Rightarrow> (Inr (), b\<lparr>br_backend := hm_insert key ciphertext (br_backend b)\<rparr>)))"

definition barrier_delete :: "string \<Rightarrow> barrier \<Rightarrow> (rv_error + unit) \<times> barrier" where
  "barrier_delete key b =
     (if br_sealed b then (Inl ErrBarrierSealed, b)
      else (Inr (), b\<lparr>br_backend := hm_remove key (br_backend b)\<rparr>))"

section \<open>Sealing\<close>

definition barrier_inited :: "barrier \<Rightarrow> bool" where
  "barrier_inited b \<longleftrightarrow> hm_get (br_backend b) BARRIER_INIT_PATH \<noteq> None"

definition key_length_range :: "nat \<times> nat" where
  "key_length_range = (AES_BLOCK_SIZE, 2 * AES_BLOCK_SIZE)"

definition generate_key :: "(nat \<Rightarrow> u8) \<Rightarrow> bytes" where
  "generate_key fill = map fill [0..<2 * AES_BLOCK_SIZE]"

definition barrier_init_op ::
    "vault_lib \<Rightarrow> (nat \<Rightarrow> u8) \<Rightarrow> (nat \<Rightarrow> u8) \<Rightarrow> bytes \<Rightarrow> barrier \<Rightarrow> (rv_error + unit) \<times> barrier" where
  "barrier_init_op ve fill nonce kek b =
     (let (mn, mx) = key_length_range
      in if length kek < mn \<or> length kek > mx then (Inl ErrBarrierKeyInvalid, b)
         else if barrier_inited b then (Inl ErrBarrierAlreadyInit, b)
         else
           (let encrypt_key = generate_key fill;
                serialized = ve_init_to_json ve \<lparr>bi_init_version = 1, bi_init_key = encrypt_key\<rparr>;
                b1 = init_cipher kek b
            in case encrypt ve nonce b1 BARRIER_INIT_PATH serialized of
                 Inl e \<Rightarrow> (Inl e, b1)
               | Inr value \<Rightarrow>
                   (Inr (), reset_cipher
                      (b1\<lparr>br_backend := hm_insert BARRIER_INIT_PATH value (br_backend b1)\<rparr>))))"

definition barrier_unseal :: "vault_lib \<Rightarrow> bytes \<Rightarrow> barrier \<Rightarrow> ((rv_error + unit) \<times> barrier) option" where
  "barrier_unseal ve kek b =
     (if \<not> br_sealed b then Some (Inr (), b)
      else
        (case hm_get (br_backend b) BARRIER_INIT_PATH of
           None \<Rightarrow> Some (Inl ErrBarrierNotInit, b)
         | Some entry \<Rightarrow>
             (let b1 = init_cipher kek b
              in case decrypt ve b1 BARRIER_INIT_PATH entry of
                   None \<Rightarrow> None
                 | Some (Inl e) \<Rightarrow> Some (Inl ErrBarrierUnsealFailed, b1)
                 | Some (Inr value) \<Rightarrow>
                     (case ve_init_of_json ve value of
                        None \<Rightarrow> Some (Inl SerdeJson, b1)
                      | Some barrier_init \<Rightarrow>
                          Some (Inr (), (init_cipher (bi_init_key barrier_init) b1)\<lparr>br_sealed := False\<rparr>)))))"

definition barrier_seal :: "barrier \<Rightarrow> barrier" where
  "barrier_seal b = (reset_cipher b)\<lparr>br_sealed := True\<rparr>"

definition derive_hmac_key :: "vault_lib \<Rightarrow> barrier \<Rightarrow> rv_error + bytes" where
  "derive_hmac_key ve b =
     (case br_key b of
        None \<Rightarrow> Inl ErrBarrierNotInit
      | Some key \<Rightarrow> if br_sealed b then Inl ErrBarrierSealed else Inr (ve_sha256 ve key))"

section \<open>Lemmas\<close>

lemma decrypt_encrypt:
  assumes "ext_ok ve" "br_version b = AES_GCM_VERSION1 \<or> br_version b = AES_GCM_VERSION2"
    and "encrypt ve nonce b path plaintext = Inr c" "br_key b' = br_key b"
  shows "decrypt ve b' path c = Some (Inr plaintext)"
proof -
  let ?iv = "map nonce [0..<ve_iv_len ve]"
  let ?aad = "if br_version b = AES_GCM_VERSION2 then Some (path_bytes path) else None"
  obtain key ct tag where k: "br_key b = Some key" and ok: "ve_crypter_ok ve key ?iv"
    and enc: "ve_gcm_encrypt ve key ?iv ?aad plaintext = Some (ct, tag)"
    and c: "c = [0, 0, 0, KEY_EPOCH, br_version b] @ ?iv @ ct @ tag"
    using assms(3) by (auto simp: encrypt_def Let_def split: option.splits if_splits)
  have tag: "length tag = 16" and dec: "ve_gcm_decrypt ve key ?iv ?aad ct tag = Some plaintext"
    using assms(1) enc by (auto simp: ext_ok_def)
  have parts: "take (ve_iv_len ve) (drop 5 c) = ?iv" "c ! 4 = br_version b"
    "length c = 5 + ve_iv_len ve + length ct + 16"
    "epoch_mismatch [0, 0, 0, KEY_EPOCH] c = Some False"
    using tag by (auto simp: c)
  obtain h where "c = h @ ct @ tag" "length h = 5 + ve_iv_len ve"
    using c by (intro that [of "[0, 0, 0, KEY_EPOCH, br_version b] @ ?iv"]) simp_all
  then have slices: "take (length c - 16 - (5 + ve_iv_len ve)) (drop (5 + ve_iv_len ve) c) = ct"
    "drop (length c - 16) c = tag"
    using tag by simp_all
  show ?thesis
    unfolding decrypt_def assms(4) k Let_def parts(1,2,4) slices using ok dec assms(2) parts(3) by auto
qed

text \<open>The stored key of the barrier can be read with \<open>kek\<close>, and it is \<open>key\<close>.\<close>

definition opens_with :: "vault_lib \<Rightarrow> bytes \<Rightarrow> bytes \<Rightarrow> barrier \<Rightarrow> bool" where
  "opens_with ve kek key b \<longleftrightarrow>
     (\<exists>c value bi. hm_get (br_backend b) BARRIER_INIT_PATH = Some c \<and>
        (\<forall>b'. br_key b' = Some kek \<longrightarrow> decrypt ve b' BARRIER_INIT_PATH c = Some (Inr value)) \<and>
        ve_init_of_json ve value = Some bi \<and> bi_init_key bi = key)"

lemma opens_with_cong:
  "hm_get (br_backend b) BARRIER_INIT_PATH = hm_get (br_backend b') BARRIER_INIT_PATH \<Longrightarrow>
   opens_with ve kek key b = opens_with ve kek key b'"
  by (simp add: opens_with_def)

lemma opens_with_inited: "opens_with ve kek key b \<Longrightarrow> barrier_inited b"
  by (auto simp: opens_with_def barrier_inited_def)

lemma barrier_unseal_opens:
  assumes "opens_with ve kek key b" "br_sealed b"
  shows "barrier_unseal ve kek b = Some (Inr (), b\<lparr>br_sealed := False, br_key := Some key\<rparr>)"
proof -
  obtain c v bi where *: "hm_get (br_backend b) BARRIER_INIT_PATH = Some c"
    "\<And>b'. br_key b' = Some kek \<Longrightarrow> decrypt ve b' BARRIER_INIT_PATH c = Some (Inr v)"
    "ve_init_of_json ve v = Some bi" "bi_init_key bi = key"
    using assms(1) by (auto simp: opens_with_def)
  show ?thesis using assms(2) by (simp add: barrier_unseal_def init_cipher_def *)
qed

lemma barrier_init_opens:
  assumes "ext_ok ve" "br_version b = AES_GCM_VERSION2"
    and "barrier_init_op ve fill nonce kek b = (Inr (), b')"
  shows "opens_with ve kek (generate_key fill) b'"
    and "br_sealed b' = br_sealed b" "br_version b' = br_version b" "br_key b' = None"
    and "k \<noteq> BARRIER_INIT_PATH \<Longrightarrow> hm_get (br_backend b') k = hm_get (br_backend b) k"
proof -
  let ?json = "ve_init_to_json ve \<lparr>bi_init_version = 1, bi_init_key = generate_key fill\<rparr>"
  obtain c where c: "encrypt ve nonce (init_cipher kek b) BARRIER_INIT_PATH ?json = Inr c"
    and b': "b' = reset_cipher ((init_cipher kek b)\<lparr>br_backend := hm_insert BARRIER_INIT_PATH c (br_backend b)\<rparr>)"
    using assms(3) by (auto simp: barrier_init_op_def Let_def init_cipher_def split: prod.splits sum.splits if_splits)
  have "decrypt ve b'' BARRIER_INIT_PATH c = Some (Inr ?json)" if "br_key b'' = Some kek" for b''
    using that by (intro decrypt_encrypt [OF assms(1) _ c]) (simp_all add: init_cipher_def assms(2))
  then show "opens_with ve kek (generate_key fill) b'"
    using assms(1) by (auto simp: opens_with_def b' reset_cipher_def ext_ok_def)
  show "br_sealed b' = br_sealed b" "br_version b' = br_version b" "br_key b' = None"
    "k \<noteq> BARRIER_INIT_PATH \<Longrightarrow> hm_get (br_backend b') k = hm_get (br_backend b) k"
    by (simp_all add: b' reset_cipher_def init_cipher_def)
qed

section \<open>Properties\<close>

text \<open>
  C28: What is written through the barrier is read back, whatever random nonce the encryption takes, and the other
  entries keep their stored form. The hypotheses are the laws of the cipher and the coder, and that the write was
  accepted.
\<close>

theorem barrier_put_get:
  assumes "ext_ok ve" "br_version b = AES_GCM_VERSION2"
    and "barrier_put ve nonce key value b = (Inr (), b')"
  shows "barrier_get ve key b' = Some (Inr (Some value)) \<and>
    (\<forall>k. k \<noteq> key \<longrightarrow> hm_get (br_backend b') k = hm_get (br_backend b) k)"
proof -
  obtain c where c: "\<not> br_sealed b" "encrypt ve nonce b key value = Inr c"
    "b' = b\<lparr>br_backend := hm_insert key c (br_backend b)\<rparr>"
    using assms(3) by (auto simp: barrier_put_def split: sum.splits if_splits)
  have "decrypt ve b' key c = Some (Inr value)"
    by (rule decrypt_encrypt [OF assms(1) _ c(2)]) (simp_all add: assms(2) c(3))
  then have "barrier_get ve key b' = Some (Inr (Some value))"
    using c by (simp add: barrier_get_def)
  then show ?thesis by (simp add: c(3))
qed

text \<open>A toy cipher and coder that satisfy the laws: the plain text as it is, and a byte-wise coding of lists.\<close>

fun code_bytes :: "bytes \<Rightarrow> bytes" where
  "code_bytes [] = [0]"
| "code_bytes (b # bs) = 1 # b # code_bytes bs"

fun decode_bytes :: "bytes \<Rightarrow> (bytes \<times> bytes) option" where
  "decode_bytes (f # cs) =
     (if f = 0 then Some ([], cs)
      else (case cs of
              [] \<Rightarrow> None
            | b # cs' \<Rightarrow> map_option (\<lambda>(bs, rest). (b # bs, rest)) (decode_bytes cs')))"
| "decode_bytes [] = None"

fun code_list :: "bytes list \<Rightarrow> bytes" where
  "code_list [] = [0]"
| "code_list (x # xs) = 1 # code_bytes x @ code_list xs"

fun decode_list :: "nat \<Rightarrow> bytes \<Rightarrow> bytes list option" where
  "decode_list n [] = None"
| "decode_list 0 (f # cs) = (if f = 0 then Some [] else None)"
| "decode_list (Suc n) (f # cs) =
     (if f = 0 then Some []
      else (case decode_bytes cs of
              None \<Rightarrow> None
            | Some (x, rest) \<Rightarrow> map_option ((#) x) (decode_list n rest)))"

lemma decode_code_bytes: "decode_bytes (code_bytes x @ rest) = Some (x, rest)"
  by (induction x) simp_all

lemma decode_code_list: "length xs \<le> n \<Longrightarrow> decode_list n (code_list xs) = Some xs"
  by (induction n "code_list xs" arbitrary: xs rule: decode_list.induct; case_tac xs)
    (auto simp: decode_code_bytes)

lemma length_code_list: "length xs \<le> length (code_list xs)"
  by (induction xs) simp_all

definition toy_ext :: vault_lib where
  "toy_ext =
     \<lparr>ve_iv_len = 12, ve_crypter_ok = (\<lambda>key iv. length key = 32),
      ve_gcm_encrypt = (\<lambda>key iv aad pt. Some (pt, take 16 (key @ replicate 16 0))),
      ve_gcm_decrypt = (\<lambda>key iv aad ct tag. if tag = take 16 (key @ replicate 16 0) then Some ct else None),
      ve_sha256 = (\<lambda>x. x), ve_blake3 = (\<lambda>x. x),
      ve_init_to_json = (\<lambda>x. code_bytes (replicate (unat (bi_init_version x)) 0) @ bi_init_key x),
      ve_init_of_json =
        (\<lambda>y. map_option (\<lambda>(v, k). \<lparr>bi_init_version = of_nat (length v), bi_init_key = k\<rparr>) (decode_bytes y)),
      ve_config_to_json = (\<lambda>c. [secret_shares c, secret_threshold c]),
      ve_config_of_json =
        (\<lambda>x. if length x = 2 then Some \<lparr>secret_shares = x ! 0, secret_threshold = x ! 1\<rparr> else None),
      ve_set_to_json = code_list, ve_set_of_json = (\<lambda>x. decode_list (length x) x)\<rparr>"

lemma toy_ext_ok: "ext_ok toy_ext"
  by (simp add: ext_ok_def toy_ext_def decode_code_bytes decode_code_list length_code_list min_def)

definition ex_barrier :: barrier where
  "ex_barrier = \<lparr>br_sealed = False, br_key = Some (replicate 32 7), br_version = AES_GCM_VERSION2, br_backend = []\<rparr>"

theorem barrier_put_get_witness:
  "barrier_get toy_ext ''a'' (snd (barrier_put toy_ext (\<lambda>_. 3) ''a'' [1, 2] ex_barrier)) = Some (Inr (Some [1, 2]))"
proof -
  have "barrier_put toy_ext (\<lambda>_. 3) ''a'' [1, 2] ex_barrier =
    (Inr (), snd (barrier_put toy_ext (\<lambda>_. 3) ''a'' [1, 2] ex_barrier))"
    by (simp add: barrier_put_def ex_barrier_def encrypt_def toy_ext_def Let_def)
  then show ?thesis
    using barrier_put_get [OF toy_ext_ok, of ex_barrier "\<lambda>_. 3" "''a''" "[1, 2]"] by (simp add: ex_barrier_def)
qed

end
