(* ===== verification/Vault_Core.thy ===== *)
theory Vault_Core
  imports Vault_Barrier
begin

text \<open>
  The seal state machine of \<open>libvault/src/core.rs\<close>: initialisation, unsealing with key shares (also once only), sealing
  and the generation of new shares. The mount tables and the modules that run after unsealing and before sealing are
  an argument (\<open>vault_hooks\<close>), and so are the random bytes. The lemmas connect the state machine with the
  barrier and with the sharing of the key.
\<close>

section \<open>State\<close>

definition SEAL_CONFIG_PATH :: string where
  "SEAL_CONFIG_PATH = ''core/seal-config''"

definition DEPRECATED_UNSEAL_KEY_SET_PATH :: string where
  "DEPRECATED_UNSEAL_KEY_SET_PATH = ''core/used-unseal-keys-set''"

definition SHAMIR_OVERHEAD :: nat where
  "SHAMIR_OVERHEAD = 1"

definition validate :: "seal_config \<Rightarrow> rv_error + unit" where
  "validate c = (if secret_threshold c > secret_shares c then Inl ErrCoreSealConfigInvalid else Inr ())"

text \<open>\<open>system_view\<close> is the presence of the view of the storage.\<close>

record core_state =
  system_view :: bool
  sealed :: bool
  hmac_key :: bytes
  unseal_key_shares :: "bytes list"
  kek :: bytes

definition core_state_default :: core_state where
  "core_state_default =
     \<lparr>system_view = False, sealed = True, hmac_key = [], unseal_key_shares = [], kek = []\<rparr>"

record vault =
  v_barrier :: barrier
  v_state :: core_state

definition core_new :: "(string, bytes) hashmap \<Rightarrow> vault" where
  "core_new physical = \<lparr>v_barrier = barrier_new physical, v_state = core_state_default\<rparr>"

text \<open>The steps of the modules: after unsealing, the creation of the root token, and before sealing.\<close>

record vault_hooks =
  post_unseal :: "vault \<Rightarrow> (rv_error + unit) \<times> vault"
  root_token :: "vault \<Rightarrow> (rv_error + string) \<times> vault"
  pre_seal :: "vault \<Rightarrow> (rv_error + unit) \<times> vault"

definition physical_put :: "string \<Rightarrow> bytes \<Rightarrow> vault \<Rightarrow> vault" where
  "physical_put key val v =
     v\<lparr>v_barrier := (v_barrier v)\<lparr>br_backend := hm_insert key val (br_backend (v_barrier v))\<rparr>\<rparr>"

definition physical_get :: "string \<Rightarrow> vault \<Rightarrow> bytes option" where
  "physical_get key v = hm_get (br_backend (v_barrier v)) key"

section \<open>Used keys\<close>

definition bhash_contains :: "vault_lib \<Rightarrow> bytes list \<Rightarrow> bytes \<Rightarrow> bool" where
  "bhash_contains ve s key \<longleftrightarrow> ve_blake3 ve key \<in> set s"

definition bhash_insert :: "vault_lib \<Rightarrow> bytes \<Rightarrow> bytes list \<Rightarrow> bytes list" where
  "bhash_insert ve key s = List.insert (ve_blake3 ve key) s"

definition seal_config_of :: "vault_lib \<Rightarrow> vault \<Rightarrow> rv_error + seal_config" where
  "seal_config_of ve v =
     (case physical_get SEAL_CONFIG_PATH v of
        None \<Rightarrow> Inl ErrCoreSealConfigNotFound
      | Some x \<Rightarrow>
          (case ve_config_of_json ve x of
             None \<Rightarrow> Inl SerdeJson
           | Some config \<Rightarrow> (case validate config of Inl e \<Rightarrow> Inl e | Inr _ \<Rightarrow> Inr config)))"

definition deprecated_unseal_keys_set :: "vault_lib \<Rightarrow> vault \<Rightarrow> rv_error + bytes list" where
  "deprecated_unseal_keys_set ve v =
     (case physical_get DEPRECATED_UNSEAL_KEY_SET_PATH v of
        None \<Rightarrow> Inl ErrCoreDeprecatedUnsealKeySetNotFound
      | Some x \<Rightarrow> (case ve_set_of_json ve x of None \<Rightarrow> Inl SerdeJson | Some s \<Rightarrow> Inr s))"

section \<open>Generation of shares\<close>

definition generate_unseal_keys ::
    "vault_lib \<Rightarrow> (nat \<Rightarrow> nat \<Rightarrow> u8) \<Rightarrow> vault \<Rightarrow> rv_error + bytes list" where
  "generate_unseal_keys ve fill_bytes v =
     (if sealed (v_state v) then Inl ErrBarrierSealed
      else if kek (v_state v) = [] then Inl ErrBarrierKeyInvalid
      else
        (case seal_config_of ve v of
           Inl e \<Rightarrow> Inl e
         | Inr config \<Rightarrow> split fill_bytes (kek (v_state v)) (secret_shares config) (secret_threshold config)))"

section \<open>Unsealing\<close>

text \<open>The key that the collected shares give, or \<open>None\<close> when they do not combine.\<close>

definition collected_kek :: "seal_config \<Rightarrow> bytes list \<Rightarrow> bytes option" where
  "collected_kek config shares =
     (if secret_threshold config = 1 then Some (shares ! 0) else combine shares)"

definition unsealed_state :: "bytes \<Rightarrow> bytes \<Rightarrow> core_state \<Rightarrow> core_state" where
  "unsealed_state hmac key s =
     s\<lparr>unseal_key_shares := [], hmac_key := hmac, system_view := True, sealed := False, kek := key\<rparr>"

definition sealed_state :: "core_state \<Rightarrow> core_state" where
  "sealed_state s =
     s\<lparr>unseal_key_shares := [], kek := [], hmac_key := [], system_view := False, sealed := True\<rparr>"

text \<open>The part of \<open>do_unseal\<close> after the barrier is open.\<close>

definition finish_unseal ::
    "vault_lib \<Rightarrow> vault_hooks \<Rightarrow> bool \<Rightarrow> rv_error + bytes list \<Rightarrow> bytes list \<Rightarrow> bytes \<Rightarrow> vault
       \<Rightarrow> (rv_error + bool) \<times> vault" where
  "finish_unseal ve hk once deprecated shares key v =
     (case derive_hmac_key ve (v_barrier v) of
        Inl e \<Rightarrow> (Inl e, v)
      | Inr hmac \<Rightarrow>
          (let v1 = v\<lparr>v_state := unsealed_state hmac key (v_state v)\<rparr>
           in case post_unseal hk v1 of
                (Inl e, v2) \<Rightarrow> (Inl e, v2\<lparr>v_state := sealed_state (v_state v2)\<rparr>)
              | (Inr _, v2) \<Rightarrow>
                  (case (once, deprecated) of
                     (True, Inr s) \<Rightarrow>
                       (Inr True, physical_put DEPRECATED_UNSEAL_KEY_SET_PATH
                          (ve_set_to_json ve (fold (bhash_insert ve) shares s)) v2)
                   | _ \<Rightarrow> (Inr True, v2))))"

text \<open>\<open>None\<close> is a panic while reading the stored key.\<close>

definition do_unseal ::
    "vault_lib \<Rightarrow> vault_hooks \<Rightarrow> bytes \<Rightarrow> bool \<Rightarrow> vault \<Rightarrow> ((rv_error + bool) \<times> vault) option" where
  "do_unseal ve hk key once v =
     (if \<not> barrier_inited (v_barrier v) then Some (Inl ErrBarrierNotInit, v)
      else if \<not> br_sealed (v_barrier v) then Some (Inl ErrBarrierUnsealed, v)
      else if length key < fst key_length_range \<or> length key > snd key_length_range + SHAMIR_OVERHEAD
      then Some (Inl ErrBarrierKeyInvalid, v)
      else
        (case seal_config_of ve v of
           Inl e \<Rightarrow> Some (Inl e, v)
         | Inr config \<Rightarrow>
             (let state = v_state v;
                  deprecated = deprecated_unseal_keys_set ve v
              in if key \<in> set (unseal_key_shares state) then Some (Inr False, v)
                 else if (case deprecated of Inr s \<Rightarrow> bhash_contains ve s key | Inl _ \<Rightarrow> False)
                 then Some (Inl ErrBarrierKeyDeprecated, v)
                 else
                   (let shares = unseal_key_shares state @ [key];
                        cleared = v\<lparr>v_state := state\<lparr>unseal_key_shares := []\<rparr>\<rparr>
                    in if length shares < unat (secret_threshold config)
                       then Some (Inr False, v\<lparr>v_state := state\<lparr>unseal_key_shares := shares\<rparr>\<rparr>)
                       else
                         (case collected_kek config shares of
                            None \<Rightarrow> Some (Inl ErrBarrierKeyInvalid, cleared)
                          | Some k \<Rightarrow>
                              (case barrier_unseal ve k (v_barrier v) of
                                 None \<Rightarrow> None
                               | Some (Inl e, b) \<Rightarrow> Some (Inl e, cleared\<lparr>v_barrier := b\<rparr>)
                               | Some (Inr _, b) \<Rightarrow>
                                   Some (finish_unseal ve hk once deprecated shares k
                                     (v\<lparr>v_barrier := b\<rparr>))))))))"

definition unseal ::
    "vault_lib \<Rightarrow> vault_hooks \<Rightarrow> bytes \<Rightarrow> vault \<Rightarrow> ((rv_error + bool) \<times> vault) option" where
  "unseal ve hk key v = do_unseal ve hk key False v"

definition unseal_once ::
    "vault_lib \<Rightarrow> vault_hooks \<Rightarrow> (nat \<Rightarrow> nat \<Rightarrow> u8) \<Rightarrow> bytes \<Rightarrow> vault
       \<Rightarrow> ((rv_error + bytes list) \<times> vault) option" where
  "unseal_once ve hk fill_bytes key v =
     (case do_unseal ve hk key True v of
        None \<Rightarrow> None
      | Some (Inl e, v1) \<Rightarrow> Some (Inl e, v1)
      | Some (Inr True, v1) \<Rightarrow> Some (generate_unseal_keys ve fill_bytes v1, v1)
      | Some (Inr False, v1) \<Rightarrow> Some (Inl ErrBarrierUnsealing, v1))"

section \<open>Sealing\<close>

definition seal :: "vault_hooks \<Rightarrow> vault \<Rightarrow> (rv_error + unit) \<times> vault" where
  "seal hk v =
     (if \<not> barrier_inited (v_barrier v) then (Inl ErrBarrierNotInit, v)
      else if br_sealed (v_barrier v) then (Inl ErrBarrierSealed, v)
      else
        (case pre_seal hk v of
           (Inl e, v1) \<Rightarrow> (Inl e, v1)
         | (Inr _, v1) \<Rightarrow>
             (Inr (), v1\<lparr>v_state := sealed_state (v_state v1), v_barrier := barrier_seal (v_barrier v1)\<rparr>)))"

section \<open>Initialisation\<close>

record init_random =
  ir_kek :: "nat \<Rightarrow> u8"
  ir_key :: "nat \<Rightarrow> u8"
  ir_nonce :: "nat \<Rightarrow> u8"
  ir_fill :: "nat \<Rightarrow> nat \<Rightarrow> u8"

text \<open>The deferred block: the barrier is sealed and the earlier state is put back.\<close>

definition reseal :: "core_state \<Rightarrow> vault \<Rightarrow> vault" where
  "reseal state_old v = v\<lparr>v_barrier := barrier_seal (v_barrier v), v_state := state_old\<rparr>"

text \<open>The part of \<open>init\<close> after the deferred block is in place; its result is resealed on every path.\<close>

definition setup_modules :: "vault_hooks \<Rightarrow> vault \<Rightarrow> (rv_error + string) \<times> vault" where
  "setup_modules hk v =
     (case post_unseal hk v of
        (Inl e, v1) \<Rightarrow> (Inl e, v1)
      | (Inr _, v1) \<Rightarrow>
          (case root_token hk v1 of
             (Inl e, v2) \<Rightarrow> (Inl e, v2)
           | (Inr token, v2) \<Rightarrow>
               (case pre_seal hk v2 of (Inl e, v3) \<Rightarrow> (Inl e, v3) | (Inr _, v3) \<Rightarrow> (Inr token, v3))))"

definition init ::
    "vault_lib \<Rightarrow> vault_hooks \<Rightarrow> init_random \<Rightarrow> seal_config \<Rightarrow> vault
       \<Rightarrow> ((rv_error + bytes list \<times> string) \<times> vault) option" where
  "init ve hk rnd config v =
     (if barrier_inited (v_barrier v) then Some (Inl ErrBarrierAlreadyInit, v)
      else
        (case validate config of
           Inl e \<Rightarrow> Some (Inl e, v)
         | Inr _ \<Rightarrow>
             (let v1 = physical_put SEAL_CONFIG_PATH (ve_config_to_json ve config) v;
                  v2 = physical_put DEPRECATED_UNSEAL_KEY_SET_PATH (ve_set_to_json ve []) v1;
                  k = generate_key (ir_kek rnd)
              in case barrier_init_op ve (ir_key rnd) (ir_nonce rnd) k (v_barrier v2) of
                   (Inl e, b) \<Rightarrow> Some (Inl e, v2\<lparr>v_barrier := b\<rparr>)
                 | (Inr _, b) \<Rightarrow>
                     (case barrier_unseal ve k b of
                        None \<Rightarrow> None
                      | Some (Inl e, b1) \<Rightarrow> Some (Inl e, v2\<lparr>v_barrier := b1\<rparr>)
                      | Some (Inr _, b1) \<Rightarrow>
                          (let v3 = v2\<lparr>v_barrier := b1\<rparr>;
                               state_old = v_state v3
                           in case derive_hmac_key ve b1 of
                                Inl e \<Rightarrow> Some (Inl e, v3)
                              | Inr hmac \<Rightarrow>
                                  (let v4 = v3\<lparr>v_state := state_old\<lparr>hmac_key := hmac, system_view := True,
                                              sealed := False, kek := k\<rparr>\<rparr>
                                   in case (if secret_shares config = 1 then Inr [k]
                                            else generate_unseal_keys ve (ir_fill rnd) v4) of
                                        Inl e \<Rightarrow> Some (Inl e, v4)
                                      | Inr shares \<Rightarrow>
                                          (case setup_modules hk v4 of
                                             (Inl e, v5) \<Rightarrow> Some (Inl e, reseal state_old v5)
                                           | (Inr token, v5) \<Rightarrow>
                                               Some (Inr (shares, token), reseal state_old v5))))))))"

section \<open>What the modules keep\<close>

text \<open>
  The modules keep the seal state, the key of the barrier and the three entries of the core; \<open>hooks_ok\<close> says that
  they also succeed.
\<close>

definition core_frame :: "vault \<Rightarrow> vault \<Rightarrow> bool" where
  "core_frame v v' \<longleftrightarrow>
     v_state v' = v_state v \<and> br_sealed (v_barrier v') = br_sealed (v_barrier v) \<and>
     br_key (v_barrier v') = br_key (v_barrier v) \<and>
     physical_get BARRIER_INIT_PATH v' = physical_get BARRIER_INIT_PATH v \<and>
     physical_get SEAL_CONFIG_PATH v' = physical_get SEAL_CONFIG_PATH v \<and>
     physical_get DEPRECATED_UNSEAL_KEY_SET_PATH v' = physical_get DEPRECATED_UNSEAL_KEY_SET_PATH v"

definition hooks_ok :: "vault_hooks \<Rightarrow> bool" where
  "hooks_ok hk \<longleftrightarrow>
     (\<forall>v. \<exists>v'. post_unseal hk v = (Inr (), v') \<and> core_frame v v') \<and>
     (\<forall>v. \<exists>t v'. root_token hk v = (Inr t, v') \<and> core_frame v v') \<and>
     (\<forall>v. \<exists>v'. pre_seal hk v = (Inr (), v') \<and> core_frame v v')"

text \<open>The cipher takes every key of thirty-two bytes.\<close>

definition cipher_total :: "vault_lib \<Rightarrow> bool" where
  "cipher_total ve \<longleftrightarrow>
     (\<forall>key iv aad pt. length key = 32 \<longrightarrow> ve_crypter_ok ve key iv \<and> ve_gcm_encrypt ve key iv aad pt \<noteq> None)"

lemma core_frame_trans: "core_frame v v' \<Longrightarrow> core_frame v' v'' \<Longrightarrow> core_frame v v''"
  by (simp add: core_frame_def)

lemma setup_modules_ok:
  assumes "hooks_ok hk"
  shows "\<exists>token v'. setup_modules hk v = (Inr token, v') \<and> core_frame v v'"
proof -
  obtain v1 where 1: "post_unseal hk v = (Inr (), v1)" "core_frame v v1" using assms unfolding hooks_ok_def by meson
  obtain t v2 where 2: "root_token hk v1 = (Inr t, v2)" "core_frame v1 v2" using assms unfolding hooks_ok_def by meson
  obtain v3 where 3: "pre_seal hk v2 = (Inr (), v3)" "core_frame v2 v3" using assms unfolding hooks_ok_def by meson
  have "core_frame v v3" using 1 2 3 core_frame_trans by blast
  then show ?thesis using 1 2 3 by (simp add: setup_modules_def)
qed

lemma physical_get_put [simp]:
  "physical_get k (physical_put k' x v) = (if k = k' then Some x else physical_get k v)"
  by (simp add: physical_get_def physical_put_def)

lemma physical_put_simps [simp]:
  "v_state (physical_put k x v) = v_state v" "br_sealed (v_barrier (physical_put k x v)) = br_sealed (v_barrier v)"
  "br_key (v_barrier (physical_put k x v)) = br_key (v_barrier v)"
  "br_version (v_barrier (physical_put k x v)) = br_version (v_barrier v)"
  by (simp_all add: physical_put_def)

lemma paths_differ [simp]:
  "SEAL_CONFIG_PATH \<noteq> DEPRECATED_UNSEAL_KEY_SET_PATH" "DEPRECATED_UNSEAL_KEY_SET_PATH \<noteq> SEAL_CONFIG_PATH"
  "SEAL_CONFIG_PATH \<noteq> BARRIER_INIT_PATH" "BARRIER_INIT_PATH \<noteq> SEAL_CONFIG_PATH"
  "DEPRECATED_UNSEAL_KEY_SET_PATH \<noteq> BARRIER_INIT_PATH" "BARRIER_INIT_PATH \<noteq> DEPRECATED_UNSEAL_KEY_SET_PATH"
  by (simp_all add: SEAL_CONFIG_PATH_def DEPRECATED_UNSEAL_KEY_SET_PATH_def BARRIER_INIT_PATH_def)

lemma barrier_init_total:
  assumes "cipher_total ve" "length k = 32" "\<not> barrier_inited b"
  shows "\<exists>b'. barrier_init_op ve fill nonce k b = (Inr (), b')"
proof -
  let ?x = "ve_gcm_encrypt ve k (map nonce [0..<ve_iv_len ve])
      (if br_version b = AES_GCM_VERSION2 then Some (path_bytes BARRIER_INIT_PATH) else None)
      (ve_init_to_json ve \<lparr>bi_init_version = 1, bi_init_key = generate_key fill\<rparr>)"
  have "?x \<noteq> None" using assms(1,2) by (simp add: cipher_total_def)
  then obtain p where "?x = Some p" by blast
  then obtain ct tag where "?x = Some (ct, tag)" by (cases p) simp
  moreover have "ve_crypter_ok ve k (map nonce [0..<ve_iv_len ve])"
    using assms(1,2) by (simp add: cipher_total_def)
  ultimately show ?thesis
    using assms(2,3)
    by (simp add: barrier_init_op_def key_length_range_def AES_BLOCK_SIZE_def Let_def encrypt_def init_cipher_def)
qed

section \<open>Collecting shares\<close>

text \<open>A sealed vault that \<open>K\<close> opens, with its configuration and a set of used keys.\<close>

definition ready :: "vault_lib \<Rightarrow> seal_config \<Rightarrow> bytes list \<Rightarrow> bytes \<Rightarrow> bytes \<Rightarrow> vault \<Rightarrow> bool" where
  "ready ve config used K key v \<longleftrightarrow>
     opens_with ve K key (v_barrier v) \<and> br_sealed (v_barrier v) \<and> seal_config_of ve v = Inr config \<and>
     deprecated_unseal_keys_set ve v = Inr used"

lemma ready_state [simp]: "ready ve config used K key (v\<lparr>v_state := s\<rparr>) = ready ve config used K key v"
  by (simp add: ready_def seal_config_of_def deprecated_unseal_keys_set_def physical_get_def)

definition share_length_ok :: "bytes \<Rightarrow> bool" where
  "share_length_ok key \<longleftrightarrow> 16 \<le> length key \<and> length key \<le> 33"

lemma do_unseal_ready:
  assumes "ready ve config used K key v" "share_length_ok x" "x \<notin> set (unseal_key_shares (v_state v))"
    and "\<not> bhash_contains ve used x"
  shows "do_unseal ve hk x once v =
    (let shares = unseal_key_shares (v_state v) @ [x] in
     if length shares < unat (secret_threshold config)
     then Some (Inr False, v\<lparr>v_state := (v_state v)\<lparr>unseal_key_shares := shares\<rparr>\<rparr>)
     else
       case collected_kek config shares of
         None \<Rightarrow> Some (Inl ErrBarrierKeyInvalid, v\<lparr>v_state := (v_state v)\<lparr>unseal_key_shares := []\<rparr>\<rparr>)
       | Some k \<Rightarrow>
           (case barrier_unseal ve k (v_barrier v) of
              None \<Rightarrow> None
            | Some (Inl e, b) \<Rightarrow>
                Some (Inl e, v\<lparr>v_state := (v_state v)\<lparr>unseal_key_shares := []\<rparr>, v_barrier := b\<rparr>)
            | Some (Inr _, b) \<Rightarrow> Some (finish_unseal ve hk once (Inr used) shares k (v\<lparr>v_barrier := b\<rparr>))))"
  using assms
  by (auto simp: ready_def do_unseal_def Let_def opens_with_inited key_length_range_def AES_BLOCK_SIZE_def
      SHAMIR_OVERHEAD_def share_length_ok_def split: option.split)

fun unseal_all ::
    "vault_lib \<Rightarrow> vault_hooks \<Rightarrow> bytes list \<Rightarrow> vault \<Rightarrow> ((rv_error + bool) list \<times> vault) option" where
  "unseal_all ve hk [] v = Some ([], v)"
| "unseal_all ve hk (x # xs) v =
     (case unseal ve hk x v of
        None \<Rightarrow> None
      | Some (r, v1) \<Rightarrow> map_option (\<lambda>(rs, v2). (r # rs, v2)) (unseal_all ve hk xs v1))"

lemma collect_shares:
  assumes "ready ve config [] K key v" "unseal_key_shares (v_state v) = seen"
    and "distinct (seen @ xs)" "list_all share_length_ok xs"
    and "length (seen @ xs) < unat (secret_threshold config)"
  shows "unseal_all ve hk xs v =
    Some (replicate (length xs) (Inr False), v\<lparr>v_state := (v_state v)\<lparr>unseal_key_shares := seen @ xs\<rparr>\<rparr>)"
  using assms
proof (induction xs arbitrary: v seen)
  case (Cons x xs)
  let ?v = "v\<lparr>v_state := (v_state v)\<lparr>unseal_key_shares := seen @ [x]\<rparr>\<rparr>"
  have "unseal ve hk x v = Some (Inr False, ?v)"
    unfolding unseal_def
    by (subst do_unseal_ready [OF Cons.prems(1)]) (use Cons.prems in \<open>auto simp: bhash_contains_def\<close>)
  moreover have "unseal_all ve hk xs ?v = Some (replicate (length xs) (Inr False),
      ?v\<lparr>v_state := (v_state ?v)\<lparr>unseal_key_shares := (seen @ [x]) @ xs\<rparr>\<rparr>)"
    by (rule Cons.IH) (use Cons.prems in auto)
  ultimately show ?case by simp
qed simp

lemma unseal_all_append:
  "unseal_all ve hk (xs @ ys) v =
     (case unseal_all ve hk xs v of
        None \<Rightarrow> None
      | Some (rs, v1) \<Rightarrow> map_option (\<lambda>(rs', v2). (rs @ rs', v2)) (unseal_all ve hk ys v1))"
  by (induction xs arbitrary: v)
    (auto simp: option.map_comp option.map_ident comp_def case_prod_unfold split: option.splits)

text \<open>The last share opens the vault.\<close>

lemma last_share_opens:
  assumes "ready ve config used K key v" "share_length_ok x" "x \<notin> set (unseal_key_shares (v_state v))"
    and "\<not> bhash_contains ve used x" "hooks_ok hk"
    and "unat (secret_threshold config) \<le> length (unseal_key_shares (v_state v)) + 1"
    and "collected_kek config (unseal_key_shares (v_state v) @ [x]) = Some K"
  shows "\<exists>v'. do_unseal ve hk x once v = Some (Inr True, v') \<and> \<not> sealed (v_state v') \<and>
    \<not> br_sealed (v_barrier v') \<and> br_key (v_barrier v') = Some key \<and> kek (v_state v') = K \<and>
    seal_config_of ve v' = Inr config"
proof -
  let ?v = "v\<lparr>v_barrier := (v_barrier v)\<lparr>br_sealed := False, br_key := Some key\<rparr>\<rparr>"
  let ?v1 = "?v\<lparr>v_state := unsealed_state (ve_sha256 ve key) K (v_state v)\<rparr>"
  have open_b: "barrier_unseal ve K (v_barrier v) = Some (Inr (), (v_barrier v)\<lparr>br_sealed := False, br_key := Some key\<rparr>)"
    using assms(1) by (auto simp: ready_def intro: barrier_unseal_opens)
  obtain v2 where v2: "post_unseal hk ?v1 = (Inr (), v2)" "core_frame ?v1 v2"
    using assms(5) unfolding hooks_ok_def by meson
  define v3 where "v3 = (if once then physical_put DEPRECATED_UNSEAL_KEY_SET_PATH
      (ve_set_to_json ve (fold (bhash_insert ve) (unseal_key_shares (v_state v) @ [x]) used)) v2 else v2)"
  have "do_unseal ve hk x once v = Some (Inr True, v3)"
    by (subst do_unseal_ready [OF assms(1-4)])
      (use assms(6,7) open_b v2(1) in
        \<open>simp add: Let_def finish_unseal_def derive_hmac_key_def v3_def split: bool.split\<close>)
  moreover have "seal_config_of ve v3 = seal_config_of ve v"
    using v2(2) by (simp add: v3_def seal_config_of_def core_frame_def physical_get_def [of _ "?v1"] physical_get_def [of _ v])
  ultimately show ?thesis
    using v2(2) assms(1) by (auto simp: v3_def core_frame_def unsealed_state_def ready_def)
qed

section \<open>Initialisation\<close>

lemma length_generate_key [simp]: "length (generate_key fill) = 32"
  by (simp add: generate_key_def AES_BLOCK_SIZE_def)

lemma generate_key_nonempty [simp]: "generate_key fill \<noteq> []"
  by (metis length_generate_key list.size(3) zero_neq_numeral)

text \<open>
  \<open>init\<close> up to the generation of the shares: the vault is open, the stored key opens with the generated one, and
  the configuration is written.
\<close>

definition opened :: "vault_lib \<Rightarrow> init_random \<Rightarrow> seal_config \<Rightarrow> vault \<Rightarrow> bool" where
  "opened ve rnd config v \<longleftrightarrow>
     opens_with ve (generate_key (ir_kek rnd)) (generate_key (ir_key rnd)) (v_barrier v) \<and>
     \<not> br_sealed (v_barrier v) \<and> \<not> sealed (v_state v) \<and> kek (v_state v) = generate_key (ir_kek rnd) \<and>
     seal_config_of ve v = Inr config \<and> deprecated_unseal_keys_set ve v = Inr []"

lemma init_opens:
  assumes "ext_ok ve" "cipher_total ve" "secret_threshold config \<le> secret_shares config"
    and "hm_get physical BARRIER_INIT_PATH = None"
  shows "\<exists>v. opened ve rnd config v \<and>
    init ve hk rnd config (core_new physical) =
      (case (if secret_shares config = 1 then Inr [generate_key (ir_kek rnd)]
             else generate_unseal_keys ve (ir_fill rnd) v) of
         Inl e \<Rightarrow> Some (Inl e, v)
       | Inr shares \<Rightarrow>
           (case setup_modules hk v of
              (Inl e, v5) \<Rightarrow> Some (Inl e, reseal core_state_default v5)
            | (Inr token, v5) \<Rightarrow> Some (Inr (shares, token), reseal core_state_default v5)))"
proof -
  let ?k = "generate_key (ir_kek rnd)" and ?key = "generate_key (ir_key rnd)"
  let ?v0 = "core_new physical"
  define v2 where "v2 = physical_put DEPRECATED_UNSEAL_KEY_SET_PATH (ve_set_to_json ve [])
    (physical_put SEAL_CONFIG_PATH (ve_config_to_json ve config) ?v0)"
  have fresh: "\<not> barrier_inited (v_barrier ?v0)"
    using assms(4) by (simp add: barrier_inited_def core_new_def barrier_new_def)
  have "physical_get BARRIER_INIT_PATH v2 = None"
    using assms(4) by (simp add: v2_def physical_get_def physical_put_def core_new_def barrier_new_def)
  then have "\<not> barrier_inited (v_barrier v2)" by (simp add: barrier_inited_def physical_get_def)
  then obtain b where b: "barrier_init_op ve (ir_key rnd) (ir_nonce rnd) ?k (v_barrier v2) = (Inr (), b)"
    using barrier_init_total [OF assms(2)] by (metis length_generate_key)
  have ver: "br_version (v_barrier v2) = AES_GCM_VERSION2" "br_sealed (v_barrier v2)"
    and state: "v_state v2 = core_state_default"
    by (simp_all add: v2_def core_new_def barrier_new_def)
  note init_b = barrier_init_opens [OF assms(1) ver(1) b]
  let ?b1 = "b\<lparr>br_sealed := False, br_key := Some ?key\<rparr>"
  have b1: "barrier_unseal ve ?k b = Some (Inr (), ?b1)"
    using barrier_unseal_opens [OF init_b(1)] init_b(2) ver(2) by simp
  define v where "v = v2\<lparr>v_barrier := ?b1,
    v_state := core_state_default\<lparr>hmac_key := ve_sha256 ve ?key, system_view := True, sealed := False, kek := ?k\<rparr>\<rparr>"
  have get: "physical_get p v = physical_get p v2" if "p \<noteq> BARRIER_INIT_PATH" for p
    using init_b(5) [OF that] by (simp add: physical_get_def v_def)
  have "validate config = Inr ()" using assms(3) by (simp add: validate_def)
  then have "seal_config_of ve v = Inr config" "deprecated_unseal_keys_set ve v = Inr []"
    using assms(1) by (simp_all add: seal_config_of_def deprecated_unseal_keys_set_def get v2_def ext_ok_def)
  moreover have "opens_with ve ?k ?key (v_barrier v)"
    using init_b(1) by (simp add: v_def opens_with_def)
  ultimately have "opened ve rnd config v" by (simp add: opened_def v_def)
  moreover have "init ve hk rnd config ?v0 =
      (case (if secret_shares config = 1 then Inr [?k] else generate_unseal_keys ve (ir_fill rnd) v) of
         Inl e \<Rightarrow> Some (Inl e, v)
       | Inr shares \<Rightarrow>
           (case setup_modules hk v of
              (Inl e, v5) \<Rightarrow> Some (Inl e, reseal core_state_default v5)
            | (Inr token, v5) \<Rightarrow> Some (Inr (shares, token), reseal core_state_default v5)))"
    unfolding init_def Let_def v2_def [symmetric]
    using fresh \<open>validate config = Inr ()\<close>
    by (simp add: b b1 derive_hmac_key_def v_def state split: sum.split prod.split)
  ultimately show ?thesis by blast
qed

lemma reseal_ready:
  assumes "opened ve rnd config v" "core_frame v v'"
  shows "ready ve config [] (generate_key (ir_kek rnd)) (generate_key (ir_key rnd)) (reseal s v')"
proof -
  have get: "physical_get p (reseal s v') = physical_get p v"
    if "p \<in> {BARRIER_INIT_PATH, SEAL_CONFIG_PATH, DEPRECATED_UNSEAL_KEY_SET_PATH}" for p
    using assms(2) that
    by (auto simp: core_frame_def physical_get_def reseal_def barrier_seal_def reset_cipher_def)
  have "opens_with ve (generate_key (ir_kek rnd)) (generate_key (ir_key rnd)) (v_barrier (reseal s v'))"
    using assms(1) get [of BARRIER_INIT_PATH]
    by (subst opens_with_cong [of _ "v_barrier v"]) (simp_all add: opened_def physical_get_def)
  moreover have "seal_config_of ve (reseal s v') = Inr config"
    "deprecated_unseal_keys_set ve (reseal s v') = Inr []"
    using assms(1) by (simp_all add: opened_def seal_config_of_def deprecated_unseal_keys_set_def get)
  ultimately show ?thesis by (simp add: ready_def reseal_def barrier_seal_def)
qed

lemma split_total:
  assumes "2 \<le> t" "t \<le> n" "n \<noteq> (255 :: u8)"
  shows "\<exists>shares. split fill_bytes secret n t = Inr shares \<and> length shares = unat n \<and> distinct shares \<and>
    (\<forall>s\<in>set shares. length s = length secret + 1)"
proof -
  have "- 1 = (255 :: u8)" by simp
  then have "1 + n \<noteq> 0" using assms(3) by (metis add.commute eq_neg_iff_add_eq_0)
  then have n: "unat (n + 1) = Suc (unat n)" by (simp add: unatSuc add.commute [of n])
  have "unat n < 256" by (rule order_less_le_trans [OF unsigned_less]) simp
  then have "inj_on (of_nat :: nat \<Rightarrow> u8) {1..<Suc (unat n)}"
    by (auto simp: inj_on_def word_unat_eq_iff unat_of_nat)
  then have "inj_on (\<lambda>i. share_of coefs (of_nat i)) {1..<Suc (unat n)}" for coefs
    by (metis (mono_tags, lifting) inj_on_def share_of_simps(1))
  then show ?thesis
    using assms by (auto simp: split_eq n coefficients_with_secret distinct_map comp_def simp del: upt_Suc)
qed

section \<open>Properties\<close>

text \<open>
  C5: Initialising a fresh vault with \<open>n\<close> shares and threshold \<open>t\<close> succeeds, hands out \<open>n\<close> shares and leaves the vault
  sealed; afterwards any \<open>t\<close> different shares, given one after the other in any order, open it: the first \<open>t - 1\<close> are
  answered with \<open>false\<close>, the last one with \<open>true\<close>, and the barrier holds the key that initialisation generated. The
  hypotheses are the laws of the cipher and of the JSON coder, and that the modules succeed and keep the entries of
  the core.
\<close>

theorem vault_init_unseal:
  assumes "ext_ok ve" "cipher_total ve" "hooks_ok hk"
    and "2 \<le> t" "t \<le> n" "n \<noteq> 255" "hm_get physical BARRIER_INIT_PATH = None"
  shows "\<exists>shares token v1.
    init ve hk rnd \<lparr>secret_shares = n, secret_threshold = t\<rparr> (core_new physical) = Some (Inr (shares, token), v1) \<and>
    length shares = unat n \<and> distinct shares \<and> sealed (v_state v1) \<and> br_sealed (v_barrier v1) \<and>
    (\<forall>chosen. distinct chosen \<and> set chosen \<subseteq> set shares \<and> length chosen = unat t \<longrightarrow>
      (\<exists>v2. unseal_all ve hk chosen v1 = Some (replicate (unat t - 1) (Inr False) @ [Inr True], v2) \<and>
        \<not> sealed (v_state v2) \<and> br_key (v_barrier v2) = Some (generate_key (ir_key rnd))))"
proof -
  let ?c = "\<lparr>secret_shares = n, secret_threshold = t\<rparr>" and ?K = "generate_key (ir_kek rnd)"
  have t2: "2 \<le> unat t" using assms(4) by (simp add: word_le_nat_alt)
  have n1: "n \<noteq> 1" "t \<noteq> 1" using assms(4,5) by (auto simp: word_le_nat_alt)
  obtain v where v: "opened ve rnd ?c v"
    "init ve hk rnd ?c (core_new physical) =
      (case (if secret_shares ?c = 1 then Inr [?K] else generate_unseal_keys ve (ir_fill rnd) v) of
         Inl e \<Rightarrow> Some (Inl e, v)
       | Inr shares \<Rightarrow>
           (case setup_modules hk v of
              (Inl e, v5) \<Rightarrow> Some (Inl e, reseal core_state_default v5)
            | (Inr token, v5) \<Rightarrow> Some (Inr (shares, token), reseal core_state_default v5)))"
    using init_opens [OF assms(1,2) _ assms(7), of ?c rnd hk] assms(5) by auto
  obtain shares where shares: "split (ir_fill rnd) ?K n t = Inr shares" "length shares = unat n"
    "\<forall>s\<in>set shares. length s = 33" "distinct shares"
    using split_total [OF assms(4,5,6), of "ir_fill rnd" ?K] by auto
  have gen: "generate_unseal_keys ve (ir_fill rnd) v = Inr shares"
    using v(1) shares(1) by (simp add: generate_unseal_keys_def opened_def)
  obtain token v5 where v5: "setup_modules hk v = (Inr token, v5)" "core_frame v v5"
    using setup_modules_ok [OF assms(3)] by blast
  define v1 where "v1 = reseal core_state_default v5"
  have init: "init ve hk rnd ?c (core_new physical) = Some (Inr (shares, token), v1)"
    using v(2) n1(1) v5(1) gen by (simp add: v1_def)
  have ready: "ready ve ?c [] ?K (generate_key (ir_key rnd)) v1"
    unfolding v1_def by (rule reseal_ready [OF v(1) v5(2)])
  have st: "v_state v1 = core_state_default" by (simp add: v1_def reseal_def)
  have "\<exists>v2. unseal_all ve hk chosen v1 = Some (replicate (unat t - 1) (Inr False) @ [Inr True], v2) \<and>
      \<not> sealed (v_state v2) \<and> br_key (v_barrier v2) = Some (generate_key (ir_key rnd))"
    if chosen: "distinct chosen" "set chosen \<subseteq> set shares" "length chosen = unat t" for chosen
  proof -
    obtain xs x where c: "chosen = xs @ [x]" using chosen(3) t2 by (cases chosen rule: rev_cases) auto
    have len: "list_all share_length_ok chosen"
      using chosen(2) shares(3) by (auto simp: list_all_iff share_length_ok_def)
    let ?v = "v1\<lparr>v_state := core_state_default\<lparr>unseal_key_shares := xs\<rparr>\<rparr>"
    have "unseal_all ve hk xs v1 = Some (replicate (length xs) (Inr False), ?v)"
      using collect_shares [OF ready, of "[]" xs hk] chosen len by (simp add: c st core_state_default_def)
    moreover have "collected_kek ?c (xs @ [x]) = Some ?K"
      using split_recovers [OF shares(1) chosen(2,1)] chosen(3) n1(2) by (simp add: collected_kek_def c)
    then obtain v2 where "do_unseal ve hk x False ?v = Some (Inr True, v2)" "\<not> sealed (v_state v2)"
      "br_key (v_barrier v2) = Some (generate_key (ir_key rnd))"
      using last_share_opens [of ve ?c "[]" ?K "generate_key (ir_key rnd)" ?v x hk False] ready len chosen assms(3)
      by (auto simp: c bhash_contains_def)
    moreover have "length xs = unat t - 1" using chosen(3) by (simp add: c)
    ultimately show ?thesis by (simp add: c unseal_all_append unseal_def)
  qed
  then show ?thesis using init shares(2,4) ready st by (auto simp: ready_def core_state_default_def)
qed

definition toy_hooks :: vault_hooks where
  "toy_hooks =
     \<lparr>post_unseal = (\<lambda>v. (Inr (), v)), root_token = (\<lambda>v. (Inr ''root'', v)), pre_seal = (\<lambda>v. (Inr (), v))\<rparr>"

definition toy_random :: init_random where
  "toy_random = \<lparr>ir_kek = of_nat, ir_key = (\<lambda>i. 9), ir_nonce = (\<lambda>i. 1), ir_fill = (\<lambda>k n. of_nat (k + n))\<rparr>"

lemma toy_ok: "cipher_total toy_ext" "hooks_ok toy_hooks"
  by (simp_all add: cipher_total_def toy_ext_def hooks_ok_def toy_hooks_def core_frame_def)

theorem vault_init_unseal_witness:
  "\<exists>shares token v1 v2.
     init toy_ext toy_hooks toy_random \<lparr>secret_shares = 3, secret_threshold = 2\<rparr> (core_new []) =
       Some (Inr (shares, token), v1) \<and> length shares = 3 \<and>
     unseal_all toy_ext toy_hooks (take 2 shares) v1 = Some ([Inr False, Inr True], v2) \<and>
     \<not> sealed (v_state v2)"
proof -
  obtain shares token v1 where
    i: "init toy_ext toy_hooks toy_random \<lparr>secret_shares = 3, secret_threshold = 2\<rparr> (core_new []) =
       Some (Inr (shares, token), v1)" and l: "length shares = 3" "distinct shares"
    and u: "\<forall>chosen. distinct chosen \<and> set chosen \<subseteq> set shares \<and> length chosen = 2 \<longrightarrow>
      (\<exists>v2. unseal_all toy_ext toy_hooks chosen v1 = Some ([Inr False, Inr True], v2) \<and>
        \<not> sealed (v_state v2) \<and> br_key (v_barrier v2) = Some (generate_key (ir_key toy_random)))"
    using vault_init_unseal [OF toy_ext_ok toy_ok, of 2 3 "[]" toy_random] by auto
  have "distinct (take 2 shares)" "set (take 2 shares) \<subseteq> set shares" "length (take 2 shares) = 2"
    using l by (simp_all add: set_take_subset)
  then show ?thesis using i l(1) u by blast
qed

lemma barrier_unseal_backend:
  "barrier_unseal ve k b = Some (Inr u, b') \<Longrightarrow> br_backend b' = br_backend b \<and> \<not> br_sealed b'"
  by (auto simp: barrier_unseal_def init_cipher_def Let_def split: option.splits sum.splits if_splits)

lemma set_fold_bhash: "set (fold (bhash_insert ve) keys s) = ve_blake3 ve ` set keys \<union> set s"
  by (induction keys arbitrary: s) (auto simp: bhash_insert_def)

text \<open>A one-time unsealing that succeeded: its last share had the right length and the used shares are recorded.\<close>

lemma do_unseal_once_True:
  assumes "ext_ok ve" "hooks_ok hk" "deprecated_unseal_keys_set ve v = Inr used"
    and "do_unseal ve hk x True v = Some (Inr True, v1)"
  shows "\<exists>config. seal_config_of ve v1 = Inr config" "barrier_inited (v_barrier v1)" "share_length_ok x"
    "\<not> br_sealed (v_barrier v1)"
    "deprecated_unseal_keys_set ve v1 =
       Inr (fold (bhash_insert ve) (unseal_key_shares (v_state v) @ [x]) used)"
proof -
  let ?shares = "unseal_key_shares (v_state v) @ [x]"
  obtain config k u b where conf: "seal_config_of ve v = Inr config" and inited: "barrier_inited (v_barrier v)"
    and len: "share_length_ok x" and b: "barrier_unseal ve k (v_barrier v) = Some (Inr u, b)"
    and fin: "finish_unseal ve hk True (Inr used) ?shares k (v\<lparr>v_barrier := b\<rparr>) = (Inr True, v1)"
    using assms(3,4)
    by (auto simp: do_unseal_def Let_def share_length_ok_def key_length_range_def AES_BLOCK_SIZE_def
        SHAMIR_OVERHEAD_def split: if_splits sum.splits option.splits prod.splits)
  note bb = barrier_unseal_backend [OF b]
  obtain hmac where hmac: "derive_hmac_key ve b = Inr hmac"
    using fin by (auto simp: finish_unseal_def split: sum.splits)
  let ?v1 = "v\<lparr>v_barrier := b, v_state := unsealed_state hmac k (v_state v)\<rparr>"
  obtain v2 where v2: "post_unseal hk ?v1 = (Inr (), v2)" "core_frame ?v1 v2"
    using assms(2) unfolding hooks_ok_def by meson
  have v1: "v1 = physical_put DEPRECATED_UNSEAL_KEY_SET_PATH
      (ve_set_to_json ve (fold (bhash_insert ve) ?shares used)) v2"
    using fin hmac v2(1) by (simp add: finish_unseal_def Let_def)
  have get: "physical_get p v1 = physical_get p v" if "p \<in> {BARRIER_INIT_PATH, SEAL_CONFIG_PATH}" for p
    using that v2(2) bb by (auto simp: v1 core_frame_def physical_get_def [of _ "?v1"] physical_get_def [of _ v])
  show "\<exists>config. seal_config_of ve v1 = Inr config"
    using conf by (auto simp: seal_config_of_def get)
  show "barrier_inited (v_barrier v1)"
    using inited get [of BARRIER_INIT_PATH] by (simp add: barrier_inited_def physical_get_def)
  show "\<not> br_sealed (v_barrier v1)" using v2(2) bb by (simp add: v1 core_frame_def)
  show "deprecated_unseal_keys_set ve v1 = Inr (fold (bhash_insert ve) ?shares used)"
    using assms(1) by (simp add: deprecated_unseal_keys_set_def v1 ext_ok_def)
  show "share_length_ok x" by (rule len)
qed

text \<open>
  C27: A one-time unsealing uses its shares up: once \<open>do_unseal\<close> has opened the vault with \<open>once\<close>, each of the shares it
  combined is refused after the vault is sealed again, with the error for deprecated keys, and nothing changes. The hypotheses
  are the laws of the coder, that the modules succeed and keep the entries of the core, and that the set of used keys can be
  read.
\<close>

theorem one_time_shares_refused:
  assumes "ext_ok ve" "hooks_ok hk" "deprecated_unseal_keys_set ve v = Inr used"
    and "do_unseal ve hk x True v = Some (Inr True, v1)" "seal hk v1 = (Inr (), v2)"
    and "y \<in> set (unseal_key_shares (v_state v) @ [x])" "list_all share_length_ok (unseal_key_shares (v_state v))"
  shows "do_unseal ve hk y once v2 = Some (Inl ErrBarrierKeyDeprecated, v2)"
proof -
  note after = do_unseal_once_True [OF assms(1-4)]
  obtain w where w: "pre_seal hk v1 = (Inr (), w)" "core_frame v1 w"
    using assms(2) unfolding hooks_ok_def by meson
  have v2: "v2 = w\<lparr>v_state := sealed_state (v_state w), v_barrier := barrier_seal (v_barrier w)\<rparr>"
    using assms(5) w(1) after(2,4) by (simp add: seal_def)
  have get: "physical_get p v2 = physical_get p v1"
    if "p \<in> {BARRIER_INIT_PATH, SEAL_CONFIG_PATH, DEPRECATED_UNSEAL_KEY_SET_PATH}" for p
    using that w(2) by (auto simp: v2 core_frame_def physical_get_def barrier_seal_def reset_cipher_def)
  obtain config where "seal_config_of ve v2 = Inr config" using after(1) by (auto simp: seal_config_of_def get)
  moreover have "barrier_inited (v_barrier v2)"
    using after(2) get [of BARRIER_INIT_PATH] by (simp add: barrier_inited_def physical_get_def)
  moreover have "deprecated_unseal_keys_set ve v2 = deprecated_unseal_keys_set ve v1"
    by (simp add: deprecated_unseal_keys_set_def get)
  moreover have "share_length_ok y" using assms(6,7) after(3) by (auto simp: list_all_iff)
  moreover have "bhash_contains ve (fold (bhash_insert ve) (unseal_key_shares (v_state v) @ [x]) used) y"
    using assms(6) unfolding bhash_contains_def set_fold_bhash by blast
  moreover have "unseal_key_shares (v_state v2) = []" "br_sealed (v_barrier v2)"
    by (simp_all add: v2 sealed_state_def barrier_seal_def)
  ultimately show ?thesis
    using after(5)
    by (simp add: do_unseal_def Let_def share_length_ok_def key_length_range_def AES_BLOCK_SIZE_def SHAMIR_OVERHEAD_def
        del: fold_append)
qed

text \<open>
  The vault of the example with threshold one: one share is enough, and a second vault state after its one-time use.
\<close>

definition ex_vault :: vault where
  "ex_vault =
     \<lparr>v_barrier = \<lparr>br_sealed = True, br_key = None, br_version = AES_GCM_VERSION2,
        br_backend =
          [(SEAL_CONFIG_PATH, [1, 1]), (DEPRECATED_UNSEAL_KEY_SET_PATH, [0]),
           (BARRIER_INIT_PATH, [0, 0, 0, 1, 2] @ replicate 12 1 @ (1 # 0 # 0 # replicate 32 9) @ replicate 16 5)]\<rparr>,
      v_state = core_state_default\<rparr>"

definition ex_opened :: vault where
  "ex_opened = snd (the (do_unseal toy_ext toy_hooks (replicate 32 5) True ex_vault))"

lemmas vault_defs =
  do_unseal_def finish_unseal_def derive_hmac_key_def barrier_unseal_def decrypt_def barrier_inited_def
  key_length_range_def AES_BLOCK_SIZE_def SHAMIR_OVERHEAD_def seal_config_of_def deprecated_unseal_keys_set_def
  validate_def physical_get_def collected_kek_def bhash_contains_def init_cipher_def KEY_EPOCH_def
  AES_GCM_VERSION1_def AES_GCM_VERSION2_def core_state_default_def

lemma ex_config: "seal_config_of toy_ext ex_vault = Inr \<lparr>secret_shares = 1, secret_threshold = 1\<rparr>"
  by (simp add: vault_defs ex_vault_def toy_ext_def hm_get_def)

lemma ex_unused: "deprecated_unseal_keys_set toy_ext ex_vault = Inr []"
  by (simp add: vault_defs ex_vault_def toy_ext_def hm_get_def)

lemma ex_ready:
  "ready toy_ext \<lparr>secret_shares = 1, secret_threshold = 1\<rparr> [] (replicate 32 5) (replicate 32 9) ex_vault"
  by (simp add: ready_def ex_config ex_unused)
    (simp add: opens_with_def ex_vault_def vault_defs toy_ext_def hm_get_def Let_def,
      rule exI [of _ "1 # 0 # 0 # replicate 32 9"], simp)

lemma ex_do_unseal: "do_unseal toy_ext toy_hooks (replicate 32 5) True ex_vault = Some (Inr True, ex_opened)"
proof -
  have "\<exists>v'. do_unseal toy_ext toy_hooks (replicate 32 5) True ex_vault = Some (Inr True, v')"
    using last_share_opens [OF ex_ready, of "replicate 32 5" toy_hooks True] toy_ok(2)
    by (auto simp: share_length_ok_def ex_vault_def core_state_default_def bhash_contains_def collected_kek_def)
  then show ?thesis by (auto simp: ex_opened_def)
qed

theorem one_time_shares_refused_witness:
  "do_unseal toy_ext toy_hooks (replicate 32 5) False (snd (seal toy_hooks ex_opened)) =
     Some (Inl ErrBarrierKeyDeprecated, snd (seal toy_hooks ex_opened))"
proof (rule one_time_shares_refused [OF toy_ext_ok toy_ok(2) ex_unused ex_do_unseal])
  show "seal toy_hooks ex_opened = (Inr (), snd (seal toy_hooks ex_opened))"
    using do_unseal_once_True(2,4) [OF toy_ext_ok toy_ok(2) ex_unused ex_do_unseal]
    by (simp add: seal_def toy_hooks_def)
qed (simp_all add: ex_vault_def core_state_default_def)

text \<open>
  C29: An accepted configuration that cannot be split (a threshold below two with more than one share, or 255 shares) makes
  \<open>init\<close> fail half way: it answers with an error, so nobody gets a share, but the barrier is initialised for good (a second
  \<open>init\<close> is refused) and the vault stays open, because the deferred sealing is only set up after the shares.
\<close>

theorem init_fails_half_way:
  assumes "ext_ok ve" "cipher_total ve" "t \<le> n" "n \<noteq> 1" "t < 2 \<or> n = 255"
    and "hm_get physical BARRIER_INIT_PATH = None"
  shows "\<exists>v. init ve hk rnd \<lparr>secret_shares = n, secret_threshold = t\<rparr> (core_new physical) =
      Some (Inl ErrShamirShareCountInvalid, v) \<and>
    \<not> sealed (v_state v) \<and> \<not> br_sealed (v_barrier v) \<and>
    (\<forall>rnd' c. init ve hk rnd' c v = Some (Inl ErrBarrierAlreadyInit, v))"
proof -
  let ?c = "\<lparr>secret_shares = n, secret_threshold = t\<rparr>"
  obtain v where v: "opened ve rnd ?c v"
    "init ve hk rnd ?c (core_new physical) =
      (case generate_unseal_keys ve (ir_fill rnd) v of
         Inl e \<Rightarrow> Some (Inl e, v)
       | Inr shares \<Rightarrow>
           (case setup_modules hk v of
              (Inl e, v5) \<Rightarrow> Some (Inl e, reseal core_state_default v5)
            | (Inr token, v5) \<Rightarrow> Some (Inr (shares, token), reseal core_state_default v5)))"
    using init_opens [OF assms(1,2) _ assms(6), of ?c rnd hk] assms(3,4) by auto
  have "generate_unseal_keys ve (ir_fill rnd) v = Inl ErrShamirShareCountInvalid"
    using v(1) assms(5) by (auto simp: generate_unseal_keys_def opened_def split_eq)
  then show ?thesis
    using v opens_with_inited by (auto simp: opened_def init_def)
qed

theorem init_fails_half_way_witness:
  "\<exists>v. init toy_ext toy_hooks toy_random \<lparr>secret_shares = 3, secret_threshold = 1\<rparr> (core_new []) =
      Some (Inl ErrShamirShareCountInvalid, v) \<and> \<not> sealed (v_state v)"
  using init_fails_half_way [OF toy_ext_ok toy_ok(1), of 1 3 "[]" toy_hooks toy_random] by auto

text \<open>
  C30: When the modules fail after the barrier was opened, \<open>do_unseal\<close> marks the core as sealed but leaves the barrier open with
  its key: no further share is accepted, all are answered with the error for an unsealed barrier.
\<close>

theorem failed_setup_leaves_barrier_open:
  assumes "ready ve config used K key v" "share_length_ok x" "x \<notin> set (unseal_key_shares (v_state v))"
    and "\<not> bhash_contains ve used x"
    and "unat (secret_threshold config) \<le> length (unseal_key_shares (v_state v)) + 1"
    and "collected_kek config (unseal_key_shares (v_state v) @ [x]) = Some K"
    and "\<And>w. \<exists>w'. post_unseal hk w = (Inl e, w') \<and> core_frame w w'"
  shows "\<exists>v'. do_unseal ve hk x once v = Some (Inl e, v') \<and> sealed (v_state v') \<and>
    \<not> br_sealed (v_barrier v') \<and> br_key (v_barrier v') = Some key \<and>
    (\<forall>y o'. do_unseal ve hk y o' v' = Some (Inl ErrBarrierUnsealed, v'))"
proof -
  let ?b = "(v_barrier v)\<lparr>br_sealed := False, br_key := Some key\<rparr>"
  let ?v1 = "v\<lparr>v_barrier := ?b, v_state := unsealed_state (ve_sha256 ve key) K (v_state v)\<rparr>"
  have open_b: "barrier_unseal ve K (v_barrier v) = Some (Inr (), ?b)"
    using assms(1) by (auto simp: ready_def intro: barrier_unseal_opens)
  obtain v2 where v2: "post_unseal hk ?v1 = (Inl e, v2)" "core_frame ?v1 v2" using assms(7) by blast
  let ?v' = "v2\<lparr>v_state := sealed_state (v_state v2)\<rparr>"
  have "do_unseal ve hk x once v = Some (Inl e, ?v')"
    by (subst do_unseal_ready [OF assms(1-4)])
      (use assms(5,6) open_b v2(1) in \<open>simp add: Let_def finish_unseal_def derive_hmac_key_def\<close>)
  moreover have "barrier_inited (v_barrier v2)"
    using v2(2) opens_with_inited [of ve K key "v_barrier v"] assms(1)
    by (simp add: core_frame_def physical_get_def barrier_inited_def ready_def)
  ultimately show ?thesis
    using v2(2) by (auto simp: core_frame_def sealed_state_def do_unseal_def)
qed

definition failing_hooks :: vault_hooks where
  "failing_hooks = toy_hooks\<lparr>post_unseal := (\<lambda>v. (Inl SerdeJson, v))\<rparr>"

theorem failed_setup_leaves_barrier_open_witness:
  "\<exists>v'. do_unseal toy_ext failing_hooks (replicate 32 5) False ex_vault = Some (Inl SerdeJson, v') \<and>
     sealed (v_state v') \<and> \<not> br_sealed (v_barrier v')"
  using failed_setup_leaves_barrier_open [OF ex_ready, of "replicate 32 5" failing_hooks SerdeJson False]
  by (auto simp: share_length_ok_def ex_vault_def core_state_default_def bhash_contains_def collected_kek_def
      failing_hooks_def core_frame_def)

end
