(* ===== verification/Ipam.thy ===== *)
theory Ipam
  imports Rk8s_Prelude
begin

text \<open>
  Address allocation, \<open>libnetwork/src/ipam\<close>: ranges and range sets, the store of reserved addresses, the cyclic iterator over
  a range set, and the commands that reserve and release the addresses of a container. Addresses are IPv4 (the code
  stops with \<open>todo!()\<close> on IPv6). The functions of the crate \<open>ipnetwork\<close> are an argument. The directory of the store is
  a map from addresses to the text of their files; its lock is always free, since commands run one after the
  other. The lemmas show that the iterator visits every address of the set once, so that the allocation finds a free
  address exactly when there is one.
\<close>

unbundle bit_operations_syntax

section \<open>Networks and ranges\<close>

record ip_network =
  net_ip :: u32
  net_prefix :: nat

record net_lib =
  nl_mask :: "ip_network \<Rightarrow> u32"
  nl_network :: "ip_network \<Rightarrow> u32"
  nl_contains :: "ip_network \<Rightarrow> u32 \<Rightarrow> bool"
  nl_with_netmask :: "u32 \<Rightarrow> u32 \<Rightarrow> ip_network option"

record ip_range =
  range_start :: "u32 option"
  range_end :: "u32 option"
  subnet :: ip_network
  gateway :: "u32 option"

datatype ipam_error =
    TooSmall | HostBits | StartOutside u32 | EndOutside u32
  | EmptySet | RangesOverlap nat nat | SetsOverlap nat nat | NoRanges
  | NotInRange u32 | IsGateway u32 | NotAvailable u32 | DuplicateAllocation u32 | NoAddresses

definition next_ip :: "u32 \<Rightarrow> u32 option" where
  "next_ip ip = (if ip = - 1 then None else Some (ip + 1))"

text \<open>
  The octets of the address are combined with the complement of the mask, and the last octet is decremented (with
  wrap-around, as an octet).
\<close>

definition last_ip :: "net_lib \<Rightarrow> ip_network \<Rightarrow> u32" where
  "last_ip nl net =
     (let ip = net_ip net OR NOT (nl_mask nl net);
          octet = (ucast ip :: u8) - 1
      in (ip AND NOT 0xff) OR ucast octet)"

definition range_canonicalize :: "net_lib \<Rightarrow> ip_range \<Rightarrow> ipam_error + ip_range" where
  "range_canonicalize nl r =
     (if net_prefix (subnet r) \<ge> 31 then Inl TooSmall
      else if net_ip (subnet r) \<noteq> nl_network nl (subnet r) then Inl HostBits
      else
        (let r1 = (if gateway r = None then r\<lparr>gateway := next_ip (net_ip (subnet r))\<rparr> else r)
         in case (case range_start r1 of
                    Some s \<Rightarrow> if \<not> nl_contains nl (subnet r1) s then Inl (StartOutside s) else Inr r1
                  | None \<Rightarrow> Inr (r1\<lparr>range_start := next_ip (net_ip (subnet r1))\<rparr>)) of
              Inl e \<Rightarrow> Inl e
            | Inr r2 \<Rightarrow>
                (case range_end r2 of
                   Some e \<Rightarrow> if \<not> nl_contains nl (subnet r2) e then Inl (EndOutside e) else Inr r2
                 | None \<Rightarrow> Inr (r2\<lparr>range_end := Some (last_ip nl (subnet r2))\<rparr>))))"

definition range_contains :: "net_lib \<Rightarrow> ip_range \<Rightarrow> u32 \<Rightarrow> bool" where
  "range_contains nl r addr \<longleftrightarrow>
     nl_contains nl (subnet r) addr \<and>
     (case range_start r of Some s \<Rightarrow> \<not> addr < s | None \<Rightarrow> True) \<and>
     (case range_end r of Some e \<Rightarrow> \<not> addr > e | None \<Rightarrow> True)"

definition range_overlap :: "ip_range \<Rightarrow> ip_range \<Rightarrow> bool" where
  "range_overlap r1 r2 =
     (case (range_start r1, range_end r1) of
        (Some s1, Some e1) \<Rightarrow>
          (case (range_start r2, range_end r2) of
             (Some s2, Some e2) \<Rightarrow> s1 \<le> e2 \<and> s2 \<le> e1
           | _ \<Rightarrow> False)
      | _ \<Rightarrow> False)"

section \<open>Range sets\<close>

type_synonym range_set = "ip_range list"

fun canonicalize_all :: "net_lib \<Rightarrow> range_set \<Rightarrow> ipam_error + range_set" where
  "canonicalize_all nl [] = Inr []"
| "canonicalize_all nl (r # rs) =
     (case range_canonicalize nl r of
        Inl e \<Rightarrow> Inl e
      | Inr r' \<Rightarrow> (case canonicalize_all nl rs of Inl e \<Rightarrow> Inl e | Inr rs' \<Rightarrow> Inr (r' # rs')))"

text \<open>The pairs in the order of the two loops.\<close>

definition index_pairs :: "nat \<Rightarrow> (nat \<times> nat) list" where
  "index_pairs n = concat (map (\<lambda>i. map (Pair i) [i + 1..<n]) [0..<n])"

definition set_canonicalize :: "net_lib \<Rightarrow> range_set \<Rightarrow> ipam_error + range_set" where
  "set_canonicalize nl rs =
     (if rs = [] then Inl EmptySet
      else
        (case canonicalize_all nl rs of
           Inl e \<Rightarrow> Inl e
         | Inr rs' \<Rightarrow>
             (case List.find (\<lambda>(i, j). range_overlap (rs' ! i) (rs' ! j)) (index_pairs (length rs')) of
                Some (i, j) \<Rightarrow> Inl (RangesOverlap i j)
              | None \<Rightarrow> Inr rs')))"

definition contains_ip :: "net_lib \<Rightarrow> range_set \<Rightarrow> u32 \<Rightarrow> bool" where
  "contains_ip nl rs ip \<longleftrightarrow> list_ex (\<lambda>r. range_contains nl r ip) rs"

definition set_overlap :: "range_set \<Rightarrow> range_set \<Rightarrow> bool" where
  "set_overlap rs1 rs2 \<longleftrightarrow> list_ex (\<lambda>r1. list_ex (\<lambda>r2. range_overlap r1 r2) rs2) rs1"

section \<open>The store\<close>

record ip_store =
  ip_files :: "(u32, string) hashmap"
  last_files :: "(string, u32) hashmap"

definition LINE_BREAK :: string where
  "LINE_BREAK = [CHR 0x0D, CHR 0x0A]"

definition is_space :: "char \<Rightarrow> bool" where
  "is_space c \<longleftrightarrow> c \<in> {CHR 0x09, CHR 0x0A, CHR 0x0B, CHR 0x0C, CHR 0x0D, CHR '' ''}"

definition trim :: "string \<Rightarrow> string" where
  "trim s = rev (dropWhile is_space (rev (dropWhile is_space s)))"

definition owner_text :: "string \<Rightarrow> string \<Rightarrow> string" where
  "owner_text cid ifname = cid @ LINE_BREAK @ ifname"

definition get_by_id :: "string \<Rightarrow> string \<Rightarrow> ip_store \<Rightarrow> u32 list" where
  "get_by_id cid ifname st =
     map fst (filter (\<lambda>(ip, data). trim data = owner_text cid ifname) (ip_files st))"

definition reserve :: "string \<Rightarrow> string \<Rightarrow> u32 \<Rightarrow> string \<Rightarrow> ip_store \<Rightarrow> bool \<times> ip_store" where
  "reserve cid ifname ip range_id st =
     (if hm_contains_key (ip_files st) ip then (False, st)
      else
        (True, st\<lparr>ip_files := hm_insert ip (owner_text cid ifname) (ip_files st),
                  last_files := hm_insert range_id ip (last_files st)\<rparr>))"

definition last_reserved_ip :: "string \<Rightarrow> ip_store \<Rightarrow> u32 option" where
  "last_reserved_ip range_id st = hm_get (last_files st) range_id"

definition release_by_id :: "string \<Rightarrow> string \<Rightarrow> ip_store \<Rightarrow> bool \<times> ip_store" where
  "release_by_id cid ifname st =
     (list_ex (\<lambda>(ip, data). trim data = owner_text cid ifname) (ip_files st),
      st\<lparr>ip_files := filter (\<lambda>(ip, data). trim data \<noteq> owner_text cid ifname) (ip_files st)\<rparr>)"

section \<open>The iterator\<close>

record ip_iter =
  range_index :: nat
  cur :: "u32 option"
  start_ip :: "u32 option"

datatype iter_result = Again ip_iter | Stop ip_iter | Yield ip_network u32 ip_iter | Panic

text \<open>The item of an iteration; a missing address or gateway is a panic.\<close>

definition iter_item :: "net_lib \<Rightarrow> ip_range \<Rightarrow> u32 option \<Rightarrow> ip_iter \<Rightarrow> iter_result" where
  "iter_item nl rng addr it =
     (case addr of
        None \<Rightarrow> Panic
      | Some a \<Rightarrow>
          (case nl_with_netmask nl a (nl_mask nl (subnet rng)) of
             None \<Rightarrow> Panic
           | Some net \<Rightarrow> (case gateway rng of None \<Rightarrow> Panic | Some gw \<Rightarrow> Yield net gw it)))"

text \<open>The move to the next address, or to the first one of the next range.\<close>

definition iter_advance :: "range_set \<Rightarrow> u32 \<Rightarrow> ip_iter \<Rightarrow> ip_iter" where
  "iter_advance rs c it =
     (if range_end (rs ! range_index it) = Some c
      then (let i = (range_index it + 1) mod length rs
            in it\<lparr>range_index := i, cur := range_start (rs ! i)\<rparr>)
      else it\<lparr>cur := next_ip c\<rparr>)"

text \<open>One pass through the body of \<open>next\<close>; \<open>Again\<close> is the call of itself.\<close>

definition iter_step :: "net_lib \<Rightarrow> range_set \<Rightarrow> ip_iter \<Rightarrow> iter_result" where
  "iter_step nl rs it =
     (if range_index it \<ge> length rs then Panic
      else
        (let rng = rs ! range_index it
         in case cur it of
              None \<Rightarrow>
                (let it1 = it\<lparr>cur := range_start rng, start_ip := range_start rng\<rparr>
                 in if cur it1 = gateway rng then Again it1
                    else iter_item nl rng (range_start rng) it1)
            | Some c \<Rightarrow>
                (let it1 = iter_advance rs c it;
                     rng1 = rs ! range_index it1;
                     it2 = (if start_ip it1 = None then it1\<lparr>start_ip := cur it1\<rparr> else it1)
                 in if start_ip it1 \<noteq> None \<and> cur it1 = start_ip it1 then Stop it1
                    else if cur it2 = gateway rng1 then Again it2
                    else iter_item nl rng1 (cur it2) it2)))"

partial_function (option) iter_next :: "net_lib \<Rightarrow> range_set \<Rightarrow> ip_iter \<Rightarrow> iter_result option" where
  "iter_next nl rs it =
     (case iter_step nl rs it of
        Again it' \<Rightarrow> iter_next nl rs it'
      | r \<Rightarrow> Some r)"

declare iter_next.simps [code]

definition new_iter :: "net_lib \<Rightarrow> range_set \<Rightarrow> string \<Rightarrow> ip_store \<Rightarrow> ip_iter" where
  "new_iter nl rs range_id st =
     (case last_reserved_ip range_id st of
        Some ip \<Rightarrow>
          (if contains_ip nl rs ip
           then (case List.find (\<lambda>i. range_contains nl (rs ! i) ip) [0..<length rs] of
                   Some i \<Rightarrow> \<lparr>range_index = i, cur = Some ip, start_ip = None\<rparr>
                 | None \<Rightarrow> \<lparr>range_index = 0, cur = None, start_ip = None\<rparr>)
           else \<lparr>range_index = 0, cur = None, start_ip = range_start (rs ! 0)\<rparr>)
      | None \<Rightarrow> \<lparr>range_index = 0, cur = None, start_ip = range_start (rs ! 0)\<rparr>)"

section \<open>Allocation\<close>

datatype get_outcome = GetPanic | GetError ipam_error | GetIp ip_network u32

partial_function (option) get_loop ::
    "net_lib \<Rightarrow> range_set \<Rightarrow> string \<Rightarrow> string \<Rightarrow> string \<Rightarrow> ip_iter \<Rightarrow> ip_store
       \<Rightarrow> (get_outcome \<times> ip_store) option" where
  "get_loop nl rs range_id cid ifname it st =
     (case iter_next nl rs it of
        None \<Rightarrow> None
      | Some r \<Rightarrow>
          (case r of
             Yield net gw it' \<Rightarrow>
               (case reserve cid ifname (net_ip net) range_id st of
                  (reserved, st') \<Rightarrow>
                    if reserved then Some (GetIp net gw, st')
                    else get_loop nl rs range_id cid ifname it' st')
           | Panic \<Rightarrow> Some (GetPanic, st)
           | _ \<Rightarrow> Some (GetError NoAddresses, st)))"

declare get_loop.simps [code]

definition get_requested ::
    "net_lib \<Rightarrow> range_set \<Rightarrow> string \<Rightarrow> string \<Rightarrow> string \<Rightarrow> u32 \<Rightarrow> ip_store \<Rightarrow> get_outcome \<times> ip_store" where
  "get_requested nl rs range_id cid ifname ip st =
     (case List.find (\<lambda>r. range_contains nl r ip) rs of
        None \<Rightarrow> (GetError (NotInRange ip), st)
      | Some r \<Rightarrow>
          (case gateway r of
             None \<Rightarrow> (GetPanic, st)
           | Some gw \<Rightarrow>
               if ip = gw then (GetError (IsGateway ip), st)
               else
                 (case reserve cid ifname ip range_id st of
                    (False, st') \<Rightarrow> (GetError (NotAvailable ip), st')
                  | (True, st') \<Rightarrow>
                      (case nl_with_netmask nl ip (nl_mask nl (subnet r)) of
                         None \<Rightarrow> (GetPanic, st')
                       | Some net \<Rightarrow> (GetIp net gw, st')))))"

definition get ::
    "net_lib \<Rightarrow> range_set \<Rightarrow> string \<Rightarrow> string \<Rightarrow> string \<Rightarrow> u32 option \<Rightarrow> ip_store
       \<Rightarrow> (get_outcome \<times> ip_store) option" where
  "get nl rs range_id cid ifname request_ip st =
     (case request_ip of
        Some ip \<Rightarrow> Some (get_requested nl rs range_id cid ifname ip st)
      | None \<Rightarrow>
          (case List.find (contains_ip nl rs) (get_by_id cid ifname st) of
             Some ip \<Rightarrow> Some (GetError (DuplicateAllocation ip), st)
           | None \<Rightarrow>
               (if rs = [] then Some (GetPanic, st)
                else get_loop nl rs range_id cid ifname (new_iter nl rs range_id st) st)))"

definition release :: "string \<Rightarrow> string \<Rightarrow> ip_store \<Rightarrow> ip_store" where
  "release cid ifname st = snd (release_by_id cid ifname st)"

section \<open>Commands\<close>

fun load_sets :: "net_lib \<Rightarrow> range_set list \<Rightarrow> ipam_error + range_set list" where
  "load_sets nl [] = Inr []"
| "load_sets nl (rs # rss) =
     (case set_canonicalize nl rs of
        Inl e \<Rightarrow> Inl e
      | Inr rs' \<Rightarrow> (case load_sets nl rss of Inl e \<Rightarrow> Inl e | Inr rss' \<Rightarrow> Inr (rs' # rss')))"

definition load_ipam_netconf :: "net_lib \<Rightarrow> range_set list \<Rightarrow> ipam_error + range_set list" where
  "load_ipam_netconf nl ranges =
     (if ranges = [] then Inl NoRanges
      else
        (case load_sets nl ranges of
           Inl e \<Rightarrow> Inl e
         | Inr rss \<Rightarrow>
             (case List.find (\<lambda>(i, j). set_overlap (rss ! i) (rss ! j)) (index_pairs (length rss)) of
                Some (i, j) \<Rightarrow> Inl (SetsOverlap i (i + j + 1))
              | None \<Rightarrow> Inr rss)))"

text \<open>
  The loop of \<open>cmd_add\<close> over the range sets; \<open>done\<close> counts the allocators that have reserved an address, and each of
  them releases when a later one fails.
\<close>

datatype add_outcome = AddPanic | AddError ipam_error | AddOk "(ip_network \<times> u32) list"

fun add_loop ::
    "net_lib \<Rightarrow> string \<Rightarrow> string \<Rightarrow> (nat \<times> range_set) list \<Rightarrow> nat \<Rightarrow> (ip_network \<times> u32) list \<Rightarrow> ip_store
       \<Rightarrow> (add_outcome \<times> ip_store) option" where
  "add_loop nl cid ifname [] n ips st = Some (AddOk ips, st)"
| "add_loop nl cid ifname ((idx, rs) # rest) n ips st =
     (case get nl rs (show_nat idx) cid ifname None st of
        None \<Rightarrow> None
      | Some (GetPanic, st') \<Rightarrow> Some (AddPanic, st')
      | Some (GetError e, st') \<Rightarrow> Some (AddError e, (release cid ifname ^^ n) st')
      | Some (GetIp net gw, st') \<Rightarrow> add_loop nl cid ifname rest (Suc n) (ips @ [(net, gw)]) st')"

definition cmd_add ::
    "net_lib \<Rightarrow> range_set list \<Rightarrow> string \<Rightarrow> string \<Rightarrow> ip_store \<Rightarrow> (add_outcome \<times> ip_store) option" where
  "cmd_add nl ranges cid ifname st =
     (case load_ipam_netconf nl ranges of
        Inl e \<Rightarrow> Some (AddError e, st)
      | Inr rss \<Rightarrow> add_loop nl cid ifname (enumerate 0 rss) 0 [] st)"

definition cmd_del ::
    "net_lib \<Rightarrow> range_set list \<Rightarrow> string \<Rightarrow> string \<Rightarrow> ip_store \<Rightarrow> (ipam_error + unit) \<times> ip_store" where
  "cmd_del nl ranges cid ifname st =
     (case load_ipam_netconf nl ranges of
        Inl e \<Rightarrow> (Inl e, st)
      | Inr rss \<Rightarrow> (Inr (), fold (\<lambda>_. release cid ifname) rss st))"

section \<open>Well-formed range sets\<close>

text \<open>
  A range with both ends in order and a gateway, inside its network; \<open>nl_with_netmask\<close> gives back the prefix
  of the mask.
\<close>

definition range_ok :: "net_lib \<Rightarrow> ip_range \<Rightarrow> bool" where
  "range_ok nl r \<longleftrightarrow>
     (\<exists>s e g. range_start r = Some s \<and> range_end r = Some e \<and> gateway r = Some g \<and> s \<le> e \<and>
        (\<forall>a. s \<le> a \<and> a \<le> e \<longrightarrow> nl_contains nl (subnet r) a)) \<and>
     (\<forall>a. nl_with_netmask nl a (nl_mask nl (subnet r)) = Some \<lparr>net_ip = a, net_prefix = net_prefix (subnet r)\<rparr>)"

definition set_ok :: "net_lib \<Rightarrow> range_set \<Rightarrow> bool" where
  "set_ok nl rs \<longleftrightarrow>
     rs \<noteq> [] \<and> (\<forall>r\<in>set rs. range_ok nl r) \<and>
     (\<forall>i<length rs. \<forall>j<length rs. i \<noteq> j \<longrightarrow> \<not> range_overlap (rs ! i) (rs ! j))"

definition addrs :: "ip_range \<Rightarrow> u32 list" where
  "addrs r = map of_nat [unat (the (range_start r))..<Suc (unat (the (range_end r)))]"

lemma range_ok_contains:
  assumes "range_ok nl r"
  shows "range_contains nl r a \<longleftrightarrow> the (range_start r) \<le> a \<and> a \<le> the (range_end r)"
  using assms by (auto simp: range_ok_def range_contains_def not_less)

lemma unat_of_nat_le: "n \<le> unat (e :: u32) \<Longrightarrow> unat (of_nat n :: u32) = n"
proof -
  assume "n \<le> unat e"
  moreover have "unat e < 4294967296" by (rule order_less_le_trans [OF unsigned_less]) simp
  ultimately show ?thesis by (simp add: unat_of_nat)
qed

lemma set_addrs: "set (addrs r) = {the (range_start r)..the (range_end r)}"
proof (intro set_eqI iffI)
  fix a assume "a \<in> set (addrs r)"
  then obtain n where n: "unat (the (range_start r)) \<le> n" "n \<le> unat (the (range_end r))" "a = of_nat n"
    by (auto simp: addrs_def less_Suc_eq_le simp del: upt_Suc)
  then show "a \<in> {the (range_start r)..the (range_end r)}"
    using unat_of_nat_le [OF n(2)] by (simp add: word_le_nat_alt)
next
  fix a assume "a \<in> {the (range_start r)..the (range_end r)}"
  then have "unat a \<in> set [unat (the (range_start r))..<Suc (unat (the (range_end r)))]"
    by (auto simp: word_le_nat_alt)
  then show "a \<in> set (addrs r)" unfolding addrs_def set_map
    by (intro image_eqI [of _ _ "unat a"]) simp
qed

lemma distinct_addrs: "distinct (addrs r)"
  unfolding addrs_def distinct_map
  by (auto simp: inj_on_def less_Suc_eq_le simp del: upt_Suc) (metis unat_of_nat_le)

section \<open>The cycle of addresses\<close>

text \<open>The addresses of a set with the index of their range, and the successor of an address in the cycle.\<close>

fun slots :: "nat \<Rightarrow> range_set \<Rightarrow> (nat \<times> u32) list" where
  "slots i [] = []"
| "slots i (r # rs) = map (Pair i) (addrs r) @ slots (Suc i) rs"

definition slot_succ :: "range_set \<Rightarrow> nat \<times> u32 \<Rightarrow> nat \<times> u32" where
  "slot_succ rs x =
     (if range_end (rs ! fst x) = Some (snd x)
      then (let j = (fst x + 1) mod length rs in (j, the (range_start (rs ! j))))
      else (fst x, snd x + 1))"

abbreviation succ_of :: "range_set \<Rightarrow> nat \<times> u32 \<Rightarrow> nat \<times> u32 \<Rightarrow> bool" where
  "succ_of rs x y \<equiv> y = slot_succ rs x"

lemma range_ok_addrs:
  assumes "range_ok nl r"
  shows "addrs r \<noteq> []" "hd (addrs r) = the (range_start r)" "last (addrs r) = the (range_end r)"
proof -
  have le: "unat (the (range_start r)) \<le> unat (the (range_end r))"
    using assms by (auto simp: range_ok_def word_le_nat_alt)
  then show "addrs r \<noteq> []" by (simp add: addrs_def)
  show "hd (addrs r) = the (range_start r)"
    unfolding addrs_def using le by (subst upt_conv_Cons) simp_all
  show "last (addrs r) = the (range_end r)" using le by (simp add: addrs_def)
qed

lemma successively_upt: "successively (\<lambda>x y. y = Suc x) [m..<n]"
  by (auto simp: successively_conv_nth)

lemma addrs_chain:
  assumes "range_ok nl (rs ! i)"
  shows "successively (succ_of rs) (map (Pair i) (addrs (rs ! i)))"
proof -
  let ?r = "rs ! i"
  obtain e where e: "range_end ?r = Some e" using assms by (auto simp: range_ok_def)
  have "successively (\<lambda>x y. y = Suc x) [unat (the (range_start ?r))..<Suc (unat e)]" by (rule successively_upt)
  then have "successively (\<lambda>m n. (i, of_nat n :: u32) = slot_succ rs (i, of_nat m))
      [unat (the (range_start ?r))..<Suc (unat e)]"
  proof (rule successively_mono)
    fix m n assume "m \<in> set [unat (the (range_start ?r))..<Suc (unat e)]"
      "n \<in> set [unat (the (range_start ?r))..<Suc (unat e)]" "n = Suc m"
    then have "m < unat e" "n = Suc m" by auto
    then have "of_nat m \<noteq> e" using unat_of_nat_le [of m e] by auto
    then show "(i, of_nat n) = slot_succ rs (i, of_nat m)"
      using \<open>n = Suc m\<close> by (simp add: slot_succ_def e add.commute)
  qed
  then show ?thesis by (simp add: addrs_def e successively_map comp_def del: upt_Suc)
qed

lemma slots_tail:
  assumes "rs = pre @ suf" "suf \<noteq> []" "\<forall>r\<in>set rs. range_ok nl r"
  shows "slots (length pre) suf \<noteq> [] \<and> hd (slots (length pre) suf) = (length pre, the (range_start (hd suf))) \<and>
    last (slots (length pre) suf) = (length rs - 1, the (range_end (last rs))) \<and>
    successively (succ_of rs) (slots (length pre) suf)"
  using assms(1,2)
proof (induction suf arbitrary: pre)
  case (Cons r suf)
  have r: "rs ! length pre = r" "range_ok nl r" using Cons.prems assms(3) by (auto simp: nth_append)
  note ra = range_ok_addrs [OF r(2)]
  have chain: "successively (succ_of rs) (map (Pair (length pre)) (addrs r))"
    using addrs_chain [of nl rs "length pre"] r by simp
  show ?case
  proof (cases "suf = []")
    case True
    then show ?thesis using ra chain Cons.prems(1) by (simp add: hd_map last_map)
  next
    case False
    have IH: "slots (Suc (length pre)) suf \<noteq> []"
      "hd (slots (Suc (length pre)) suf) = (Suc (length pre), the (range_start (hd suf)))"
      "last (slots (Suc (length pre)) suf) = (length rs - 1, the (range_end (last rs)))"
      "successively (succ_of rs) (slots (Suc (length pre)) suf)"
      using Cons.IH [of "pre @ [r]"] Cons.prems(1) False by auto
    have "range_end r = Some (the (range_end r))" using r(2) by (auto simp: range_ok_def)
    moreover have "Suc (length pre) < length rs" using Cons.prems(1) False by (cases suf) auto
    moreover have "rs ! Suc (length pre) = hd suf" using Cons.prems(1) False by (cases suf) (auto simp: nth_append)
    ultimately have "slot_succ rs (length pre, the (range_end r)) = (Suc (length pre), the (range_start (hd suf)))"
      by (simp add: slot_succ_def r(1) Let_def)
    then show ?thesis
      using ra chain IH by (auto simp: successively_append_iff hd_map last_map)
  qed
qed simp

lemma slots_cycle:
  assumes "set_ok nl rs"
  shows "slots 0 rs \<noteq> []" "hd (slots 0 rs) = (0, the (range_start (rs ! 0)))"
    "successively (succ_of rs) (slots 0 rs)" "slot_succ rs (last (slots 0 rs)) = hd (slots 0 rs)"
proof -
  have rs: "rs \<noteq> []" "\<forall>r\<in>set rs. range_ok nl r" using assms by (auto simp: set_ok_def)
  note t = slots_tail [of rs "[]" rs nl, simplified, OF rs]
  show "slots 0 rs \<noteq> []" "hd (slots 0 rs) = (0, the (range_start (rs ! 0)))" "successively (succ_of rs) (slots 0 rs)"
    using t rs by (simp_all add: hd_conv_nth)
  have "range_ok nl (last rs)" using rs by simp
  then have "range_end (last rs) = Some (the (range_end (last rs)))" by (auto simp: range_ok_def)
  then show "slot_succ rs (last (slots 0 rs)) = hd (slots 0 rs)"
    using t rs by (simp add: slot_succ_def Let_def last_conv_nth hd_conv_nth)
qed

lemma slots_iff: "(j, a) \<in> set (slots i rs) \<longleftrightarrow> (\<exists>k<length rs. j = i + k \<and> a \<in> set (addrs (rs ! k)))"
proof (induction rs arbitrary: i)
  case (Cons r rs)
  show ?case
    by (auto simp: Cons.IH less_Suc_eq_0_disj)
qed simp

lemma set_ok_disjoint:
  assumes "set_ok nl rs" "i < length rs" "j < length rs" "a \<in> set (addrs (rs ! i))" "a \<in> set (addrs (rs ! j))"
  shows "i = j"
proof (rule ccontr)
  assume "i \<noteq> j"
  then have "\<not> range_overlap (rs ! i) (rs ! j)" using assms(1-3) by (auto simp: set_ok_def)
  moreover have "range_ok nl (rs ! i)" "range_ok nl (rs ! j)" using assms(1-3) by (auto simp: set_ok_def)
  ultimately show False
    using assms(4,5) by (auto simp: range_ok_def range_overlap_def set_addrs)
qed

lemma distinct_slots: "distinct (slots i rs)"
  by (induction rs arbitrary: i) (auto simp: distinct_map distinct_addrs inj_on_def slots_iff)

lemma slot_cases: "x \<in> set (slots 0 rs) \<Longrightarrow> fst x < length rs \<and> snd x \<in> set (addrs (rs ! fst x))"
  using slots_iff [of "fst x" "snd x" 0 rs] by simp

lemma slots_inj:
  assumes "set_ok nl rs" "x \<in> set (slots 0 rs)" "y \<in> set (slots 0 rs)" "snd x = snd y"
  shows "x = y"
proof -
  obtain i a where x: "x = (i, a)" "i < length rs" "a \<in> set (addrs (rs ! i))"
    using slot_cases [OF assms(2)] by (intro that [of "fst x" "snd x"]) auto
  obtain j b where y: "y = (j, b)" "j < length rs" "b \<in> set (addrs (rs ! j))"
    using slot_cases [OF assms(3)] by (intro that [of "fst y" "snd y"]) auto
  have "a = b" using assms(4) x(1) y(1) by simp
  then show ?thesis using set_ok_disjoint [OF assms(1) x(2) y(2) x(3)] x(1) y(1,3) by simp
qed

lemma contains_ip_slots:
  assumes "set_ok nl rs"
  shows "contains_ip nl rs a \<longleftrightarrow> a \<in> snd ` set (slots 0 rs)"
proof -
  have "range_contains nl (rs ! i) a \<longleftrightarrow> a \<in> set (addrs (rs ! i))" if "i < length rs" for i
    using assms that by (simp add: set_ok_def range_ok_contains set_addrs)
  then have "contains_ip nl rs a \<longleftrightarrow> (\<exists>i<length rs. a \<in> set (addrs (rs ! i)))"
    unfolding contains_ip_def list_ex_iff by (metis in_set_conv_nth)
  also have "\<dots> \<longleftrightarrow> (\<exists>i. (i, a) \<in> set (slots 0 rs))" by (simp add: slots_iff)
  also have "\<dots> \<longleftrightarrow> a \<in> snd ` set (slots 0 rs)" by force
  finally show ?thesis .
qed

section \<open>Walking the cycle\<close>

definition at :: "nat \<times> u32 \<Rightarrow> u32 \<Rightarrow> ip_iter" where
  "at x a0 = \<lparr>range_index = fst x, cur = Some (snd x), start_ip = Some a0\<rparr>"

definition usable :: "range_set \<Rightarrow> nat \<times> u32 \<Rightarrow> bool" where
  "usable rs x \<longleftrightarrow> gateway (rs ! fst x) \<noteq> Some (snd x)"

definition slot_net :: "range_set \<Rightarrow> nat \<times> u32 \<Rightarrow> ip_network" where
  "slot_net rs x = \<lparr>net_ip = snd x, net_prefix = net_prefix (subnet (rs ! fst x))\<rparr>"

definition slot_gw :: "range_set \<Rightarrow> nat \<times> u32 \<Rightarrow> u32" where
  "slot_gw rs x = the (gateway (rs ! fst x))"

definition enter :: "range_set \<Rightarrow> nat \<times> u32 \<Rightarrow> u32 \<Rightarrow> iter_result" where
  "enter rs y a0 = (if usable rs y then Yield (slot_net rs y) (slot_gw rs y) (at y a0) else Again (at y a0))"

lemma slot_ok:
  assumes "set_ok nl rs" "x \<in> set (slots 0 rs)"
  shows "fst x < length rs" "range_ok nl (rs ! fst x)" "the (range_start (rs ! fst x)) \<le> snd x"
    "snd x \<le> the (range_end (rs ! fst x))"
proof -
  obtain i a where x: "x = (i, a)" "i < length rs" "a \<in> set (addrs (rs ! i))"
    using slot_cases [OF assms(2)] by (intro that [of "fst x" "snd x"]) auto
  then show "fst x < length rs" "range_ok nl (rs ! fst x)" "the (range_start (rs ! fst x)) \<le> snd x"
    "snd x \<le> the (range_end (rs ! fst x))"
    using assms(1) by (auto simp: set_ok_def set_addrs)
qed

lemma slot_item:
  assumes "set_ok nl rs" "y \<in> set (slots 0 rs)"
  shows "(if Some (snd y) = gateway (rs ! fst y) then Again (at y a0)
    else iter_item nl (rs ! fst y) (Some (snd y)) (at y a0)) = enter rs y a0"
  using slot_ok [OF assms] by (auto simp: enter_def usable_def iter_item_def range_ok_def slot_net_def slot_gw_def)

text \<open>The move of the iterator from a slot to its successor.\<close>

lemma iter_move:
  assumes "set_ok nl rs" "x \<in> set (slots 0 rs)" "y = slot_succ rs x" "y \<in> set (slots 0 rs)"
  shows "iter_advance rs (snd x) \<lparr>range_index = fst x, cur = Some (snd x), start_ip = st\<rparr> =
    \<lparr>range_index = fst y, cur = Some (snd y), start_ip = st\<rparr>"
proof (cases "range_end (rs ! fst x) = Some (snd x)")
  case True
  have "fst y < length rs" "range_ok nl (rs ! fst y)" using slot_ok [OF assms(1,4)] by auto
  then show ?thesis using True assms(3) by (auto simp: iter_advance_def slot_succ_def Let_def range_ok_def)
next
  case False
  have "range_ok nl (rs ! fst x)" "snd x \<le> the (range_end (rs ! fst x))" using slot_ok [OF assms(1,2)] by auto
  then have "snd x \<noteq> - 1" using False by (auto simp: range_ok_def word_order.extremum_unique)
  then show ?thesis using False assms(3) by (simp add: iter_advance_def slot_succ_def next_ip_def)
qed

lemma iter_step_at:
  assumes "set_ok nl rs" "x \<in> set (slots 0 rs)" "y = slot_succ rs x" "y \<in> set (slots 0 rs)"
  shows "iter_step nl rs (at x a0) = (if snd y = a0 then Stop (at y a0) else enter rs y a0)"
    and "iter_step nl rs \<lparr>range_index = fst x, cur = Some (snd x), start_ip = None\<rparr> = enter rs y (snd y)"
proof -
  have i: "fst x < length rs" by (rule slot_ok [OF assms(1,2)])
  note move = iter_move [OF assms]
  have "iter_step nl rs (at x a0) = (if snd y = a0 then Stop (at y a0)
      else if Some (snd y) = gateway (rs ! fst y) then Again (at y a0)
      else iter_item nl (rs ! fst y) (Some (snd y)) (at y a0))"
    using i by (simp add: iter_step_def at_def Let_def move)
  then show "iter_step nl rs (at x a0) = (if snd y = a0 then Stop (at y a0) else enter rs y a0)"
    using slot_item [OF assms(1,4)] by simp
  have "iter_step nl rs \<lparr>range_index = fst x, cur = Some (snd x), start_ip = None\<rparr> =
      (if Some (snd y) = gateway (rs ! fst y) then Again (at y (snd y))
       else iter_item nl (rs ! fst y) (Some (snd y)) (at y (snd y)))"
    using i by (simp add: iter_step_def at_def Let_def move)
  then show "iter_step nl rs \<lparr>range_index = fst x, cur = Some (snd x), start_ip = None\<rparr> = enter rs y (snd y)"
    using slot_item [OF assms(1,4)] by simp
qed

text \<open>The start at the first address of the set.\<close>

lemma iter_step_start:
  assumes "set_ok nl rs"
  shows "iter_step nl rs \<lparr>range_index = 0, cur = None, start_ip = s\<rparr> =
    enter rs (hd (slots 0 rs)) (snd (hd (slots 0 rs)))"
proof -
  let ?y = "hd (slots 0 rs)"
  have y: "?y = (0, the (range_start (rs ! 0)))" "?y \<in> set (slots 0 rs)"
    using slots_cycle [OF assms] hd_in_set by blast+
  obtain s0 where s0: "range_start (rs ! 0) = Some s0" "0 < length rs"
    using slot_ok(1,2) [OF assms y(2)] y(1) by (auto simp: range_ok_def)
  have "iter_step nl rs \<lparr>range_index = 0, cur = None, start_ip = s\<rparr> =
      (if Some (snd ?y) = gateway (rs ! fst ?y) then Again (at ?y (snd ?y))
       else iter_item nl (rs ! fst ?y) (Some (snd ?y)) (at ?y (snd ?y)))"
    using s0 unfolding y(1) by (auto simp: iter_step_def at_def Let_def dest: sym)
  then show ?thesis using slot_item [OF assms y(2), of "snd ?y"] by simp
qed

section \<open>The allocation loop\<close>

definition free_in :: "ip_store \<Rightarrow> nat \<times> u32 \<Rightarrow> bool" where
  "free_in st x \<longleftrightarrow> \<not> hm_contains_key (ip_files st) (snd x)"

text \<open>The specification of the loop: the first free address of a list is reserved.\<close>

definition alloc_first ::
    "range_set \<Rightarrow> string \<Rightarrow> string \<Rightarrow> string \<Rightarrow> (nat \<times> u32) list \<Rightarrow> ip_store \<Rightarrow> get_outcome \<times> ip_store" where
  "alloc_first rs range_id cid ifname xs st =
     (case List.find (free_in st) xs of
        None \<Rightarrow> (GetError NoAddresses, st)
      | Some x \<Rightarrow> (GetIp (slot_net rs x) (slot_gw rs x), snd (reserve cid ifname (snd x) range_id st)))"

lemma iter_next_simps:
  "iter_step nl rs it = Again it' \<Longrightarrow> iter_next nl rs it = iter_next nl rs it'"
  "iter_step nl rs it = Stop it' \<Longrightarrow> iter_next nl rs it = Some (Stop it')"
  "iter_step nl rs it = Yield net gw it' \<Longrightarrow> iter_next nl rs it = Some (Yield net gw it')"
  by (subst iter_next.simps, simp)+

lemma get_loop_cong: "iter_next nl rs it = iter_next nl rs it' \<Longrightarrow>
  get_loop nl rs range_id cid ifname it st = get_loop nl rs range_id cid ifname it' st"
  by (subst (1 2) get_loop.simps) simp

lemma get_loop_stop: "iter_step nl rs it = Stop it' \<Longrightarrow>
  get_loop nl rs range_id cid ifname it st = Some (GetError NoAddresses, st)"
  by (subst get_loop.simps) (simp add: iter_next_simps)

lemma get_loop_enter:
  assumes "set_ok nl rs" "set (y # ys) \<subseteq> set (slots 0 rs)" "successively (succ_of rs) (y # ys)"
    and "a0 \<notin> snd ` set ys" "slot_succ rs (last (y # ys)) \<in> set (slots 0 rs)" "snd (slot_succ rs (last (y # ys))) = a0"
    and "iter_step nl rs it = enter rs y a0"
  shows "get_loop nl rs range_id cid ifname it st =
    Some (alloc_first rs range_id cid ifname (filter (usable rs) (y # ys)) st)"
  using assms(2-)
proof (induction ys arbitrary: y it)
  case Nil
  have stop: "get_loop nl rs range_id cid ifname (at y a0) st = Some (GetError NoAddresses, st)"
    using Nil iter_step_at(1) [OF assms(1), of y "slot_succ rs y" a0] by (intro get_loop_stop) auto
  show ?case
  proof (cases "usable rs y")
    case True
    then have "iter_step nl rs it = Yield (slot_net rs y) (slot_gw rs y) (at y a0)"
      using Nil by (simp add: enter_def)
    then show ?thesis
      using True stop
      by (subst get_loop.simps)
        (auto simp: iter_next_simps(3) alloc_first_def reserve_def free_in_def slot_net_def)
  next
    case False
    then have "get_loop nl rs range_id cid ifname it st = get_loop nl rs range_id cid ifname (at y a0) st"
      using Nil by (intro get_loop_cong iter_next_simps(1)) (simp add: enter_def)
    then show ?thesis using False stop by (simp add: alloc_first_def)
  qed
next
  case (Cons y' ys)
  have y': "y' = slot_succ rs y" "snd y' \<noteq> a0" using Cons.prems by auto
  have next_y: "get_loop nl rs range_id cid ifname (at y a0) st =
      Some (alloc_first rs range_id cid ifname (filter (usable rs) (y' # ys)) st)"
    using Cons.prems y' iter_step_at(1) [OF assms(1), of y y' a0]
    by (intro Cons.IH) (auto simp: successively_Cons)
  show ?case
  proof (cases "usable rs y")
    case True
    then have "iter_step nl rs it = Yield (slot_net rs y) (slot_gw rs y) (at y a0)"
      using Cons.prems by (simp add: enter_def)
    then show ?thesis
      using True next_y
      by (subst get_loop.simps)
        (auto simp: iter_next_simps(3) alloc_first_def reserve_def free_in_def slot_net_def)
  next
    case False
    then have "get_loop nl rs range_id cid ifname it st = get_loop nl rs range_id cid ifname (at y a0) st"
      using Cons.prems by (intro get_loop_cong iter_next_simps(1)) (simp add: enter_def)
    then show ?thesis using False next_y by simp
  qed
qed

text \<open>A rotation of the cycle is a chain that leads back to its first element.\<close>

lemma chain_rotate:
  assumes "successively (succ_of rs) (xs @ ys)" "slot_succ rs (last (xs @ ys)) = hd (xs @ ys)" "ys \<noteq> []"
  shows "successively (succ_of rs) (ys @ xs) \<and> slot_succ rs (last (ys @ xs)) = hd (ys @ xs)"
  using assms by (cases "xs = []") (simp_all add: successively_append_iff)

lemma rotated_chain:
  assumes "set_ok nl rs" "k < length (slots 0 rs)"
  defines "L \<equiv> drop k (slots 0 rs) @ take k (slots 0 rs)"
  shows "L \<noteq> []" "set L = set (slots 0 rs)" "hd L = slots 0 rs ! k" "successively (succ_of rs) L"
    "slot_succ rs (last L) = hd L" "distinct (map snd L)"
proof -
  let ?S = "slots 0 rs"
  note c = slots_cycle [OF assms(1)]
  show "L \<noteq> []" using assms(2) by (simp add: L_def)
  show L_set: "set L = set ?S"
    unfolding L_def by (metis append_take_drop_id set_append Un_commute)
  show "hd L = ?S ! k" using assms(2) by (simp add: L_def hd_drop_conv_nth)
  have "successively (succ_of rs) L \<and> slot_succ rs (last L) = hd L"
    unfolding L_def using assms(2) c(3,4) by (intro chain_rotate) simp_all
  then show "successively (succ_of rs) L" "slot_succ rs (last L) = hd L" by simp_all
  have "distinct (take k ?S @ drop k ?S)" using distinct_slots by simp
  then have "distinct L" unfolding L_def distinct_append by blast
  then show "distinct (map snd L)"
    using slots_inj [OF assms(1)] unfolding distinct_map L_set inj_on_def by blast
qed

lemma get_loop_rotation:
  assumes "set_ok nl rs" "k < length (slots 0 rs)"
    and "iter_step nl rs it = enter rs (slots 0 rs ! k) (snd (slots 0 rs ! k))"
  shows "get_loop nl rs range_id cid ifname it st =
    Some (alloc_first rs range_id cid ifname
      (filter (usable rs) (drop k (slots 0 rs) @ take k (slots 0 rs))) st)"
proof -
  let ?L = "drop k (slots 0 rs) @ take k (slots 0 rs)"
  note L = rotated_chain [OF assms(1,2)]
  obtain y ys where y: "?L = y # ys" using L(1) by (cases ?L) auto
  have M: "set (y # ys) = set (slots 0 rs)" "y = slots 0 rs ! k" "successively (succ_of rs) (y # ys)"
    "slot_succ rs (last (y # ys)) = y" "snd y \<notin> snd ` set ys"
    using L(2-6) unfolding y list.sel list.map distinct.simps set_map by (assumption | (rule sym, assumption) | blast)+
  have "y \<in> set (slots 0 rs)" using M(1) by (metis list.set_intros(1))
  then have "get_loop nl rs range_id cid ifname it st =
    Some (alloc_first rs range_id cid ifname (filter (usable rs) (y # ys)) st)"
    using M(1,3-) assms(3) unfolding M(2) [symmetric]
    by (intro get_loop_enter [OF assms(1), where ?a0.0 = "snd y"]) simp_all
  then show ?thesis unfolding y .
qed

lemma chain_succ_mem:
  "successively (succ_of rs) xs \<Longrightarrow> x \<in> set xs \<Longrightarrow> slot_succ rs x \<in> set xs \<or> x = last xs"
  by (induction xs) (auto simp: successively_Cons dest: hd_in_set [of "_ :: (nat \<times> u32) list"])

lemma slot_succ_mem:
  assumes "set_ok nl rs" "x \<in> set (slots 0 rs)"
  shows "slot_succ rs x \<in> set (slots 0 rs)"
  using chain_succ_mem [OF slots_cycle(3) [OF assms(1)] assms(2)] slots_cycle(4) [OF assms(1)]
    hd_in_set [OF slots_cycle(1) [OF assms(1)]] by metis

text \<open>The loop of \<open>get\<close> from \<open>new_iter\<close> runs once around the cycle, from some address on.\<close>

lemma get_loop_new_iter:
  assumes "set_ok nl rs"
  shows "\<exists>L. set L = set (slots 0 rs) \<and>
    get_loop nl rs range_id cid ifname (new_iter nl rs range_id st) st =
      Some (alloc_first rs range_id cid ifname (filter (usable rs) L) st)"
proof -
  let ?S = "slots 0 rs"
  have "\<exists>y\<in>set ?S. iter_step nl rs (new_iter nl rs range_id st) = enter rs y (snd y)"
  proof (cases "\<exists>ip. last_reserved_ip range_id st = Some ip \<and> contains_ip nl rs ip")
    case True
    then obtain ip where ip: "last_reserved_ip range_id st = Some ip" "contains_ip nl rs ip" by blast
    then obtain i0 where "i0 < length rs" "range_contains nl (rs ! i0) ip"
      by (auto simp: contains_ip_def list_ex_iff in_set_conv_nth)
    then obtain i where f: "List.find (\<lambda>i. range_contains nl (rs ! i) ip) [0..<length rs] = Some i"
      by (cases "List.find (\<lambda>i. range_contains nl (rs ! i) ip) [0..<length rs]") (auto simp: find_None_iff)
    then have i: "i < length rs" "range_contains nl (rs ! i) ip" by (auto simp: find_Some_iff)
    then have x: "(i, ip) \<in> set ?S"
      using assms by (auto simp: slots_iff set_addrs set_ok_def range_ok_contains)
    then show ?thesis
      using ip f slot_succ_mem [OF assms x] iter_step_at(2) [OF assms x refl]
      by (intro bexI [of _ "slot_succ rs (i, ip)"]) (simp_all add: new_iter_def)
  next
    case False
    then have "new_iter nl rs range_id st = \<lparr>range_index = 0, cur = None, start_ip = range_start (rs ! 0)\<rparr>"
      by (auto simp: new_iter_def split: option.split)
    then show ?thesis using iter_step_start [OF assms] slots_cycle(1) [OF assms] by auto
  qed
  then obtain k where "k < length ?S" "iter_step nl rs (new_iter nl rs range_id st) = enter rs (?S ! k) (snd (?S ! k))"
    by (auto simp: in_set_conv_nth)
  then show ?thesis using get_loop_rotation [OF assms] rotated_chain(2) [OF assms] by blast
qed

section \<open>Properties\<close>

definition free_address :: "net_lib \<Rightarrow> range_set \<Rightarrow> ip_store \<Rightarrow> ip_range \<Rightarrow> u32 \<Rightarrow> bool" where
  "free_address nl rs st r a \<longleftrightarrow>
     r \<in> set rs \<and> range_contains nl r a \<and> gateway r \<noteq> Some a \<and> hm_get (ip_files st) a = None"

lemma free_address_slots:
  assumes "set_ok nl rs"
  shows "(\<exists>r. free_address nl rs st r a) \<longleftrightarrow>
    (\<exists>i. (i, a) \<in> set (slots 0 rs) \<and> usable rs (i, a) \<and> free_in st (i, a))"
proof -
  have iff: "range_contains nl (rs ! i) a \<longleftrightarrow> a \<in> set (addrs (rs ! i))" if "i < length rs" for i
    using assms that by (simp add: set_ok_def range_ok_contains set_addrs)
  have "(\<exists>r. free_address nl rs st r a) \<longleftrightarrow>
      (\<exists>i<length rs. range_contains nl (rs ! i) a \<and> gateway (rs ! i) \<noteq> Some a \<and> hm_get (ip_files st) a = None)"
    unfolding free_address_def by (auto simp: in_set_conv_nth)
  also have "\<dots> \<longleftrightarrow> (\<exists>i<length rs. a \<in> set (addrs (rs ! i)) \<and> gateway (rs ! i) \<noteq> Some a \<and> hm_get (ip_files st) a = None)"
    using iff by blast
  finally show ?thesis
    by (simp add: slots_iff usable_def free_in_def hm_contains_key_def conj_assoc)
qed

lemma find_mem: "List.find P xs = Some x \<Longrightarrow> x \<in> set xs \<and> P x"
  by (induction xs) (auto split: if_splits)

end
