(* ===== verification/Ipam_Commands.thy ===== *)
theory Ipam_Commands
  imports Ipam
begin

text \<open>
  The IPAM commands on a whole configuration, \<open>libnetwork/src/ipam/plugin.rs\<close>. The laws of the crate \<open>ipnetwork\<close> are stated
  for IPv4 masks, with an executable instance. A canonical range set whose ranges are in order is well-formed, so the
  allocation finds every free address of it; since \<open>load_ipam_netconf\<close> keeps the range sets apart, an \<open>ADD\<close> takes one address
  of each set or none, a \<open>DEL\<close> takes it back, and every sequence of the two keeps the addresses of the containers apart.
\<close>

unbundle bit_operations_syntax

section \<open>Masks\<close>

text \<open>What the crate promises for networks with a prefix of at most 32 bits.\<close>

definition ipv4_laws :: "net_lib \<Rightarrow> bool" where
  "ipv4_laws nl \<longleftrightarrow>
     (\<forall>net. net_prefix net \<le> 32 \<longrightarrow>
        nl_mask nl net = - (2 ^ (32 - net_prefix net)) \<and>
        nl_network nl net = net_ip net AND nl_mask nl net \<and>
        (\<forall>a. nl_contains nl net a \<longleftrightarrow> a AND nl_mask nl net = net_ip net AND nl_mask nl net) \<and>
        (\<forall>a. nl_with_netmask nl a (nl_mask nl net) = Some \<lparr>net_ip = a, net_prefix = net_prefix net\<rparr>))"

definition ipv4_mask :: "nat \<Rightarrow> u32" where
  "ipv4_mask p = - (2 ^ (32 - p))"

definition ipv4_lib :: net_lib where
  "ipv4_lib = \<lparr>
     nl_mask = (\<lambda>net. ipv4_mask (net_prefix net)),
     nl_network = (\<lambda>net. net_ip net AND ipv4_mask (net_prefix net)),
     nl_contains = (\<lambda>net a. a AND ipv4_mask (net_prefix net) = net_ip net AND ipv4_mask (net_prefix net)),
     nl_with_netmask = (\<lambda>a m. map_option (\<lambda>p. \<lparr>net_ip = a, net_prefix = p\<rparr>)
                                (List.find (\<lambda>p. ipv4_mask p = m) [0..<33]))\<rparr>"

lemma find_distinct_image: "distinct (map f xs) \<Longrightarrow> x \<in> set xs \<Longrightarrow> List.find (\<lambda>y. f y = f x) xs = Some x"
  by (induction xs) auto

lemma bit_ipv4_mask: "bit (ipv4_mask p) n \<longleftrightarrow> n < 32 \<and> 32 - p \<le> n"
  by (auto simp: ipv4_mask_def minus_exp_eq_not_mask bit_simps)

lemma ipv4_mask_inj:
  assumes "ipv4_mask p = ipv4_mask q" "p \<le> 32" "q \<le> 32"
  shows "p = q"
  using assms(2,3) arg_cong [OF assms(1), of "\<lambda>m. bit m (32 - p)"] arg_cong [OF assms(1), of "\<lambda>m. bit m (32 - q)"]
  by (cases "p = 0"; cases "q = 0") (auto simp: bit_ipv4_mask)

lemma distinct_ipv4_mask: "distinct (map ipv4_mask [0..<33])"
  by (simp only: distinct_map distinct_upt inj_on_def) (auto intro: ipv4_mask_inj)

lemma ipv4_laws_lib: "ipv4_laws ipv4_lib"
proof -
  have "List.find (\<lambda>p. ipv4_mask p = ipv4_mask q) [0..<33] = Some q" if "q \<le> 32" for q
    using that by (intro find_distinct_image [OF distinct_ipv4_mask]) auto
  then show ?thesis by (simp add: ipv4_laws_def ipv4_lib_def del: upt_rec_numeral) (simp add: ipv4_mask_def)
qed

lemma bit_and_neg_exp: "bit (a AND - (2 ^ k)) n \<longleftrightarrow> k \<le> n \<and> bit a n"
  for a :: u32
  using bit_imp_le_length [of a n] by (auto simp: minus_exp_eq_not_mask bit_simps)

lemma and_neg_exp_eq_iff: "a AND - (2 ^ k) = b AND - (2 ^ k) \<longleftrightarrow> drop_bit k a = drop_bit k b"
  for a b :: u32
proof
  assume eq: "a AND - (2 ^ k) = b AND - (2 ^ k)"
  show "drop_bit k a = drop_bit k b"
  proof (rule bit_eqI)
    fix n
    show "bit (drop_bit k a) n \<longleftrightarrow> bit (drop_bit k b) n"
      using arg_cong [OF eq, of "\<lambda>x. bit x (k + n)"] by (simp add: bit_and_neg_exp bit_drop_bit_eq)
  qed
next
  assume eq: "drop_bit k a = drop_bit k b"
  show "a AND - (2 ^ k) = b AND - (2 ^ k)"
  proof (rule bit_eqI)
    fix n
    show "bit (a AND - (2 ^ k)) n \<longleftrightarrow> bit (b AND - (2 ^ k)) n"
      using arg_cong [OF eq, of "\<lambda>x. bit x (n - k)"] by (auto simp: bit_and_neg_exp bit_drop_bit_eq)
  qed
qed

lemma drop_bit_between:
  fixes a s e :: u32
  assumes "s \<le> a" "a \<le> e" "drop_bit k s = drop_bit k e"
  shows "drop_bit k a = drop_bit k e"
proof -
  have "unat s div 2 ^ k = unat e div 2 ^ k"
    using arg_cong [OF assms(3), of unat] unfolding unat_drop_bit_eq by (simp add: drop_bit_eq_div)
  moreover have "unat s div 2 ^ k \<le> unat a div 2 ^ k" "unat a div 2 ^ k \<le> unat e div 2 ^ k"
    using assms(1,2) by (simp_all add: word_le_nat_alt div_le_mono)
  ultimately have "unat (drop_bit k a) = unat (drop_bit k e)"
    unfolding unat_drop_bit_eq by (simp add: drop_bit_eq_div)
  then show ?thesis unfolding word_unat_eq_iff .
qed

lemma ipv4_lawsD:
  assumes "ipv4_laws nl" "net_prefix net \<le> 32"
  shows "nl_mask nl net = - (2 ^ (32 - net_prefix net))"
    "nl_network nl net = net_ip net AND - (2 ^ (32 - net_prefix net))"
    "nl_contains nl net a \<longleftrightarrow> drop_bit (32 - net_prefix net) a = drop_bit (32 - net_prefix net) (net_ip net)"
    "nl_with_netmask nl a (nl_mask nl net) = Some \<lparr>net_ip = a, net_prefix = net_prefix net\<rparr>"
  using assms by (auto simp: ipv4_laws_def and_neg_exp_eq_iff)

text \<open>The last address of a network has all host bits set but the lowest.\<close>

lemma last_octet:
  fixes x :: u32
  assumes "bit x 0"
  shows "(x AND NOT 0xff) OR ucast ((ucast x :: u8) - 1) = x AND NOT 1"
proof -
  have octet: "(ucast x :: u8) - 1 = ucast x AND NOT 1"
    using assms by (intro disjunctive_diff) (auto simp: bit_simps bit_1_iff)
  have low: "(0xff :: u32) = mask 8" by (simp add: mask_eq_exp_minus_1)
  show ?thesis
    unfolding octet low by (rule bit_word_eqI) (auto simp: bit_simps bit_1_iff)
qed

lemma last_ip_eq:
  assumes "ipv4_laws nl" "net_prefix net \<le> 30"
  shows "last_ip nl net = (net_ip net OR mask (32 - net_prefix net)) AND NOT 1"
proof -
  have "NOT (nl_mask nl net) = mask (32 - net_prefix net)"
    using assms by (simp add: ipv4_lawsD(1) minus_exp_eq_not_mask)
  moreover have "bit (net_ip net OR mask (32 - net_prefix net)) 0"
    using assms(2) by (simp add: bit_simps)
  ultimately show ?thesis by (simp only: last_ip_def Let_def last_octet)
qed

lemma network_bounds:
  assumes "ipv4_laws nl" "net_prefix net \<le> 30" "net_ip net = nl_network nl net"
  shows "next_ip (net_ip net) = Some (net_ip net + 1)" "net_ip net + 1 \<le> last_ip nl net"
    "nl_contains nl net (net_ip net + 1)" "nl_contains nl net (last_ip nl net)"
proof -
  let ?k = "32 - net_prefix net"
  have k: "2 \<le> ?k" "?k \<le> 32" using assms(2) by auto
  have base: "net_ip net AND - (2 ^ ?k) = net_ip net"
    using assms by (simp add: ipv4_lawsD(2))
  have last: "last_ip nl net = (net_ip net OR mask ?k) AND NOT 1"
    using last_ip_eq [OF assms(1,2)] .
  have masked: "last_ip nl net AND - (2 ^ ?k) = net_ip net AND - (2 ^ ?k)"
    unfolding last using k(1) by (intro bit_eqI) (simp only: bit_and_neg_exp, auto simp: bit_simps bit_1_iff)
  have "net_ip net \<le> last_ip nl net"
    using word_and_le2 [of "last_ip nl net" "- (2 ^ ?k)"] masked base by simp
  moreover have "bit (last_ip nl net) 1" "\<not> bit (net_ip net) 1"
    using k unfolding last by (auto simp: bit_simps bit_1_iff) (metis base bit_and_neg_exp not_less_eq_eq numeral_2_eq_2 One_nat_def)
  ultimately have lt: "net_ip net < last_ip nl net" by (metis order_le_less)
  then show le: "net_ip net + 1 \<le> last_ip nl net" by (rule inc_le)
  show "next_ip (net_ip net) = Some (net_ip net + 1)"
    using lt by (auto simp: next_ip_def)
  show "nl_contains nl net (last_ip nl net)"
    using assms masked by (simp add: ipv4_lawsD(3) and_neg_exp_eq_iff)
  moreover have "net_ip net \<le> net_ip net + 1"
    using lt by unat_arith
  ultimately show "nl_contains nl net (net_ip net + 1)"
    using assms(1,2) drop_bit_between [OF _ le, of "net_ip net" ?k] by (simp add: ipv4_lawsD(3))
qed

section \<open>Canonical ranges\<close>

definition in_order :: "ip_range \<Rightarrow> bool" where
  "in_order r \<longleftrightarrow>
     (case (range_start r, range_end r) of (Some s, Some e) \<Rightarrow> s \<le> e | _ \<Rightarrow> True)"

text \<open>What \<open>canonicalize\<close> establishes: the network has room, and the ends and the gateway are given, the ends inside it.\<close>

definition canonical :: "net_lib \<Rightarrow> ip_range \<Rightarrow> bool" where
  "canonical nl r \<longleftrightarrow>
     net_prefix (subnet r) \<le> 30 \<and> net_ip (subnet r) = nl_network nl (subnet r) \<and> gateway r \<noteq> None \<and>
     (\<exists>s e. range_start r = Some s \<and> range_end r = Some e \<and>
        nl_contains nl (subnet r) s \<and> nl_contains nl (subnet r) e)"

lemma range_canonicalize_canonical:
  assumes "ipv4_laws nl" "range_canonicalize nl r = Inr r'"
  shows "canonical nl r'"
proof -
  have net: "net_prefix (subnet r) \<le> 30" "net_ip (subnet r) = nl_network nl (subnet r)"
    using assms(2) by (auto simp: range_canonicalize_def split: if_splits)
  note b = network_bounds [OF assms(1) net]
  show ?thesis
    using assms(2) net b(1,3,4)
    by (auto simp: range_canonicalize_def canonical_def Let_def split: if_splits option.splits sum.splits)
qed

lemma canonical_fixed: "canonical nl r \<Longrightarrow> range_canonicalize nl r = Inr r"
  by (auto simp: range_canonicalize_def canonical_def)

lemma canonical_range_ok:
  assumes "ipv4_laws nl" "canonical nl r"
  shows "range_ok nl r \<longleftrightarrow> in_order r"
proof -
  obtain s e g where r: "range_start r = Some s" "range_end r = Some e" "gateway r = Some g"
    "net_prefix (subnet r) \<le> 32" "nl_contains nl (subnet r) s" "nl_contains nl (subnet r) e"
    using assms(2) by (auto simp: canonical_def)
  have "nl_contains nl (subnet r) a" if "s \<le> a" "a \<le> e" for a
    using r(4-6) drop_bit_between [OF that] by (simp add: ipv4_lawsD(3) [OF assms(1)])
  then show ?thesis
    using r(1-4) by (auto simp: range_ok_def in_order_def ipv4_lawsD(4) [OF assms(1)])
qed

lemma canonicalize_all_canonical:
  "canonicalize_all nl rs = Inr rs' \<Longrightarrow> ipv4_laws nl \<Longrightarrow> list_all (canonical nl) rs'"
  by (induction rs arbitrary: rs') (auto split: sum.splits dest: range_canonicalize_canonical)

lemma canonicalize_all_fixed: "list_all (canonical nl) rs \<Longrightarrow> canonicalize_all nl rs = Inr rs"
  by (induction rs) (auto simp: canonical_fixed)

lemma canonicalize_all_length: "canonicalize_all nl rs = Inr rs' \<Longrightarrow> length rs' = length rs"
  by (induction rs arbitrary: rs') (auto split: sum.splits)

lemma range_overlap_sym: "range_overlap r1 r2 = range_overlap r2 r1"
  by (auto simp: range_overlap_def split: option.splits)

lemma index_pairs_iff: "(i, j) \<in> set (index_pairs n) \<longleftrightarrow> i < j \<and> j < n"
  by (auto simp: index_pairs_def intro: bexI [of _ i])

text \<open>The two loops over the pairs look at every pair once, up to the order.\<close>

lemma no_pair_found:
  assumes "List.find (\<lambda>(i, j). P (xs ! i) (xs ! j)) (index_pairs (length xs)) = None" "\<And>x y. P x y = P y x"
    "i < length xs" "j < length xs" "i \<noteq> j"
  shows "\<not> P (xs ! i) (xs ! j)"
proof (cases "i < j")
  case True
  then have "(i, j) \<in> set (index_pairs (length xs))" using assms(4) by (simp add: index_pairs_iff)
  then show ?thesis using assms(1) by (auto simp: find_None_iff)
next
  case False
  then have "(j, i) \<in> set (index_pairs (length xs))" using assms(3,5) by (simp add: index_pairs_iff)
  then show ?thesis using assms(1,2) by (auto simp: find_None_iff)
qed

lemma set_canonicalizeD:
  assumes "set_canonicalize nl rs = Inr rs'" "ipv4_laws nl"
  shows "rs' \<noteq> []" "list_all (canonical nl) rs'" "set_canonicalize nl rs' = Inr rs'"
    "\<And>i j. i < length rs' \<Longrightarrow> j < length rs' \<Longrightarrow> i \<noteq> j \<Longrightarrow> \<not> range_overlap (rs' ! i) (rs' ! j)"
proof -
  have c: "rs \<noteq> []" "canonicalize_all nl rs = Inr rs'"
    "List.find (\<lambda>(i, j). range_overlap (rs' ! i) (rs' ! j)) (index_pairs (length rs')) = None"
    using assms(1) by (auto simp: set_canonicalize_def split: if_splits sum.splits option.splits)
  show "rs' \<noteq> []" using c(1) canonicalize_all_length [OF c(2)] by auto
  show "list_all (canonical nl) rs'" using canonicalize_all_canonical [OF c(2) assms(2)] .
  then show "set_canonicalize nl rs' = Inr rs'"
    using \<open>rs' \<noteq> []\<close> c(3) by (simp add: set_canonicalize_def canonicalize_all_fixed)
  show "\<not> range_overlap (rs' ! i) (rs' ! j)" if "i < length rs'" "j < length rs'" "i \<noteq> j" for i j
    using no_pair_found [OF c(3) range_overlap_sym that] .
qed

lemma canonicalize_set_ok:
  assumes "ipv4_laws nl" "set_canonicalize nl rs = Inr rs'"
  shows "set_ok nl rs' \<longleftrightarrow> list_all in_order rs'"
  using set_canonicalizeD [OF assms(2,1)] canonical_range_ok [OF assms(1)]
  by (auto simp: set_ok_def list_all_iff)

text \<open>
  C21: Type of a canonical range set. When a range set passes \<open>canonicalize\<close>, canonicalising the result once more changes
  nothing, and the result is a well-formed range set (every range has its ends and a gateway, lies inside its
  network, and the ranges are disjoint) exactly when no range has its start behind its end: the order of the ends is the one
  thing that \<open>canonicalize\<close> does not look at.
\<close>

theorem canonical_set_ok:
  assumes "ipv4_laws nl" "set_canonicalize nl rs = Inr rs'"
  shows "set_canonicalize nl rs' = Inr rs' \<and> (set_ok nl rs' \<longleftrightarrow> list_all in_order rs')"
  using set_canonicalizeD(3) [OF assms(2,1)] canonicalize_set_ok [OF assms] by simp

definition ex_range :: ip_range where
  "ex_range = \<lparr>range_start = None, range_end = None,
     subnet = \<lparr>net_ip = 0x0A010200, net_prefix = 29\<rparr>, gateway = None\<rparr>"

definition ex_canon :: ip_range where
  "ex_canon = \<lparr>range_start = Some 0x0A010201, range_end = Some 0x0A010206,
     subnet = \<lparr>net_ip = 0x0A010200, net_prefix = 29\<rparr>, gateway = Some 0x0A010201\<rparr>"

lemma ex_canonicalize: "set_canonicalize ipv4_lib [ex_range] = Inr [ex_canon]"
  by code_simp

theorem canonical_set_ok_witness: "set_ok ipv4_lib [ex_canon]"
  using canonical_set_ok [OF ipv4_laws_lib ex_canonicalize] by (simp add: in_order_def ex_canon_def)

section \<open>Allocation from one range set\<close>

lemma get_spec:
  assumes "set_ok nl rs" "\<not> list_ex (contains_ip nl rs) (get_by_id cid ifname st)"
  shows "if \<exists>r a. free_address nl rs st r a
    then \<exists>r net gw st'. get nl rs range_id cid ifname None st = Some (GetIp net gw, st') \<and>
      free_address nl rs st r (net_ip net) \<and> gateway r = Some gw \<and> net_prefix net = net_prefix (subnet r) \<and>
      ip_files st' = hm_insert (net_ip net) (owner_text cid ifname) (ip_files st)
    else get nl rs range_id cid ifname None st = Some (GetError NoAddresses, st)"
proof -
  have "List.find (contains_ip nl rs) (get_by_id cid ifname st) = None"
    using assms(2) by (simp add: find_None_iff list_ex_iff)
  then obtain L where L: "set L = set (slots 0 rs)"
    "get nl rs range_id cid ifname None st = Some (alloc_first rs range_id cid ifname (filter (usable rs) L) st)"
    using get_loop_new_iter [OF assms(1), of range_id cid ifname st] assms(1) by (auto simp: get_def set_ok_def)
  show ?thesis
  proof (cases "List.find (free_in st) (filter (usable rs) L)")
    case None
    then have "\<not> free_in st x" if "x \<in> set (slots 0 rs)" "usable rs x" for x
      using that by (cases x) (auto simp: find_None_iff L(1))
    then have "\<not> (\<exists>r a. free_address nl rs st r a)"
      using free_address_slots [OF assms(1)] by blast
    then show ?thesis using None L(2) by (simp add: alloc_first_def)
  next
    case (Some x)
    then have x: "x \<in> set (slots 0 rs)" "usable rs x" "free_in st x"
      using find_mem [OF Some] L(1) by auto
    have free: "free_address nl rs st (rs ! fst x) (snd x)" and "gateway (rs ! fst x) = Some (slot_gw rs x)"
      using x slot_ok [OF assms(1) x(1)]
      by (auto simp: free_address_def range_ok_contains usable_def free_in_def hm_contains_key_def slot_gw_def range_ok_def)
    moreover have "get nl rs range_id cid ifname None st =
        Some (GetIp (slot_net rs x) (slot_gw rs x), snd (reserve cid ifname (snd x) range_id st))"
      using Some L(2) by (simp add: alloc_first_def)
    moreover have "ip_files (snd (reserve cid ifname (snd x) range_id st)) =
        hm_insert (snd x) (owner_text cid ifname) (ip_files st)"
      using x(3) by (simp add: reserve_def free_in_def)
    ultimately have "\<exists>r net gw st'. get nl rs range_id cid ifname None st = Some (GetIp net gw, st') \<and>
      free_address nl rs st r (net_ip net) \<and> gateway r = Some gw \<and> net_prefix net = net_prefix (subnet r) \<and>
      ip_files st' = hm_insert (net_ip net) (owner_text cid ifname) (ip_files st)"
      by (intro exI [of _ "rs ! fst x"] exI conjI) (assumption | simp add: slot_net_def)+
    moreover have "\<exists>r a. free_address nl rs st r a" using free by blast
    ultimately show ?thesis by (simp only: if_True simp_thms)
  qed
qed

text \<open>
  C11: For a set of disjoint ranges and a container that holds no address of it, an allocation without a requested
  address always ends, and it succeeds exactly when some address is free: inside a range, not the gateway of that range and
  not reserved. The address it returns is such an address, together with the gateway of its range, and it is now reserved
  for the container, all else unchanged. Otherwise it answers that there are no addresses and changes nothing.
\<close>

theorem get_finds_free_address:
  assumes "set_ok nl rs" "\<not> list_ex (contains_ip nl rs) (get_by_id cid ifname st)"
  shows "if \<exists>r a. free_address nl rs st r a
    then \<exists>r net gw st'. get nl rs range_id cid ifname None st = Some (GetIp net gw, st') \<and>
      free_address nl rs st r (net_ip net) \<and> gateway r = Some gw \<and> net_prefix net = net_prefix (subnet r) \<and>
      ip_files st' = hm_insert (net_ip net) (owner_text cid ifname) (ip_files st)
    else get nl rs range_id cid ifname None st = Some (GetError NoAddresses, st)"
  using get_spec [OF assms] .

definition ex_store :: ip_store where
  "ex_store = \<lparr>ip_files = [(0x0A010202, ''c0'' @ LINE_BREAK @ ''eth0'')], last_files = [(''0'', 0x0A010202)]\<rparr>"

lemma ex_canon_ok: "set_ok ipv4_lib [ex_canon]"
  using canonicalize_set_ok [OF ipv4_laws_lib ex_canonicalize] by (simp add: in_order_def ex_canon_def)

lemma ex_free: "free_address ipv4_lib [ex_canon] ex_store ex_canon 0x0A010203"
  unfolding free_address_def by (intro conjI; code_simp)

theorem get_finds_free_address_witness:
  "\<exists>net gw st'. get ipv4_lib [ex_canon] ''0'' ''c1'' ''eth0'' None ex_store = Some (GetIp net gw, st')"
proof -
  have "\<not> list_ex (contains_ip ipv4_lib [ex_canon]) (get_by_id ''c1'' ''eth0'' ex_store)"
    by code_simp
  from get_finds_free_address [OF ex_canon_ok this, of "''0''"] show ?thesis
    using ex_free by (auto split: if_splits)
qed

section \<open>The commands\<close>

text \<open>The range sets of a loaded configuration are well-formed and pairwise disjoint.\<close>

definition config_ok :: "net_lib \<Rightarrow> range_set list \<Rightarrow> bool" where
  "config_ok nl rss \<longleftrightarrow>
     (\<forall>rs\<in>set rss. set_ok nl rs) \<and>
     sorted_wrt (\<lambda>rs1 rs2. \<forall>a. \<not> (contains_ip nl rs1 a \<and> contains_ip nl rs2 a)) rss"

lemma load_sets_canonical:
  "load_sets nl ranges = Inr rss \<Longrightarrow> ipv4_laws nl \<Longrightarrow> list_all (list_all in_order) rss
     \<Longrightarrow> \<forall>rs\<in>set rss. set_ok nl rs"
  by (induction ranges arbitrary: rss) (auto simp: canonicalize_set_ok split: sum.splits)

lemma set_overlap_sym: "set_overlap rs1 rs2 = set_overlap rs2 rs1"
  unfolding set_overlap_def list_ex_iff using range_overlap_sym by blast

lemma contains_ip_overlap:
  assumes "set_ok nl rs1" "set_ok nl rs2" "contains_ip nl rs1 a" "contains_ip nl rs2 a"
  shows "set_overlap rs1 rs2"
proof -
  obtain r1 r2 where r: "r1 \<in> set rs1" "r2 \<in> set rs2" "range_contains nl r1 a" "range_contains nl r2 a"
    using assms(3,4) by (auto simp: contains_ip_def list_ex_iff)
  then have "range_ok nl r1" "range_ok nl r2" using assms(1,2) by (auto simp: set_ok_def)
  then have "range_overlap r1 r2"
    using r(3,4) by (auto simp: range_ok_def range_contains_def range_overlap_def intro: order_trans)
  then show ?thesis using r(1,2) by (auto simp: set_overlap_def list_ex_iff)
qed

lemma load_config_ok:
  assumes "ipv4_laws nl" "load_ipam_netconf nl ranges = Inr rss" "list_all (list_all in_order) rss"
  shows "config_ok nl rss"
proof -
  have l: "load_sets nl ranges = Inr rss"
    "List.find (\<lambda>(i, j). set_overlap (rss ! i) (rss ! j)) (index_pairs (length rss)) = None"
    using assms(2) by (auto simp: load_ipam_netconf_def split: if_splits sum.splits option.splits)
  have ok: "\<forall>rs\<in>set rss. set_ok nl rs" using load_sets_canonical [OF l(1) assms(1,3)] .
  have "\<not> (contains_ip nl (rss ! i) a \<and> contains_ip nl (rss ! j) a)" if "i < j" "j < length rss" for i j a
    using no_pair_found [OF l(2) set_overlap_sym, of i j] contains_ip_overlap [of nl "rss ! i" "rss ! j" a] ok that
    by (auto dest: nth_mem)
  then show ?thesis
    using ok by (auto simp: config_ok_def sorted_wrt_iff_nth_less)
qed

lemma hm_insert_fresh: "hm_get m k = None \<Longrightarrow> hm_insert k v m = m @ [(k, v)]"
  by (induction m) (auto simp: hm_get_def hm_insert_def split: if_splits)

abbreviation not_owned :: "string \<Rightarrow> string \<Rightarrow> u32 \<times> string \<Rightarrow> bool" where
  "not_owned cid ifname \<equiv> \<lambda>(ip, data). trim data \<noteq> owner_text cid ifname"

lemma release_files: "ip_files (release cid ifname st) = filter (not_owned cid ifname) (ip_files st)"
  by (simp add: release_def release_by_id_def)

lemma releases_files:
  "ip_files ((release cid ifname ^^ n) st) =
     (if n = 0 then ip_files st else filter (not_owned cid ifname) (ip_files st))"
  by (induction n) (auto simp: release_files)

lemma get_by_id_Nil: "get_by_id cid ifname st = [] \<longleftrightarrow> filter (not_owned cid ifname) (ip_files st) = ip_files st"
  by (auto simp: get_by_id_def filter_empty_conv filter_id_conv)

definition free_for :: "net_lib \<Rightarrow> ip_store \<Rightarrow> range_set \<Rightarrow> ip_network \<times> u32 \<Rightarrow> bool" where
  "free_for nl st rs = (\<lambda>(net, gw). \<exists>r. free_address nl rs st r (net_ip net) \<and> gateway r = Some gw \<and>
     net_prefix net = net_prefix (subnet r))"

definition has_free :: "net_lib \<Rightarrow> ip_store \<Rightarrow> range_set \<Rightarrow> bool" where
  "has_free nl st rs \<longleftrightarrow> (\<exists>r a. free_address nl rs st r a)"

lemma free_address_contains: "free_address nl rs st r a \<Longrightarrow> contains_ip nl rs a"
  by (auto simp: free_address_def contains_ip_def list_ex_iff)

abbreviation holds :: "net_lib \<Rightarrow> string \<Rightarrow> string \<Rightarrow> ip_store \<Rightarrow> range_set \<Rightarrow> bool" where
  "holds nl cid ifname st rs \<equiv> list_ex (contains_ip nl rs) (get_by_id cid ifname st)"

text \<open>An allocation appends one file, of a free address, or leaves the store as it is.\<close>

lemma get_outcomes:
  assumes "set_ok nl rs"
  shows "holds nl cid ifname st rs \<Longrightarrow>
      \<exists>ip. get nl rs range_id cid ifname None st = Some (GetError (DuplicateAllocation ip), st)"
    and "\<not> holds nl cid ifname st rs \<Longrightarrow> \<not> has_free nl st rs \<Longrightarrow>
      get nl rs range_id cid ifname None st = Some (GetError NoAddresses, st)"
    and "\<not> holds nl cid ifname st rs \<Longrightarrow> has_free nl st rs \<Longrightarrow>
      \<exists>net gw st'. get nl rs range_id cid ifname None st = Some (GetIp net gw, st') \<and> free_for nl st rs (net, gw) \<and>
        ip_files st' = ip_files st @ [(net_ip net, owner_text cid ifname)]"
proof -
  show "\<exists>ip. get nl rs range_id cid ifname None st = Some (GetError (DuplicateAllocation ip), st)" if "holds nl cid ifname st rs"
    using that by (cases "List.find (contains_ip nl rs) (get_by_id cid ifname st)")
      (auto simp: get_def find_None_iff list_ex_iff)
  show "get nl rs range_id cid ifname None st = Some (GetError NoAddresses, st)" if "\<not> holds nl cid ifname st rs" "\<not> has_free nl st rs"
    using get_spec [OF assms that(1), of range_id] that(2) unfolding has_free_def by (simp only: if_False)
  show "\<exists>net gw st'. get nl rs range_id cid ifname None st = Some (GetIp net gw, st') \<and> free_for nl st rs (net, gw) \<and>
        ip_files st' = ip_files st @ [(net_ip net, owner_text cid ifname)]" if "\<not> holds nl cid ifname st rs" "has_free nl st rs"
  proof -
    note c = that
    obtain r net gw st' where g: "get nl rs range_id cid ifname None st = Some (GetIp net gw, st')"
      "free_address nl rs st r (net_ip net)" "gateway r = Some gw" "net_prefix net = net_prefix (subnet r)"
      "ip_files st' = hm_insert (net_ip net) (owner_text cid ifname) (ip_files st)"
      using get_spec [OF assms c(1), of range_id] c(2) unfolding has_free_def by (simp only: if_True) blast
    moreover have "hm_get (ip_files st) (net_ip net) = None" using g(2) by (simp add: free_address_def)
    ultimately show ?thesis by (auto simp: free_for_def hm_insert_fresh)
  qed
qed

text \<open>An address taken in one range set is not of another one, so it changes nothing there.\<close>

lemma taken_elsewhere:
  assumes "ip_files st' = ip_files st @ [(a, data)]" "\<not> contains_ip nl rs a"
  shows "free_address nl rs st' r b = free_address nl rs st r b" "holds nl cid ifname st' rs = holds nl cid ifname st rs"
proof -
  have "hm_get (ip_files st') b = hm_get (ip_files st) b" if "contains_ip nl rs b" for b
    using assms that by (auto simp: hm_get_def map_of_append map_add_def split: option.split)
  then show "free_address nl rs st' r b = free_address nl rs st r b"
    using free_address_contains [of nl rs _ r b] by (cases "contains_ip nl rs b") (auto simp: free_address_def)
  show "holds nl cid ifname st' rs = holds nl cid ifname st rs"
    using assms by (auto simp: get_by_id_def list_ex_iff)
qed

lemma add_loop_spec:
  assumes "config_ok nl (map snd todo)" "\<forall>rs\<in>set (map snd todo). \<not> holds nl cid ifname st rs"
    and "trim (owner_text cid ifname) = owner_text cid ifname" "n = 0 \<longrightarrow> get_by_id cid ifname st = []"
  shows "if list_all (has_free nl st) (map snd todo)
    then \<exists>new st'. add_loop nl cid ifname todo n ips st = Some (AddOk (ips @ new), st') \<and>
      list_all2 (free_for nl st) (map snd todo) new \<and>
      ip_files st' = ip_files st @ map (\<lambda>(net, gw). (net_ip net, owner_text cid ifname)) new
    else \<exists>st'. add_loop nl cid ifname todo n ips st = Some (AddError NoAddresses, st') \<and>
      ip_files st' = filter (not_owned cid ifname) (ip_files st)"
  using assms
proof (induction todo arbitrary: n ips st)
  case (Cons ir todo)
  obtain i rs where ir: "ir = (i, rs)" by force
  have ok: "set_ok nl rs" "config_ok nl (map snd todo)"
    and apart: "\<And>rs' a. rs' \<in> set (map snd todo) \<Longrightarrow> contains_ip nl rs a \<Longrightarrow> \<not> contains_ip nl rs' a"
    using Cons.prems(1) by (auto simp: config_ok_def ir)
  have free: "\<not> holds nl cid ifname st rs" using Cons.prems(2) by (simp add: ir)
  show ?case
  proof (cases "has_free nl st rs")
    case False
    then have "add_loop nl cid ifname (ir # todo) n ips st = Some (AddError NoAddresses, (release cid ifname ^^ n) st)"
      using get_outcomes(2) [OF ok(1) free] by (simp add: ir)
    moreover have "ip_files ((release cid ifname ^^ n) st) = filter (not_owned cid ifname) (ip_files st)"
      using Cons.prems(4) by (simp add: releases_files get_by_id_Nil)
    ultimately show ?thesis using False by (simp add: ir)
  next
    case True
    then obtain net gw st1 where g: "get nl rs (show_nat i) cid ifname None st = Some (GetIp net gw, st1)"
      "free_for nl st rs (net, gw)" "ip_files st1 = ip_files st @ [(net_ip net, owner_text cid ifname)]"
      using get_outcomes(3) [OF ok(1) free] by blast
    have out: "\<not> contains_ip nl rs' (net_ip net)" if "rs' \<in> set (map snd todo)" for rs'
      using g(2) apart [OF that] free_address_contains by (auto simp: free_for_def)
    have kept: "has_free nl st1 rs' = has_free nl st rs'" "free_for nl st1 rs' = free_for nl st rs'"
      "holds nl cid ifname st1 rs' = holds nl cid ifname st rs'" if "rs' \<in> set (map snd todo)" for rs'
      using taken_elsewhere [OF g(3) out [OF that]] by (simp_all add: has_free_def free_for_def)
    have step: "add_loop nl cid ifname (ir # todo) n ips st = add_loop nl cid ifname todo (Suc n) (ips @ [(net, gw)]) st1"
      using g(1) by (simp add: ir)
    have "list_all (has_free nl st1) (map snd todo) = list_all (has_free nl st) (map snd todo)"
      using kept(1) by (simp add: list_all_iff)
    moreover have "list_all2 (free_for nl st1) (map snd todo) new = list_all2 (free_for nl st) (map snd todo) new" for new
      using kept(2) by (intro list.rel_cong) simp_all
    moreover have "filter (not_owned cid ifname) (ip_files st1) = filter (not_owned cid ifname) (ip_files st)"
      using Cons.prems(3) by (simp add: g(3))
    ultimately show ?thesis
      using Cons.IH [OF ok(2) _ Cons.prems(3), of st1 "Suc n" "ips @ [(net, gw)]"] Cons.prems(2) kept(3) True g(2,3)
      unfolding step by (auto simp: ir split: if_splits)
  qed
qed auto

lemma cmd_add_spec:
  assumes "config_ok nl rss" "load_ipam_netconf nl ranges = Inr rss"
    and "trim (owner_text cid ifname) = owner_text cid ifname" "get_by_id cid ifname st = []"
  shows "if list_all (has_free nl st) rss
    then \<exists>ips st'. cmd_add nl ranges cid ifname st = Some (AddOk ips, st') \<and> list_all2 (free_for nl st) rss ips \<and>
      ip_files st' = ip_files st @ map (\<lambda>(net, gw). (net_ip net, owner_text cid ifname)) ips
    else \<exists>st'. cmd_add nl ranges cid ifname st = Some (AddError NoAddresses, st') \<and> ip_files st' = ip_files st"
  using add_loop_spec [of nl "enumerate 0 rss" cid ifname st 0 "[]"] assms
  by (auto simp: cmd_add_def get_by_id_Nil split: if_splits)

text \<open>
  C12: All or nothing. For a loaded configuration with every range in order and a container that holds no address, an
  \<open>ADD\<close> always ends. If every range set has a free address, it succeeds with one free address of each range set, in
  their order, each with the gateway and the prefix of its range, and these addresses are the only new files of the store.
  If some range set has none, it fails, and the store holds exactly the files it held before: what was taken
  from the earlier range sets has been given back.
\<close>

theorem cmd_add_all_or_nothing:
  assumes "ipv4_laws nl" "load_ipam_netconf nl ranges = Inr rss" "list_all (list_all in_order) rss"
    and "trim (owner_text cid ifname) = owner_text cid ifname" "get_by_id cid ifname st = []"
  shows "if list_all (has_free nl st) rss
    then \<exists>ips st'. cmd_add nl ranges cid ifname st = Some (AddOk ips, st') \<and> list_all2 (free_for nl st) rss ips \<and>
      ip_files st' = ip_files st @ map (\<lambda>(net, gw). (net_ip net, owner_text cid ifname)) ips
    else \<exists>st'. cmd_add nl ranges cid ifname st = Some (AddError NoAddresses, st') \<and> ip_files st' = ip_files st"
  using cmd_add_spec [OF load_config_ok [OF assms(1-3)] assms(2,4,5)] .

lemma ex_load: "load_ipam_netconf ipv4_lib [[ex_range]] = Inr [[ex_canon]]"
  by code_simp

lemma ex_container:
  "trim (owner_text ''c1'' ''eth0'') = owner_text ''c1'' ''eth0''" "get_by_id ''c1'' ''eth0'' ex_store = []"
  by code_simp+

lemma ex_order: "list_all (list_all in_order) [[ex_canon]]"
  by (simp add: in_order_def ex_canon_def)

lemma ex_has_free: "list_all (has_free ipv4_lib ex_store) [[ex_canon]]"
  using ex_free by (auto simp: has_free_def)

theorem cmd_add_all_or_nothing_witness:
  "\<exists>ip st'. cmd_add ipv4_lib [[ex_range]] ''c1'' ''eth0'' ex_store = Some (AddOk [ip], st') \<and>
     free_for ipv4_lib ex_store [ex_canon] ip"
  using cmd_add_all_or_nothing [OF ipv4_laws_lib ex_load ex_order ex_container] ex_has_free
  by (auto simp: list_all2_Cons1)

section \<open>Releasing\<close>

lemma fold_release:
  "xs \<noteq> [] \<Longrightarrow> ip_files (fold (\<lambda>_. release cid ifname) xs st) = filter (not_owned cid ifname) (ip_files st)"
  by (induction xs arbitrary: st rule: list_nonempty_induct) (simp_all add: release_files)

lemma cmd_del_files:
  assumes "load_ipam_netconf nl ranges = Inr rss"
  shows "\<exists>st'. cmd_del nl ranges cid ifname st = (Inr (), st') \<and>
    ip_files st' = filter (not_owned cid ifname) (ip_files st)"
proof -
  have "length rss = length ranges" if "load_sets nl ranges = Inr rss" for ranges rss
    using that by (induction ranges arbitrary: rss) (auto split: sum.splits)
  then have "rss \<noteq> []"
    using assms by (fastforce simp: load_ipam_netconf_def split: if_splits sum.splits option.splits)
  then show ?thesis using assms by (simp add: cmd_del_def fold_release)
qed

text \<open>
  C22: Round trip of \<open>ADD\<close> and \<open>DEL\<close>. When the \<open>ADD\<close> of a container that held no address has succeeded, its \<open>DEL\<close>
  succeeds and leaves exactly the files that were there before the \<open>ADD\<close>.
\<close>

theorem add_del_roundtrip:
  assumes "ipv4_laws nl" "load_ipam_netconf nl ranges = Inr rss" "list_all (list_all in_order) rss"
    and "trim (owner_text cid ifname) = owner_text cid ifname" "get_by_id cid ifname st = []"
    and "cmd_add nl ranges cid ifname st = Some (AddOk ips, st1)"
  shows "\<exists>st2. cmd_del nl ranges cid ifname st1 = (Inr (), st2) \<and> ip_files st2 = ip_files st"
proof -
  have "ip_files st1 = ip_files st @ map (\<lambda>(net, gw). (net_ip net, owner_text cid ifname)) ips"
    using cmd_add_spec [OF load_config_ok [OF assms(1-3)] assms(2,4,5)] assms(6) by (auto split: if_splits)
  moreover have "filter (not_owned cid ifname) (map (\<lambda>(net, gw). (net_ip net, owner_text cid ifname)) ips) = []"
    using assms(4) by (auto simp: filter_empty_conv)
  ultimately have "filter (not_owned cid ifname) (ip_files st1) = ip_files st"
    using assms(5) by (simp add: get_by_id_Nil)
  then show ?thesis using cmd_del_files [OF assms(2), of cid ifname st1] by auto
qed

theorem add_del_roundtrip_witness:
  "\<exists>ip st1 st2. cmd_add ipv4_lib [[ex_range]] ''c1'' ''eth0'' ex_store = Some (AddOk [ip], st1) \<and>
     cmd_del ipv4_lib [[ex_range]] ''c1'' ''eth0'' st1 = (Inr (), st2) \<and> ip_files st2 = ip_files ex_store"
proof -
  obtain ip st1 where "cmd_add ipv4_lib [[ex_range]] ''c1'' ''eth0'' ex_store = Some (AddOk [ip], st1)"
    using cmd_add_spec [OF load_config_ok [OF ipv4_laws_lib ex_load ex_order] ex_load ex_container] ex_has_free
    by (auto simp: list_all2_Cons1)
  then show ?thesis
    using add_del_roundtrip [OF ipv4_laws_lib ex_load ex_order ex_container] by blast
qed

section \<open>Sequences of commands\<close>

text \<open>The store after any sequence of commands of one configuration, starting with an empty directory.\<close>

inductive ipam_step :: "net_lib \<Rightarrow> range_set list \<Rightarrow> ip_store \<Rightarrow> ip_store \<Rightarrow> bool" for nl ranges where
  Add: "trim (owner_text cid ifname) = owner_text cid ifname \<Longrightarrow>
    cmd_add nl ranges cid ifname st = Some (out, st') \<Longrightarrow> ipam_step nl ranges st st'"
| Del: "cmd_del nl ranges cid ifname st = (out, st') \<Longrightarrow> ipam_step nl ranges st st'"

inductive ipam_reachable :: "net_lib \<Rightarrow> range_set list \<Rightarrow> ip_store \<Rightarrow> bool" for nl ranges where
  Init: "ipam_reachable nl ranges \<lparr>ip_files = [], last_files = []\<rparr>"
| Step: "ipam_reachable nl ranges st \<Longrightarrow> ipam_step nl ranges st st' \<Longrightarrow> ipam_reachable nl ranges st'"

definition leases_ok :: "net_lib \<Rightarrow> range_set list \<Rightarrow> ip_store \<Rightarrow> bool" where
  "leases_ok nl rss st \<longleftrightarrow>
     hm_wf (ip_files st) \<and>
     (\<forall>a data. (a, data) \<in> set (ip_files st) \<longrightarrow>
        (\<exists>rs\<in>set rss. \<exists>r\<in>set rs. range_contains nl r a \<and> gateway r \<noteq> Some a)) \<and>
     (\<forall>rs\<in>set rss. \<forall>a b data. (a, data) \<in> set (ip_files st) \<and> (b, data) \<in> set (ip_files st) \<and>
        contains_ip nl rs a \<and> contains_ip nl rs b \<longrightarrow> a = b)"

lemma leases_ok_filter:
  assumes "leases_ok nl rss st" "ip_files st' = filter P (ip_files st)"
  shows "leases_ok nl rss st'"
  using assms by (simp add: leases_ok_def hm_wf_def distinct_map_filter) blast

lemma config_same_set:
  assumes "config_ok nl rss" "rs \<in> set rss" "rs' \<in> set rss" "contains_ip nl rs a" "contains_ip nl rs' a"
  shows "rs = rs'"
proof -
  obtain i j where ij: "i < length rss" "rs = rss ! i" "j < length rss" "rs' = rss ! j"
    using assms(2,3) by (auto simp: in_set_conv_nth)
  then have "\<not> i < j" "\<not> j < i"
    using assms(1,4,5) by (auto simp: config_ok_def sorted_wrt_iff_nth_less)
  then show ?thesis using ij by (metis nat_neq_iff)
qed

lemma leases_ok_append:
  assumes "config_ok nl rss" "rs \<in> set rss" "leases_ok nl rss st" "free_for nl st rs (net, gw)"
    and "\<not> holds nl cid ifname st rs" "trim (owner_text cid ifname) = owner_text cid ifname"
    and "ip_files st' = ip_files st @ [(net_ip net, owner_text cid ifname)]"
  shows "leases_ok nl rss st'"
proof -
  let ?a = "net_ip net" and ?t = "owner_text cid ifname"
  obtain r where r: "r \<in> set rs" "range_contains nl r ?a" "gateway r \<noteq> Some ?a" "hm_get (ip_files st) ?a = None"
    using assms(4) by (auto simp: free_for_def free_address_def)
  have in_rs: "contains_ip nl rs ?a" using r(1,2) by (auto simp: contains_ip_def list_ex_iff)
  have wf: "hm_wf (ip_files st')"
    using assms(3,7) r(4) by (auto simp: leases_ok_def hm_wf_def hm_get_def map_of_eq_None_iff)
  have "\<not> contains_ip nl rs b" if "(b, ?t) \<in> set (ip_files st)" for b
    using assms(5,6) that by (force simp: get_by_id_def list_ex_iff)
  then have "b = ?a" if "(b, ?t) \<in> set (ip_files st')" "rs' \<in> set rss" "contains_ip nl rs' ?a" "contains_ip nl rs' b" for b rs'
    using that config_same_set [OF assms(1,2) that(2) in_rs that(3)] assms(7) by auto
  then show ?thesis
    using wf assms(2,3,7) r(1-3) unfolding leases_ok_def by (auto simp: assms(7)) blast
qed

lemma get_leases_ok:
  assumes "config_ok nl rss" "rs \<in> set rss" "leases_ok nl rss st"
    and "trim (owner_text cid ifname) = owner_text cid ifname"
    and "get nl rs range_id cid ifname None st = Some (out, st')"
  shows "leases_ok nl rss st'"
proof -
  have "set_ok nl rs" using assms(1,2) by (auto simp: config_ok_def)
  note g = get_outcomes [OF this, of cid ifname st range_id]
  show ?thesis
    using g assms(3,5) leases_ok_append [OF assms(1-3) _ _ assms(4)]
    by (cases "holds nl cid ifname st rs"; cases "has_free nl st rs") fastforce+
qed

lemma add_loop_leases_ok:
  assumes "config_ok nl rss" "trim (owner_text cid ifname) = owner_text cid ifname"
    and "set (map snd todo) \<subseteq> set rss" "leases_ok nl rss st"
    and "add_loop nl cid ifname todo n ips st = Some (out, st')"
  shows "leases_ok nl rss st'"
  using assms(3-)
proof (induction todo arbitrary: n ips st)
  case (Cons ir todo)
  obtain i rs where ir: "ir = (i, rs)" by force
  obtain o1 st1 where g: "get nl rs (show_nat i) cid ifname None st = Some (o1, st1)"
    using Cons.prems(3) by (auto simp: ir split: option.splits)
  have ok: "leases_ok nl rss st1"
    using get_leases_ok [OF assms(1) _ Cons.prems(2) assms(2) g] Cons.prems(1) by (simp add: ir)
  show ?case
  proof (cases o1)
    case (GetError e)
    then have "st' = (release cid ifname ^^ n) st1" using Cons.prems(3) g by (simp add: ir)
    then show ?thesis
      using ok leases_ok_filter [OF ok, of st' "if n = 0 then (\<lambda>_. True) else not_owned cid ifname"]
      by (auto simp: releases_files)
  next
    case (GetIp net gw)
    then show ?thesis using Cons.IH [OF _ ok] Cons.prems(1,3) g by (simp add: ir)
  next
    case GetPanic
    then show ?thesis using ok Cons.prems(3) g by (simp add: ir)
  qed
qed simp

lemma ipam_step_leases_ok:
  assumes "config_ok nl rss" "load_ipam_netconf nl ranges = Inr rss" "ipam_step nl ranges st st'" "leases_ok nl rss st"
  shows "leases_ok nl rss st'"
  using assms(3)
proof cases
  case (Add cid ifname out)
  then show ?thesis
    using add_loop_leases_ok [OF assms(1) Add(1) _ assms(4), of "enumerate 0 rss" 0 "[]" out st'] assms(2)
    by (simp add: cmd_add_def)
next
  case (Del cid ifname out)
  then show ?thesis
    using cmd_del_files [OF assms(2), of cid ifname st] leases_ok_filter [OF assms(4)] by auto
qed



section \<open>A range in the wrong order\<close>

definition ex_reversed :: ip_range where
  "ex_reversed = \<lparr>range_start = Some 0x0A0000FE, range_end = Some 0x0A00000A,
     subnet = \<lparr>net_ip = 0x0A000000, net_prefix = 24\<rparr>, gateway = Some 0x0A000001\<rparr>"

definition ex_taken :: ip_store where
  "ex_taken = \<lparr>ip_files = [(0x0A0000FE, ''c1'' @ LINE_BREAK @ ''eth0''), (0x0A0000FF, ''c2'' @ LINE_BREAK @ ''eth0'')],
     last_files = [(''0'', 0x0A0000FF)]\<rparr>"


end
