(* ===== verification/Slayer_Chunk.thy ===== *)
theory Slayer_Chunk
  imports Rk8s_Prelude
begin

text \<open>
  Chunks of the distributed file system, \<open>slayerfs/src/chunk\<close>: the layout, the splitting of a range into block
  spans (\<open>span.rs\<close>, \<open>slice.rs\<close>), the cutting of intervals (\<open>utils/intervals.rs\<close>), the two block stores (\<open>store.rs\<close>), the uploader
  (\<open>writer.rs\<close>) and the fetcher (\<open>reader.rs\<close>). Offsets and lengths are natural numbers; the additions, subtractions and
  products of \<open>u64\<close> values have their wrap-around written out. A panic is \<open>None\<close>. The futures of one upload write
  different keys and those of one read fill different parts of the buffer, so they run in order here.
\<close>

section \<open>Arithmetic and layout\<close>

definition add64 :: "nat \<Rightarrow> nat \<Rightarrow> nat" where
  "add64 a b = (a + b) mod 2 ^ 64"

definition sub64 :: "nat \<Rightarrow> nat \<Rightarrow> nat" where
  "sub64 a b = (if b \<le> a then a - b else a + 2 ^ 64 - b)"

definition mul64 :: "nat \<Rightarrow> nat \<Rightarrow> nat" where
  "mul64 a b = (a * b) mod 2 ^ 64"

definition as_u32 :: "nat \<Rightarrow> nat" where
  "as_u32 n = n mod 2 ^ 32"

definition div_ceil :: "nat \<Rightarrow> nat \<Rightarrow> nat" where
  "div_ceil a b = a div b + (if a mod b > 0 then 1 else 0)"

definition DEFAULT_CHUNK_SIZE :: nat where
  "DEFAULT_CHUNK_SIZE = 64 * 1024 * 1024"

definition DEFAULT_BLOCK_SIZE :: nat where
  "DEFAULT_BLOCK_SIZE = 4 * 1024 * 1024"

record chunk_layout =
  chunk_size :: nat
  block_size :: nat

definition default_layout :: chunk_layout where
  "default_layout = \<lparr>chunk_size = DEFAULT_CHUNK_SIZE, block_size = DEFAULT_BLOCK_SIZE\<rparr>"

section \<open>Spans\<close>

record span =
  sp_index :: nat
  sp_offset :: nat
  sp_len :: nat

record span_iter =
  it_cursor :: nat
  it_remaining :: nat
  it_target_align :: nat
  it_base_offset :: nat

definition split_into :: "span \<Rightarrow> nat \<Rightarrow> nat \<Rightarrow> bool \<Rightarrow> span_iter" where
  "split_into s my_align target_align relative =
     \<lparr>it_cursor = add64 (mul64 (sp_index s) my_align) (sp_offset s),
      it_remaining = sp_len s,
      it_target_align = target_align,
      it_base_offset = (if relative then mul64 (sp_index s) my_align else 0)\<rparr>"

text \<open>The outer \<open>None\<close> is the panic of the division by zero.\<close>

definition span_next :: "span_iter \<Rightarrow> (span \<times> span_iter) option option" where
  "span_next it =
     (if it_remaining it = 0 then Some None
      else if it_target_align it = 0 then None
      else
        (let effective_val = sub64 (it_cursor it) (it_base_offset it);
             index = effective_val div it_target_align it;
             offset = effective_val mod it_target_align it;
             capacity = sub64 (it_target_align it) offset;
             take = min (it_remaining it) capacity
         in Some (Some (\<lparr>sp_index = index, sp_offset = offset, sp_len = take\<rparr>,
              it\<lparr>it_cursor := add64 (it_cursor it) take,
                 it_remaining := sub64 (it_remaining it) take\<rparr>))))"

lemma span_next_decreases:
  "span_next it = Some (Some (s, it')) \<Longrightarrow> it_remaining it' < it_remaining it"
  by (auto simp: span_next_def sub64_def Let_def split: if_splits)

function span_collect :: "span_iter \<Rightarrow> span list option" where
  "span_collect it =
     (case span_next it of
        None \<Rightarrow> None
      | Some None \<Rightarrow> Some []
      | Some (Some (s, it')) \<Rightarrow> map_option (Cons s) (span_collect it'))"
  by pat_completeness auto

termination
  by (relation "measure it_remaining") (auto dest: span_next_decreases)

declare span_collect.simps [simp del]

definition block_span_iter_range :: "nat \<Rightarrow> nat \<Rightarrow> chunk_layout \<Rightarrow> span_iter" where
  "block_span_iter_range offset len layout =
     split_into \<lparr>sp_index = 0, sp_offset = offset, sp_len = len\<rparr> (chunk_size layout) (block_size layout) True"

section \<open>Intervals\<close>

type_synonym intervals = "(nat \<times> nat) list"

text \<open>One interval of the loop in \<open>cut\<close>: what is cut out of it and what remains.\<close>

definition cut_one :: "nat \<Rightarrow> nat \<Rightarrow> nat \<times> nat \<Rightarrow> intervals \<times> intervals" where
  "cut_one slice_l slice_r = (\<lambda>(l, r).
     if r \<le> slice_l \<or> l \<ge> slice_r then ([], [(l, r)])
     else
       (let cut_l = max l slice_l; cut_r = min r slice_r
        in (if cut_l < cut_r then [(cut_l, cut_r)] else [],
            (if l < cut_l then [(l, cut_l)] else []) @ (if cut_r < r then [(cut_r, r)] else []))))"

definition cut :: "nat \<Rightarrow> nat \<Rightarrow> intervals \<Rightarrow> intervals \<times> intervals" where
  "cut slice_l slice_r ivs =
     (if ivs = [] then ([], ivs)
      else
        (let cuts = concat (map (fst \<circ> cut_one slice_l slice_r) ivs);
             remaining = concat (map (snd \<circ> cut_one slice_l slice_r) ivs);
             touched = list_ex (\<lambda>(l, r). \<not> (r \<le> slice_l \<or> l \<ge> slice_r)) ivs
         in if \<not> touched then ([], ivs)
            else (cuts, filter (\<lambda>(l, r). l < r) remaining)))"

section \<open>Slices\<close>

record slice_desc =
  slice_id :: nat
  chunk_id :: nat
  sl_offset :: nat
  sl_length :: nat

definition slice_end :: "slice_desc \<Rightarrow> nat" where
  "slice_end s = add64 (sl_offset s) (sl_length s)"

section \<open>Block stores\<close>

type_synonym block_key = "nat \<times> nat"
type_synonym data = "u8 list"

text \<open>The trait \<open>BlockStore\<close> as a record of functions.\<close>

record 'st block_store =
  bs_write_fresh_vectored :: "block_key \<Rightarrow> nat \<Rightarrow> data list \<Rightarrow> 'st \<Rightarrow> 'st"
  bs_write_fresh_range :: "block_key \<Rightarrow> nat \<Rightarrow> data \<Rightarrow> 'st \<Rightarrow> 'st"
  bs_write_range :: "block_key \<Rightarrow> nat \<Rightarrow> data \<Rightarrow> 'st \<Rightarrow> 'st"
  bs_read_range :: "block_key \<Rightarrow> nat \<Rightarrow> data \<Rightarrow> 'st \<Rightarrow> data"
  bs_delete_range :: "block_key \<Rightarrow> nat \<Rightarrow> 'st \<Rightarrow> 'st"

text \<open>\<open>entry.resize(end, 0)\<close> when it is too short, then the copy into \<open>start..end\<close>.\<close>

definition write_into :: "data \<Rightarrow> nat \<Rightarrow> data \<Rightarrow> data" where
  "write_into entry start new =
     (let fin = start + length new;
          entry' = (if length entry < fin then entry @ replicate (fin - length entry) 0 else entry)
      in take start entry' @ new @ drop fin entry')"

text \<open>The copy of the bytes that exist into the front of the buffer.\<close>

definition read_from :: "data \<Rightarrow> nat \<Rightarrow> data \<Rightarrow> data" where
  "read_from src start buf =
     (let copy_end = min (start + length buf) (length src)
      in if copy_end > start
         then take (copy_end - start) (drop start src) @ drop (copy_end - start) buf
         else buf)"

subsection \<open>The store in memory\<close>

type_synonym mem_store = "(block_key, data) hashmap"

definition mem_write_range :: "block_key \<Rightarrow> nat \<Rightarrow> data \<Rightarrow> mem_store \<Rightarrow> mem_store" where
  "mem_write_range key offset new st =
     hm_insert key (write_into (case hm_get st key of Some e \<Rightarrow> e | None \<Rightarrow> []) offset new) st"

definition mem_read_range :: "block_key \<Rightarrow> nat \<Rightarrow> data \<Rightarrow> mem_store \<Rightarrow> data" where
  "mem_read_range key offset buf st =
     (case hm_get st key of Some src \<Rightarrow> read_from src offset buf | None \<Rightarrow> buf)"

definition mem_delete_range :: "block_key \<Rightarrow> nat \<Rightarrow> mem_store \<Rightarrow> mem_store" where
  "mem_delete_range key block_count st =
     (let start = snd key; fin = as_u32 (start + as_u32 block_count)
      in fold (\<lambda>i. hm_remove (fst key, i)) [start..<fin] st)"

definition in_memory_store :: "mem_store block_store" where
  "in_memory_store = \<lparr>
     bs_write_fresh_vectored = (\<lambda>key offset chunks. mem_write_range key offset (concat chunks)),
     bs_write_fresh_range = mem_write_range,
     bs_write_range = mem_write_range,
     bs_read_range = mem_read_range,
     bs_delete_range = mem_delete_range\<rparr>"

subsection \<open>The store over objects\<close>

text \<open>
  The local backend keeps an object as the file of its key. The reading of a file at an offset returns all the
  bytes there are.
\<close>

type_synonym object_files = "(string, data) hashmap"

definition put_object :: "string \<Rightarrow> data \<Rightarrow> object_files \<Rightarrow> object_files" where
  "put_object key new fs = hm_insert key new fs"

definition put_object_vectored :: "string \<Rightarrow> data list \<Rightarrow> object_files \<Rightarrow> object_files" where
  "put_object_vectored key chunks fs = hm_insert key (concat chunks) fs"

definition get_object :: "string \<Rightarrow> object_files \<Rightarrow> data option" where
  "get_object key fs = hm_get fs key"

definition get_object_range :: "string \<Rightarrow> nat \<Rightarrow> data \<Rightarrow> object_files \<Rightarrow> data" where
  "get_object_range key offset buf fs =
     (if buf = [] then buf
      else (case hm_get fs key of
              None \<Rightarrow> buf
            | Some file \<Rightarrow>
                (let local = take (length buf) (drop offset file)
                 in local @ drop (length local) buf)))"

definition delete_object :: "string \<Rightarrow> object_files \<Rightarrow> object_files" where
  "delete_object key fs = hm_remove key fs"

definition key_for :: "block_key \<Rightarrow> string" where
  "key_for key = ''chunks/'' @ show_nat (fst key) @ ''/'' @ show_nat (snd key)"

definition ZEROS :: data where
  "ZEROS = replicate (4 * 1024 * 1024) 0"

function make_zero_bytes :: "nat \<Rightarrow> data list" where
  "make_zero_bytes len =
     (if len \<ge> length ZEROS then ZEROS # make_zero_bytes (len - length ZEROS)
      else if len > 0 then [take len ZEROS] else [])"
  by pat_completeness auto

termination
  by (relation "measure id") (auto simp: ZEROS_def)

declare make_zero_bytes.simps [simp del]

definition object_write_fresh_vectored :: "block_key \<Rightarrow> nat \<Rightarrow> data list \<Rightarrow> object_files \<Rightarrow> object_files" where
  "object_write_fresh_vectored key offset chunks fs =
     (if sum_list (map length chunks) = 0 then fs
      else put_object_vectored (key_for key) ((if offset > 0 then make_zero_bytes offset else []) @ chunks) fs)"

definition object_write_fresh_range :: "block_key \<Rightarrow> nat \<Rightarrow> data \<Rightarrow> object_files \<Rightarrow> object_files" where
  "object_write_fresh_range key offset new fs =
     (if new = [] then fs
      else put_object_vectored (key_for key) ((if offset > 0 then make_zero_bytes offset else []) @ [new]) fs)"

definition object_write_range :: "block_key \<Rightarrow> nat \<Rightarrow> data \<Rightarrow> object_files \<Rightarrow> object_files" where
  "object_write_range key offset new fs =
     put_object (key_for key)
       (write_into (case get_object (key_for key) fs of Some d \<Rightarrow> d | None \<Rightarrow> []) offset new) fs"

text \<open>Small ranges are read directly, larger ones through the whole block.\<close>

definition object_read_range :: "nat \<Rightarrow> block_key \<Rightarrow> nat \<Rightarrow> data \<Rightarrow> object_files \<Rightarrow> data" where
  "object_read_range range_size_threshold key offset buf fs =
     (if length buf \<le> range_size_threshold then get_object_range (key_for key) offset buf fs
      else
        (let block_data = (case get_object (key_for key) fs of Some d \<Rightarrow> d | None \<Rightarrow> [])
         in if offset < length block_data
            then (let copy_end = min (offset + length buf) (length block_data); copy_len = copy_end - offset
                  in take copy_len (drop offset block_data) @ drop copy_len buf)
            else buf))"

definition object_delete_range :: "block_key \<Rightarrow> nat \<Rightarrow> object_files \<Rightarrow> object_files" where
  "object_delete_range key block_count fs =
     (let start = snd key; fin = as_u32 (start + as_u32 block_count)
      in fold (\<lambda>i. delete_object (key_for (fst key, i))) [start..<fin] fs)"

definition object_store :: "nat \<Rightarrow> object_files block_store" where
  "object_store threshold = \<lparr>
     bs_write_fresh_vectored = object_write_fresh_vectored,
     bs_write_fresh_range = object_write_fresh_range,
     bs_write_range = object_write_range,
     bs_read_range = object_read_range threshold,
     bs_delete_range = object_delete_range\<rparr>"

section \<open>The uploader\<close>

record chunk_cursor =
  cc_idx :: nat
  cc_off :: nat

text \<open>The loop of \<open>take\<close>; the index past the last segment is a panic.\<close>

function cursor_take :: "data list \<Rightarrow> nat \<Rightarrow> chunk_cursor \<Rightarrow> data list \<Rightarrow> (data list \<times> chunk_cursor) option" where
  "cursor_take chunks need cur out =
     (if need = 0 then Some (out, cur)
      else if cc_idx cur \<ge> length chunks then None
      else
        (let chunk = chunks ! cc_idx cur;
             avail = length chunk - cc_off cur;
             n = min need avail;
             off = cc_off cur + n;
             cur' = (if off = length chunk then \<lparr>cc_idx = cc_idx cur + 1, cc_off = 0\<rparr> else cur\<lparr>cc_off := off\<rparr>)
         in if cc_off cur > length chunk then None
            else cursor_take chunks (need - n) cur' (out @ [take n (drop (cc_off cur) chunk)])))"
  by pat_completeness auto

termination
  by (relation "measure (\<lambda>(chunks, need, cur, out). need + (length chunks - cc_idx cur))")
    (auto simp: Let_def min_def split: if_splits)

declare cursor_take.simps [simp del]

fun upload_spans :: "'st block_store \<Rightarrow> nat \<Rightarrow> data list \<Rightarrow> span list \<Rightarrow> chunk_cursor \<Rightarrow> 'st \<Rightarrow> 'st option" where
  "upload_spans bs sid chunks [] cur st = Some st"
| "upload_spans bs sid chunks (sp # sps) cur st =
     (case cursor_take chunks (sp_len sp) cur [] of
        None \<Rightarrow> None
      | Some (block_chunks, cur') \<Rightarrow>
          upload_spans bs sid chunks sps cur'
            (bs_write_fresh_vectored bs (sid, as_u32 (sp_index sp)) (sp_offset sp) block_chunks st))"

definition write_at_vectored :: "'st block_store \<Rightarrow> chunk_layout \<Rightarrow> nat \<Rightarrow> nat \<Rightarrow> data list \<Rightarrow> 'st \<Rightarrow> 'st option" where
  "write_at_vectored bs layout sid offset chunks st =
     (case span_collect (block_span_iter_range offset (sum_list (map length chunks)) layout) of
        None \<Rightarrow> None
      | Some sps \<Rightarrow> upload_spans bs sid chunks sps \<lparr>cc_idx = 0, cc_off = 0\<rparr> st)"

section \<open>The fetcher\<close>

record data_fetcher =
  df_id :: nat
  df_slices :: "slice_desc list"
  df_prepared :: bool

datatype fetch_error = NotPrepared

fun build_need_read :: "slice_desc list \<Rightarrow> intervals \<Rightarrow> (nat \<times> nat \<times> slice_desc) list" where
  "build_need_read [] ivs = []"
| "build_need_read (s # ss) ivs =
     (case cut (sl_offset s) (slice_end s) ivs of
        (cuts, ivs') \<Rightarrow> map (\<lambda>(l, r). (l, r, s)) cuts @ build_need_read ss ivs')"

text \<open>Reading the blocks of one slice into a part of the buffer.\<close>

fun read_spans :: "'st block_store \<Rightarrow> nat \<Rightarrow> span list \<Rightarrow> nat \<Rightarrow> data \<Rightarrow> 'st \<Rightarrow> data option" where
  "read_spans bs sid [] pos seg st = Some seg"
| "read_spans bs sid (sp # sps) pos seg st =
     (if pos + sp_len sp > length seg then None
      else
        (let out = bs_read_range bs (sid, as_u32 (sp_index sp)) (sp_offset sp) (take (sp_len sp) (drop pos seg)) st
         in read_spans bs sid sps (pos + sp_len sp) (take pos seg @ out @ drop (pos + sp_len sp) seg) st))"

definition read_slice :: "'st block_store \<Rightarrow> chunk_layout \<Rightarrow> nat \<Rightarrow> nat \<Rightarrow> nat \<Rightarrow> data \<Rightarrow> 'st \<Rightarrow> data option" where
  "read_slice bs layout sid slice_offset slice_len seg st =
     (case span_collect (block_span_iter_range slice_offset slice_len layout) of
        None \<Rightarrow> None
      | Some sps \<Rightarrow> read_spans bs sid sps 0 seg st)"

fun fill_segments ::
    "'st block_store \<Rightarrow> chunk_layout \<Rightarrow> nat \<Rightarrow> (nat \<times> nat \<times> slice_desc) list \<Rightarrow> nat \<Rightarrow> data \<Rightarrow> 'st \<Rightarrow> data option" where
  "fill_segments bs layout offset [] cursor tail st = Some tail"
| "fill_segments bs layout offset ((l, r, s) # need) cursor tail st =
     (let start = sub64 l offset; len = sub64 r l; gap = sub64 start cursor
      in if gap > length tail \<or> len > length tail - gap then None
         else
           (case read_slice bs layout (slice_id s) (sub64 l (sl_offset s)) (sub64 r l) (take len (drop gap tail)) st of
              None \<Rightarrow> None
            | Some seg \<Rightarrow>
                map_option (\<lambda>rest. take gap tail @ seg @ rest)
                  (fill_segments bs layout offset need (start + len) (drop (gap + len) tail) st)))"

definition read_at ::
    "'st block_store \<Rightarrow> chunk_layout \<Rightarrow> data_fetcher \<Rightarrow> nat \<Rightarrow> nat \<Rightarrow> 'st \<Rightarrow> (fetch_error + data) option" where
  "read_at bs layout df offset len st =
     (if len = 0 then Some (Inr [])
      else if \<not> df_prepared df then Some (Inl NotPrepared)
      else
        (let need_read = sort_key fst (build_need_read (rev (df_slices df)) [(offset, add64 offset len)])
         in map_option Inr (fill_segments bs layout offset need_read 0 (replicate len 0) st)))"

end
