(* ===== verification/Slayer_Store.thy ===== *)
theory Slayer_Store
  imports Slayer_Chunk
begin

text \<open>
  What the pieces of \<open>Slayer_Chunk\<close> do: a range is tiled by its block spans, the contract of a block store and its two
  implementations, and the bytes that an upload stores and a fetch returns.
\<close>

section \<open>Spans tile a range\<close>

function spans :: "nat \<Rightarrow> nat \<Rightarrow> nat \<Rightarrow> span list" where
  "spans bs pos len =
     (if bs = 0 \<or> len = 0 then []
      else (let t = min len (bs - pos mod bs)
            in \<lparr>sp_index = pos div bs, sp_offset = pos mod bs, sp_len = t\<rparr> # spans bs (pos + t) (len - t)))"
  by pat_completeness auto

termination
  by (relation "measure (\<lambda>(bs, pos, len). len)") (auto simp: Let_def)

declare spans.simps [simp del]

lemma spans_0 [simp]: "spans bs pos 0 = []"
  by (simp add: spans.simps)

lemma span_collect_spans:
  assumes "0 < target" "base \<le> cursor" "cursor + remaining < 2 ^ 64"
  shows "span_collect \<lparr>it_cursor = cursor, it_remaining = remaining, it_target_align = target, it_base_offset = base\<rparr> =
    Some (spans target (cursor - base) remaining)"
  using assms
proof (induction remaining arbitrary: cursor rule: less_induct)
  case (less remaining)
  show ?case
  proof (cases "remaining = 0")
    case True
    then show ?thesis by (simp add: span_collect.simps span_next_def)
  next
    case False
    define pos where "pos = cursor - base"
    define t where "t = min remaining (target - pos mod target)"
    have off: "pos mod target < target" using less.prems(1) by simp
    have t: "0 < t" "t \<le> remaining" using False off by (auto simp: t_def)
    have "span_next \<lparr>it_cursor = cursor, it_remaining = remaining, it_target_align = target, it_base_offset = base\<rparr> =
        Some (Some (\<lparr>sp_index = pos div target, sp_offset = pos mod target, sp_len = t\<rparr>,
          \<lparr>it_cursor = cursor + t, it_remaining = remaining - t, it_target_align = target, it_base_offset = base\<rparr>))"
      using False less.prems off t(2) by (simp add: span_next_def sub64_def add64_def Let_def t_def pos_def)
    moreover have "span_collect \<lparr>it_cursor = cursor + t, it_remaining = remaining - t, it_target_align = target,
        it_base_offset = base\<rparr> = Some (spans target (cursor + t - base) (remaining - t))"
      using less.prems t by (intro less.IH) auto
    moreover have "cursor + t - base = pos + t" using less.prems(2) by (simp add: pos_def)
    moreover have "spans target pos remaining =
        \<lparr>sp_index = pos div target, sp_offset = pos mod target, sp_len = t\<rparr> # spans target (pos + t) (remaining - t)"
      using False less.prems(1) by (subst spans.simps) (simp add: t_def Let_def)
    ultimately show ?thesis
      unfolding pos_def [symmetric] by (subst span_collect.simps) simp
  qed
qed

lemma block_spans:
  assumes "0 < block_size layout" "offset + len < 2 ^ 64"
  shows "span_collect (block_span_iter_range offset len layout) = Some (spans (block_size layout) offset len)"
proof -
  have "block_span_iter_range offset len layout =
      \<lparr>it_cursor = offset, it_remaining = len, it_target_align = block_size layout, it_base_offset = 0\<rparr>"
    using assms(2) by (simp add: block_span_iter_range_def split_into_def add64_def mul64_def)
  then show ?thesis using span_collect_spans [of "block_size layout" 0 offset len] assms by simp
qed

lemma spans_induct [case_names Empty Span]:
  assumes "0 < bs"
    and "\<And>pos. P pos 0"
    and "\<And>pos len t. 0 < len \<Longrightarrow> 0 < t \<Longrightarrow> t \<le> len \<Longrightarrow> pos mod bs + t \<le> bs
      \<Longrightarrow> t = len \<or> pos mod bs + t = bs \<Longrightarrow> spans bs pos len = \<lparr>sp_index = pos div bs, sp_offset = pos mod bs, sp_len = t\<rparr> # spans bs (pos + t) (len - t)
      \<Longrightarrow> P (pos + t) (len - t) \<Longrightarrow> P pos len"
  shows "P pos len"
proof (induction len arbitrary: pos rule: less_induct)
  case (less len)
  show ?case
  proof (cases "len = 0")
    case False
    define t where "t = min len (bs - pos mod bs)"
    have off: "pos mod bs < bs" using assms(1) by simp
    then have "0 < t" "t \<le> len" "pos mod bs + t \<le> bs" "t = len \<or> pos mod bs + t = bs"
      using False by (auto simp: t_def)
    moreover have "spans bs pos len =
        \<lparr>sp_index = pos div bs, sp_offset = pos mod bs, sp_len = t\<rparr> # spans bs (pos + t) (len - t)"
      using False assms(1) by (subst spans.simps) (simp add: t_def Let_def)
    ultimately show ?thesis using False less.IH [of "len - t" "pos + t"] by (intro assms(3) [of len t pos]) simp_all
  qed (simp add: assms(2))
qed

definition span_range :: "nat \<Rightarrow> span \<Rightarrow> nat list" where
  "span_range bs s = [sp_index s * bs + sp_offset s..<sp_index s * bs + sp_offset s + sp_len s]"

lemma spans_tile:
  assumes "0 < bs"
  shows "concat (map (span_range bs) (spans bs pos len)) = [pos..<pos + len]"
proof (induction pos len rule: spans_induct [OF assms])
  case (2 pos len t)
  have "[pos..<pos + len] = [pos..<pos + t] @ [pos + t..<pos + len]"
    using upt_add_eq_append [of pos "pos + t" "len - t"] 2(3) by simp
  then show ?case using 2 by (simp add: span_range_def)
qed simp

lemma spans_within:
  assumes "0 < bs"
  shows "list_all (\<lambda>s. 0 < sp_len s \<and> sp_offset s + sp_len s \<le> bs) (spans bs pos len)"
  by (induction pos len rule: spans_induct [OF assms]) simp_all

lemma spans_index_ge:
  assumes "0 < bs" "s \<in> set (spans bs pos len)"
  shows "pos div bs \<le> sp_index s" "sp_index s * bs < pos + len"
proof -
  have "set (span_range bs s) \<subseteq> set (concat (map (span_range bs) (spans bs pos len)))"
    using assms(2) by auto
  then have "set (span_range bs s) \<subseteq> {pos..<pos + len}"
    unfolding spans_tile [OF assms(1)] by simp
  moreover have "0 < sp_len s" "sp_offset s + sp_len s \<le> bs" using spans_within [OF assms(1)] assms(2) by (auto simp: list_all_iff)
  ultimately have "pos \<le> sp_index s * bs + sp_offset s" "sp_index s * bs + sp_offset s < pos + len" "sp_offset s < bs"
    by (auto simp: span_range_def)
  then show "pos div bs \<le> sp_index s" "sp_index s * bs < pos + len"
    using div_le_mono [of pos "sp_index s * bs + sp_offset s" bs] assms(1) by simp_all
qed

lemma spans_increasing:
  assumes "0 < bs"
  shows "sorted_wrt (\<lambda>a b. sp_index a < sp_index b) (spans bs pos len)"
proof (induction pos len rule: spans_induct [OF assms])
  case (2 pos len t)
  have "pos div bs < sp_index b" if b: "b \<in> set (spans bs (pos + t) (len - t))" for b
  proof -
    have "pos mod bs + t = bs" using 2(5) b by auto
    then have "pos + t = pos div bs * bs + bs" using div_mult_mod_eq [of pos bs] by linarith
    then have "(pos + t) div bs = pos div bs + 1" using assms by simp
    then show ?thesis using spans_index_ge(1) [OF assms b] by simp
  qed
  then show ?case using 2 by simp
qed simp

section \<open>The contract of a block store\<close>

text \<open>The byte of a block at a position, and a buffer overwritten with the bytes that exist.\<close>

definition byte_at :: "data option \<Rightarrow> nat \<Rightarrow> u8 option" where
  "byte_at b i = (case b of None \<Rightarrow> None | Some d \<Rightarrow> if i < length d then Some (d ! i) else None)"

definition patch :: "(nat \<Rightarrow> u8 option) \<Rightarrow> nat \<Rightarrow> data \<Rightarrow> data" where
  "patch f pos buf = map (\<lambda>i. case f (pos + i) of Some v \<Rightarrow> v | None \<Rightarrow> buf ! i) [0..<length buf]"

lemma length_patch [simp]: "length (patch f pos buf) = length buf"
  by (simp add: patch_def)

lemma nth_patch [simp]:
  "i < length buf \<Longrightarrow> patch f pos buf ! i = (case f (pos + i) of Some v \<Rightarrow> v | None \<Rightarrow> buf ! i)"
  by (simp add: patch_def split: option.split)

lemma patch_Nil [simp]: "patch f pos [] = []"
  by (simp add: patch_def)

lemma patch_append: "patch f pos (xs @ ys) = patch f pos xs @ patch f (pos + length xs) ys"
  by (rule nth_equalityI) (auto simp: nth_append split: option.split)

lemma patch_none: "(\<And>i. i < length buf \<Longrightarrow> f (pos + i) = None) \<Longrightarrow> patch f pos buf = buf"
  by (rule nth_equalityI) auto

lemma patch_cong:
  "(\<And>i. i < length buf \<Longrightarrow> f (pos + i) = g (pos' + i)) \<Longrightarrow> patch f pos buf = patch g pos' buf"
  by (rule nth_equalityI) auto

locale block_store_contract =
  fixes bs :: "'st block_store" and block :: "'st \<Rightarrow> block_key \<Rightarrow> data option"
  assumes read_range: "bs_read_range bs k off buf st = patch (byte_at (block st k)) off buf"
    and write_fresh: "block st k = None \<Longrightarrow> concat chunks \<noteq> [] \<Longrightarrow>
      block (bs_write_fresh_vectored bs k off chunks st) = (block st)(k \<mapsto> replicate off 0 @ concat chunks)"
    and write_fresh_range: "block st k = None \<Longrightarrow> new \<noteq> [] \<Longrightarrow>
      block (bs_write_fresh_range bs k off new st) = (block st)(k \<mapsto> replicate off 0 @ new)"
    and write_range: "block (bs_write_range bs k off new st) =
      (block st)(k \<mapsto> write_into (case block st k of Some e \<Rightarrow> e | None \<Rightarrow> []) off new)"
    and delete_range: "snd k + n < 2 ^ 32 \<Longrightarrow> block (bs_delete_range bs k n st) =
      (\<lambda>k'. if fst k' = fst k \<and> snd k \<le> snd k' \<and> snd k' < snd k + n then None else block st k')"
    and delete_other: "fst k' \<noteq> fst k \<Longrightarrow> block (bs_delete_range bs k n st) k' = block st k'"

lemma read_from_patch: "read_from src start buf = patch (byte_at (Some src)) start buf"
proof (rule nth_equalityI)
  show "length (read_from src start buf) = length (patch (byte_at (Some src)) start buf)"
    by (auto simp: read_from_def Let_def min_def)
  show "read_from src start buf ! i = patch (byte_at (Some src)) start buf ! i" if "i < length (read_from src start buf)" for i
    using that by (auto simp: read_from_def Let_def nth_append byte_at_def min_def split: if_splits)
qed

lemma write_into_fresh [simp]: "write_into [] off new = replicate off 0 @ new"
  by (auto simp: write_into_def)

lemma fold_remove:
  "hm_get (fold (\<lambda>i. hm_remove (f i)) is st) k = (if k \<in> f ` set is then None else hm_get st k)"
  by (induction "is" arbitrary: st) auto

lemma as_u32_id [simp]: "n < 2 ^ 32 \<Longrightarrow> as_u32 n = n"
  by (simp add: as_u32_def)

interpretation mem: block_store_contract in_memory_store hm_get
proof
  fix k off buf st
  show "bs_read_range in_memory_store k off buf st = patch (byte_at (hm_get st k)) off buf"
    by (simp add: in_memory_store_def mem_read_range_def read_from_patch split: option.split)
      (simp add: patch_none byte_at_def)
next
  fix k :: block_key and n st
  assume "snd k + n < 2 ^ 32"
  then show "hm_get (bs_delete_range in_memory_store k n st) =
      (\<lambda>k'. if fst k' = fst k \<and> snd k \<le> snd k' \<and> snd k' < snd k + n then None else hm_get st k')"
    by (auto simp: in_memory_store_def mem_delete_range_def fold_remove Let_def fun_eq_iff)
qed (auto simp: in_memory_store_def mem_write_range_def mem_delete_range_def fold_remove Let_def fun_eq_iff)

text \<open>The keys of different blocks are different objects.\<close>

lemma slash_not_in_show_nat: "CHR ''/'' \<notin> set (show_nat n)"
proof (induction n rule: show_nat.induct)
  case (1 n)
  have "CHR ''/'' \<noteq> digit_char d" if "d < 10" for d
  proof
    assume "CHR ''/'' = digit_char d"
    then have "digit_val (CHR ''/'') = Some d" using digit_val_char [OF that] by simp
    then show False by (simp add: digit_val_def)
  qed
  then show ?case using 1 by (subst show_nat.simps) auto
qed

lemma show_nat_inj: "show_nat m = show_nat n \<Longrightarrow> m = n"
  by (drule arg_cong [where f = parse_digits]) (simp only: parse_digits_show option.inject)

lemma append_sep_inj:
  "xs @ c # ys = xs' @ c # ys' \<Longrightarrow> c \<notin> set xs \<Longrightarrow> c \<notin> set xs' \<Longrightarrow> xs = xs' \<and> ys = ys'"
proof (induction xs arbitrary: xs')
  case Nil
  then show ?case by (cases xs') simp_all
next
  case (Cons x xs)
  then show ?case using Cons.IH [of "tl xs'"] by (cases xs') simp_all
qed

lemma key_for_inj [simp]: "key_for k = key_for k' \<longleftrightarrow> k = k'"
  using append_sep_inj [of "show_nat (fst k)" "CHR ''/''" "show_nat (snd k)" "show_nat (fst k')" "show_nat (snd k')"]
    slash_not_in_show_nat show_nat_inj
  by (auto simp: key_for_def prod_eq_iff)

lemma ZEROS_replicate: "ZEROS = replicate (length ZEROS) 0"
  by (simp only: ZEROS_def length_replicate)

lemma concat_zero_bytes: "concat (make_zero_bytes n) = replicate n 0"
proof (induction n rule: make_zero_bytes.induct)
  case (1 n)
  obtain z where z: "ZEROS = replicate z 0" using ZEROS_replicate by blast
  have "z + (n - z) = n" if "z \<le> n" using that by simp
  then have "replicate z 0 @ replicate (n - z) 0 = replicate n (0 :: u8)" if "z \<le> n"
    using that by (simp only: replicate_add [symmetric])
  then show ?case using 1 by (subst make_zero_bytes.simps) (simp add: z min_def)
qed

lemma object_read_patch:
  "object_read_range threshold k off buf fs = patch (byte_at (hm_get fs (key_for k))) off buf"
proof (cases "hm_get fs (key_for k)")
  case None
  then show ?thesis
    by (simp add: object_read_range_def get_object_range_def get_object_def patch_none byte_at_def)
next
  case (Some src)
  have "take (length buf) (drop off src) @ drop (min (length src - off) (length buf)) buf = patch (byte_at (Some src)) off buf"
    by (rule nth_equalityI) (auto simp: nth_append byte_at_def min_def)
  moreover have "take (min (off + length buf) (length src) - off) (drop off src) @
      drop (min (off + length buf) (length src) - off) buf = patch (byte_at (Some src)) off buf" if "off < length src"
    using that by (intro nth_equalityI) (auto simp: nth_append byte_at_def min_def)
  moreover have "patch (byte_at (Some src)) off buf = buf" if "\<not> off < length src"
    using that by (intro patch_none) (simp add: byte_at_def)
  ultimately show ?thesis
    using Some by (auto simp: object_read_range_def get_object_range_def get_object_def Let_def)
qed

interpretation obj: block_store_contract "object_store threshold" "\<lambda>fs k. hm_get fs (key_for k)" for threshold
proof
  fix k :: block_key and n fs
  assume n: "snd k + n < 2 ^ 32"
  have "key_for k' \<in> (\<lambda>i. key_for (fst k, i)) ` {snd k..<snd k + n} \<longleftrightarrow>
      fst k' = fst k \<and> snd k \<le> snd k' \<and> snd k' < snd k + n" for k'
    by (cases k') auto
  then show "(\<lambda>k'. hm_get (bs_delete_range (object_store threshold) k n fs) (key_for k')) =
      (\<lambda>k'. if fst k' = fst k \<and> snd k \<le> snd k' \<and> snd k' < snd k + n then None else hm_get fs (key_for k'))"
    using n by (simp add: object_store_def object_delete_range_def delete_object_def [abs_def] fold_remove Let_def fun_eq_iff)
qed (auto simp: object_store_def object_read_patch object_write_fresh_vectored_def object_write_fresh_range_def
    object_write_range_def object_delete_range_def delete_object_def [abs_def] fold_remove Let_def
    put_object_def put_object_vectored_def get_object_def concat_zero_bytes fun_eq_iff)

end
