(* ===== verification/Slayer_Data.thy ===== *)
theory Slayer_Data
  imports Slayer_Store
begin

text \<open>
  The bytes of a chunk. On any block store that keeps the contract, the fetcher returns for each position the byte of the
  newest slice that covers it, and an upload stores exactly the bytes it was given.
\<close>

section \<open>Bytes of a slice\<close>

definition slice_byte :: "('st \<Rightarrow> block_key \<Rightarrow> data option) \<Rightarrow> nat \<Rightarrow> 'st \<Rightarrow> nat \<Rightarrow> nat \<Rightarrow> u8 option" where
  "slice_byte block B st sid p = byte_at (block st (sid, p div B)) (p mod B)"

lemma patch_split: "t \<le> length xs \<Longrightarrow> patch f a (take t xs) @ patch f (a + t) (drop t xs) = patch f a xs"
  using patch_append [of f a "take t xs" "drop t xs"] by (simp add: min_absorb2)

lemma patch_replicate:
  "patch f pos (replicate n 0) = map (\<lambda>i. case f (pos + i) of Some v \<Rightarrow> v | None \<Rightarrow> 0) [0..<n]"
  by (rule nth_equalityI) (auto split: option.split)

lemma div_mod_within:
  fixes a B i :: nat
  assumes "a mod B + i < B"
  shows "(a + i) div B = a div B" "(a + i) mod B = a mod B + i"
proof -
  have "a + i = a div B * B + (a mod B + i)" by simp
  then show "(a + i) div B = a div B" "(a + i) mod B = a mod B + i"
    using assms by (metis add_cancel_right_left div_eq_0_iff div_mult_self3 mod_less mod_mult_self3 mult_0 add.commute)+
qed

lemma block_index_bound:
  fixes a B :: nat
  assumes "0 < B" "a < 2 ^ 32 * B"
  shows "as_u32 (a div B) = a div B"
  using assms by (simp add: less_mult_imp_div_less)

context block_store_contract
begin

lemma read_spans_patch:
  assumes "0 < B" "pos + n \<le> length seg" "a + n \<le> 2 ^ 32 * B"
  shows "read_spans bs sid (spans B a n) pos seg st =
    Some (take pos seg @ patch (slice_byte block B st sid) a (take n (drop pos seg)) @ drop (pos + n) seg)"
  using assms(2,3)
proof (induction a n arbitrary: pos seg rule: spans_induct [OF assms(1)])
  case (1 a)
  then show ?case by simp
next
  case (2 a n t)
  let ?f = "slice_byte block B st sid"
  let ?out = "patch ?f a (take t (drop pos seg))"
  let ?seg = "take pos seg @ ?out @ drop (pos + t) seg"
  have idx: "as_u32 (a div B) = a div B"
    using 2(1,9) assms(1) by (intro block_index_bound) auto
  have "bs_read_range bs (sid, a div B) (a mod B) (take t (drop pos seg)) st = ?out"
    unfolding read_range
  proof (rule patch_cong)
    fix i assume "i < length (take t (drop pos seg))"
    then have "a mod B + i < B" using 2(4) by auto
    then show "byte_at (block st (sid, a div B)) (a mod B + i) = ?f (a + i)"
      by (simp add: slice_byte_def div_mod_within)
  qed
  then have "read_spans bs sid (spans B a n) pos seg st = read_spans bs sid (spans B (a + t) (n - t)) (pos + t) ?seg st"
    using 2(3,6,8) idx by (simp add: Let_def)
  also have "\<dots> = Some (take (pos + t) ?seg @ patch ?f (a + t) (take (n - t) (drop (pos + t) ?seg)) @
      drop (pos + t + (n - t)) ?seg)"
    using 2(3,8,9) by (intro 2(7)) auto
  also have "take (pos + t) ?seg = take pos seg @ ?out" using 2(3,8) by simp
  also have "drop (pos + t) ?seg = drop (pos + t) seg" using 2(3,8) by simp
  also have "drop (pos + t + (n - t)) ?seg = drop (pos + n) seg" using 2(3,8) by (simp add: add.commute)
  finally have "read_spans bs sid (spans B a n) pos seg st =
      Some (take pos seg @ (?out @ patch ?f (a + t) (take (n - t) (drop (pos + t) seg))) @ drop (pos + n) seg)"
    by simp
  also have "take (n - t) (drop (pos + t) seg) = drop t (take n (drop pos seg))"
    by (simp add: drop_take add.commute)
  also have "take t (drop pos seg) = take t (take n (drop pos seg))" using 2(3) by simp
  also have "patch ?f a (take t (take n (drop pos seg))) @ patch ?f (a + t) (drop t (take n (drop pos seg))) =
      patch ?f a (take n (drop pos seg))"
    using 2(3,8) by (intro patch_split) simp
  finally show ?case .
qed

lemma read_slice_patch:
  assumes "0 < block_size layout" "a + n < 2 ^ 64" "a + n \<le> 2 ^ 32 * block_size layout" "length seg = n"
  shows "read_slice bs layout sid a n seg st = Some (patch (slice_byte block (block_size layout) st sid) a seg)"
  using block_spans [OF assms(1,2)] read_spans_patch [OF assms(1), of 0 n seg a sid st] assms(3,4)
  by (simp add: read_slice_def)

end

section \<open>Intervals\<close>

definition pts :: "intervals \<Rightarrow> nat set" where
  "pts ivs = (\<Union>(l, r)\<in>set ivs. {l..<r})"

definition separated :: "intervals \<Rightarrow> bool" where
  "separated ivs \<longleftrightarrow> (\<forall>(l, r)\<in>set ivs. l < r) \<and> sorted_wrt (\<lambda>(l, r) (l', r'). r \<le> l') ivs"

lemma pts_simps [simp]: "pts [] = {}" "pts ((l, r) # ivs) = {l..<r} \<union> pts ivs" "pts (xs @ ys) = pts xs \<union> pts ys"
  by (auto simp: pts_def)

lemma separated_append:
  "separated (xs @ ys) \<longleftrightarrow> separated xs \<and> separated ys \<and> (\<forall>(l, r)\<in>set xs. \<forall>(l', r')\<in>set ys. r \<le> l')"
  by (auto simp: separated_def sorted_wrt_append)

lemma separated_Cons:
  "separated (x # xs) \<longleftrightarrow> fst x < snd x \<and> separated xs \<and> (\<forall>(l, r)\<in>set xs. snd x \<le> l)"
  by (auto simp: separated_def)

lemma cut_one_spec:
  assumes "l < r" "a \<le> b"
  shows "pts (fst (cut_one a b (l, r))) = {l..<r} \<inter> {a..<b}" "pts (snd (cut_one a b (l, r))) = {l..<r} - {a..<b}"
    "separated (fst (cut_one a b (l, r)))" "separated (snd (cut_one a b (l, r)))"
    "\<forall>(x, y)\<in>set (fst (cut_one a b (l, r)) @ snd (cut_one a b (l, r))). l \<le> x \<and> y \<le> r"
  using assms by (auto simp: cut_one_def Let_def separated_def max_def min_def split: if_splits)

lemma concat_cut_spec:
  assumes "a \<le> b" "separated ivs" "\<And>l r. l < r \<Longrightarrow> pts (f (l, r)) = {l..<r} \<inter> S \<and> separated (f (l, r)) \<and>
    (\<forall>(x, y)\<in>set (f (l, r)). l \<le> x \<and> y \<le> r)"
  shows "pts (concat (map f ivs)) = pts ivs \<inter> S \<and> separated (concat (map f ivs))"
  using assms(2)
proof (induction ivs)
  case (Cons iv ivs)
  obtain l r where iv: "iv = (l, r)" by force
  have lr: "l < r" "separated ivs" "\<forall>(l', r')\<in>set ivs. r \<le> l' \<and> l' < r'"
    using Cons.prems by (auto simp: iv separated_def)
  have "r \<le> x" if "(x, y) \<in> set (f (l', r'))" "(l', r') \<in> set ivs" for x y l' r'
    using assms(3) [of l' r'] lr(3) that by fastforce
  then show ?case
    using assms(3) [OF lr(1)] Cons.IH [OF lr(2)] by (fastforce simp: iv separated_append)
qed (simp add: separated_def)

lemma filter_nonempty: "separated ivs \<Longrightarrow> filter (\<lambda>(l, r). l < r) ivs = ivs"
  by (auto simp: separated_def intro!: filter_True)

text \<open>Cutting a range out of separated intervals divides their points into those inside and those outside it.\<close>

lemma cut_spec:
  assumes "a \<le> b" "separated ivs" "cut a b ivs = (cuts, rest)"
  shows "pts cuts = pts ivs \<inter> {a..<b}" "pts rest = pts ivs - {a..<b}" "separated cuts" "separated rest"
proof -
  have c: "pts (concat (map (fst \<circ> cut_one a b) ivs)) = pts ivs \<inter> {a..<b} \<and>
      separated (concat (map (fst \<circ> cut_one a b) ivs))"
    using cut_one_spec [OF _ assms(1)] by (intro concat_cut_spec [OF assms(1,2)]) auto
  have r: "pts (concat (map (snd \<circ> cut_one a b) ivs)) = pts ivs \<inter> - {a..<b} \<and>
      separated (concat (map (snd \<circ> cut_one a b) ivs))"
    using cut_one_spec [OF _ assms(1)] by (intro concat_cut_spec [OF assms(1,2)]) (auto simp: Diff_eq)
  have untouched: "pts ivs \<inter> {a..<b} = {}" if "\<not> list_ex (\<lambda>(l, r). \<not> (r \<le> a \<or> l \<ge> b)) ivs"
    using that by (fastforce simp: pts_def list_ex_iff)
  show "pts cuts = pts ivs \<inter> {a..<b}" "pts rest = pts ivs - {a..<b}" "separated cuts" "separated rest"
    using assms(2,3) c r untouched
    by (auto simp: cut_def Let_def filter_nonempty Diff_eq separated_def [of "[]"] split: if_splits)
qed

section \<open>The parts to read\<close>

type_synonym part = "nat \<times> nat \<times> slice_desc"

definition covers :: "nat \<Rightarrow> slice_desc \<Rightarrow> bool" where
  "covers p s \<longleftrightarrow> sl_offset s \<le> p \<and> p < sl_offset s + sl_length s"

definition in_part :: "nat \<Rightarrow> part \<Rightarrow> bool" where
  "in_part p = (\<lambda>(l, r, s). l \<le> p \<and> p < r)"

text \<open>Two parts have no point in common.\<close>

definition apart :: "part \<Rightarrow> part \<Rightarrow> bool" where
  "apart x y \<longleftrightarrow> (\<forall>p. \<not> (in_part p x \<and> in_part p y))"

definition part_ok :: "part \<Rightarrow> bool" where
  "part_ok = (\<lambda>(l, r, s). l < r \<and> sl_offset s \<le> l \<and> r \<le> sl_offset s + sl_length s)"

lemma part_ok_covers: "part_ok (l, r, s) \<Longrightarrow> in_part p (l, r, s) \<Longrightarrow> covers p s"
  by (auto simp: part_ok_def in_part_def covers_def)

lemma separated_disjoint: "separated ivs \<Longrightarrow> sorted_wrt (\<lambda>(l, r) (l', r'). {l..<r} \<inter> {l'..<r'} = {}) ivs"
  unfolding separated_def by (elim conjE) (erule sorted_wrt_mono_rel [rotated], auto)

lemma build_need_read_spec:
  assumes "separated ivs" "\<forall>s\<in>set ss. sl_offset s + sl_length s < 2 ^ 64"
  shows "(\<forall>x\<in>set (build_need_read ss ivs). part_ok x \<and> (\<forall>p. in_part p x \<longrightarrow> p \<in> pts ivs)) \<and>
    sorted_wrt apart (build_need_read ss ivs) \<and>
    (\<forall>p\<in>pts ivs. \<forall>s. List.find (covers p) ss = Some s \<longleftrightarrow> (\<exists>x\<in>set (build_need_read ss ivs). in_part p x \<and> snd (snd x) = s))"
  using assms
proof (induction ss arbitrary: ivs)
  case (Cons s ss)
  let ?e = "sl_offset s + sl_length s"
  have se: "slice_end s = ?e" using Cons.prems(2) by (simp add: slice_end_def add64_def)
  obtain cuts rest where c: "cut (sl_offset s) ?e ivs = (cuts, rest)" by force
  note cs = cut_spec [OF _ Cons.prems(1) c, simplified]
  let ?new = "map (\<lambda>(l, r). (l, r, s)) cuts" and ?old = "build_need_read ss rest"
  note IH = Cons.IH [OF cs(4)]
  have eq: "build_need_read (s # ss) ivs = ?new @ ?old" by (simp add: se c)
  have new: "part_ok x \<and> (\<forall>p. in_part p x \<longrightarrow> p \<in> pts cuts)" if "x \<in> set ?new" for x
  proof -
    obtain l r where x: "x = (l, r, s)" "(l, r) \<in> set cuts" using \<open>x \<in> set ?new\<close> by auto
    have lr: "l < r" "{l..<r} \<subseteq> pts cuts" using cs(3) x(2) by (auto simp: separated_def pts_def)
    then have "{l..<r} \<subseteq> {sl_offset s..<?e}" using cs(1) by auto
    then have "sl_offset s \<le> l" "r \<le> ?e" using lr(1) by (auto simp: atLeastLessThan_subset_iff)
    then show ?thesis using lr by (auto simp: x(1) part_ok_def in_part_def)
  qed
  have old: "\<forall>x\<in>set ?old. part_ok x \<and> (\<forall>p. in_part p x \<longrightarrow> p \<in> pts rest)" "sorted_wrt apart ?old"
    using IH Cons.prems(2) by auto
  have new_apart: "sorted_wrt apart ?new"
    using separated_disjoint [OF cs(3)]
    by (auto simp: sorted_wrt_map apart_def in_part_def elim!: sorted_wrt_mono_rel [rotated])
  have cross: "apart x y" if "x \<in> set ?new" "y \<in> set ?old" for x y
    using new [OF that(1)] old(1) that(2) cs(1,2) unfolding apart_def by blast
  have found: "List.find (covers p) (s # ss) = Some s' \<longleftrightarrow> (\<exists>x\<in>set (?new @ ?old). in_part p x \<and> snd (snd x) = s')"
    if p: "p \<in> pts ivs" for p s'
  proof (cases "covers p s")
    case True
    then have pc: "p \<in> pts cuts" "p \<notin> pts rest" using p cs(1,2) by (auto simp: covers_def)
    then obtain l r where "(l, r) \<in> set cuts" "p \<in> {l..<r}" by (auto simp: pts_def)
    then have "(l, r, s) \<in> set ?new" "in_part p (l, r, s)" by (auto simp: in_part_def)
    then show ?thesis using True pc(2) old(1) by force
  next
    case False
    then have pr: "p \<in> pts rest" "p \<notin> pts cuts" using p cs(1,2) by (auto simp: covers_def)
    then have "\<not> in_part p x" if "x \<in> set ?new" for x using new [OF that] by blast
    moreover have "List.find (covers p) ss = Some s' \<longleftrightarrow> (\<exists>x\<in>set ?old. in_part p x \<and> snd (snd x) = s')"
      using IH Cons.prems(2) pr(1) by simp
    ultimately show ?thesis using False unfolding set_append by (simp only: find.simps if_False) blast
  qed
  show ?case
    unfolding eq using new old new_apart cross found cs(1,2) by (simp add: sorted_wrt_append) blast
qed simp

lemma sorted_wrt_insort:
  assumes "\<And>x y. R x y \<Longrightarrow> R y x" "\<forall>y\<in>set xs. R x y" "sorted_wrt R xs"
  shows "sorted_wrt R (insort_key f x xs)"
  using assms(2,3) by (induction xs) (auto simp: set_insort_key assms(1))

lemma sorted_wrt_sort:
  assumes "\<And>x y. R x y \<Longrightarrow> R y x" "sorted_wrt R xs"
  shows "sorted_wrt R (sort_key f xs)"
  using assms(2)
proof (induction xs)
  case (Cons x xs)
  then show ?case using sorted_wrt_insort [of R "sort_key f xs" x f, OF assms(1)] by simp
qed simp

text \<open>Sorted by their start, the parts follow one another.\<close>

lemma sorted_parts_follow:
  assumes "\<forall>x\<in>set xs. part_ok x" "sorted_wrt apart xs"
  shows "sorted_wrt (\<lambda>x y. fst (snd x) \<le> fst y) (sort_key fst xs)"
proof -
  have "apart x y \<Longrightarrow> apart y x" for x y by (auto simp: apart_def)
  then have "sorted_wrt apart (sort_key fst xs)" using assms(2) by (rule sorted_wrt_sort)
  moreover have "sorted_wrt (\<lambda>x y. fst x \<le> fst y) (sort_key fst xs)"
    using sorted_sort_key [of fst xs] by (simp add: sorted_wrt_map)
  ultimately have "sorted_wrt (\<lambda>x y. apart x y \<and> fst x \<le> fst y) (sort_key fst xs)"
    by (simp add: sorted_wrt_iff_nth_less)
  then show ?thesis
  proof (rule sorted_wrt_mono_rel [rotated])
    fix x y assume "x \<in> set (sort_key fst xs)" "y \<in> set (sort_key fst xs)" and *: "apart x y \<and> fst x \<le> fst y"
    then have "part_ok x" "part_ok y" using assms(1) by auto
    then have "\<not> in_part (fst y) x" "in_part (fst y) y"
      using * by (auto simp: apart_def part_ok_def in_part_def)
    then show "fst (snd x) \<le> fst y" using * by (auto simp: in_part_def)
  qed
qed

definition part_byte :: "(nat \<Rightarrow> nat \<Rightarrow> u8 option) \<Rightarrow> part list \<Rightarrow> nat \<Rightarrow> u8 option" where
  "part_byte sb parts p =
     (case List.find (in_part p) parts of
        None \<Rightarrow> None
      | Some (l, r, s) \<Rightarrow> sb (slice_id s) (p - sl_offset s))"

lemma part_byte_head: "in_part p (l, r, s) \<Longrightarrow> part_byte sb ((l, r, s) # parts) p = sb (slice_id s) (p - sl_offset s)"
  by (simp add: part_byte_def)

lemma part_byte_skip: "\<not> in_part p x \<Longrightarrow> part_byte sb (x # parts) p = part_byte sb parts p"
  by (simp add: part_byte_def)

lemma part_byte_none: "\<forall>x\<in>set parts. \<not> in_part p x \<Longrightarrow> part_byte sb parts p = None"
  using find_None_iff [of "in_part p" parts] by (auto simp: part_byte_def)

context block_store_contract
begin

lemma fill_segments_patch:
  assumes "0 < block_size layout"
    and "\<forall>(l, r, s)\<in>set parts. part_ok (l, r, s) \<and> sl_offset s + sl_length s < 2 ^ 64 \<and> sl_length s \<le> 2 ^ 32 * block_size layout"
    and "sorted_wrt (\<lambda>x y. fst (snd x) \<le> fst y) parts"
    and "\<forall>x\<in>set parts. offset + cursor \<le> fst x \<and> fst (snd x) \<le> offset + cursor + length buf"
  shows "fill_segments bs layout offset parts cursor buf st =
    Some (patch (part_byte (slice_byte block (block_size layout) st) parts) (offset + cursor) buf)"
  using assms(2-)
proof (induction parts arbitrary: cursor buf)
  case Nil
  then show ?case by (simp add: patch_none part_byte_def)
next
  case (Cons x parts)
  obtain l r s where x: "x = (l, r, s)" by (cases x)
  let ?sb = "slice_byte block (block_size layout) st"
  let ?f = "part_byte ?sb (x # parts)"
  define gap where "gap = l - (offset + cursor)"
  define n where "n = r - l"
  have ok: "l < r" "sl_offset s \<le> l" "r \<le> sl_offset s + sl_length s" "sl_offset s + sl_length s < 2 ^ 64"
    "sl_length s \<le> 2 ^ 32 * block_size layout" "offset + cursor \<le> l" "r \<le> offset + cursor + length buf"
    using Cons.prems(1,3) by (auto simp: x part_ok_def)
  have pos: "offset + cursor + gap = l" "l + n = r" "gap + n \<le> length buf" "0 < n"
    using ok by (auto simp: gap_def n_def)
  have ends: "sub64 l offset = cursor + gap" "sub64 r l = n" "sub64 (cursor + gap) cursor = gap"
    "sub64 l (sl_offset s) = l - sl_offset s" "cursor + gap + n = r - offset"
    using ok pos by (auto simp: sub64_def)
  have later: "r \<le> fst y" if "y \<in> set parts" for y using Cons.prems(2) that by (simp add: x)
  have seg: "read_slice bs layout (slice_id s) (l - sl_offset s) n (take n (drop gap buf)) st =
      Some (patch (?sb (slice_id s)) (l - sl_offset s) (take n (drop gap buf)))"
    using ok pos assms(1) by (intro read_slice_patch) auto
  have r: "offset + (cursor + gap + n) = r" using pos(1,2) by simp
  have "\<forall>y\<in>set parts. offset + (cursor + gap + n) \<le> fst y \<and>
      fst (snd y) \<le> offset + (cursor + gap + n) + length (drop (gap + n) buf)"
    using later Cons.prems(3) pos unfolding r by auto
  then have rest: "fill_segments bs layout offset parts (cursor + gap + n) (drop (gap + n) buf) st =
      Some (patch (part_byte ?sb parts) r (drop (gap + n) buf))"
    using Cons.IH [of "cursor + gap + n" "drop (gap + n) buf"] Cons.prems(1,2) unfolding r by simp
  have "fill_segments bs layout offset (x # parts) cursor buf st =
      Some (take gap buf @ patch (?sb (slice_id s)) (l - sl_offset s) (take n (drop gap buf)) @
        patch (part_byte ?sb parts) r (drop (gap + n) buf))"
    using pos(3) seg rest by (simp add: x ends(1-4) Let_def)
  moreover have "patch ?f (offset + cursor) (take gap buf) = take gap buf"
  proof (rule patch_none, rule part_byte_none, rule ballI)
    fix i y assume "i < length (take gap buf)" "y \<in> set (x # parts)"
    then show "\<not> in_part (offset + cursor + i) y"
      using later [of y] pos ok(1) by (auto simp: x in_part_def)
  qed
  moreover have "patch ?f l (take n (drop gap buf)) = patch (?sb (slice_id s)) (l - sl_offset s) (take n (drop gap buf))"
    using pos(2) ok(2) by (intro patch_cong) (simp add: x part_byte_head in_part_def)
  moreover have "patch ?f r (drop (gap + n) buf) = patch (part_byte ?sb parts) r (drop (gap + n) buf)"
    by (intro patch_cong) (simp add: x part_byte_skip in_part_def)
  moreover have "patch ?f (offset + cursor) buf =
      patch ?f (offset + cursor) (take gap buf) @ patch ?f l (take n (drop gap buf)) @ patch ?f r (drop (gap + n) buf)"
  proof -
    have "patch ?f (offset + cursor) buf = patch ?f (offset + cursor) (take gap buf) @ patch ?f l (drop gap buf)"
      using patch_split [of gap buf ?f "offset + cursor"] pos(1,3) by simp
    moreover have "patch ?f l (drop gap buf) = patch ?f l (take n (drop gap buf)) @ patch ?f r (drop (gap + n) buf)"
      using patch_split [of n "drop gap buf" ?f l] pos(2,3) by (simp add: add.commute)
    ultimately show ?thesis by simp
  qed
  ultimately show ?case by simp
qed

end

section \<open>The bytes of a chunk\<close>

text \<open>
  The specification of a read: the byte of the newest slice that covers the position, and zero where there is no slice or
  no data. The layout is such that the blocks of a chunk can be numbered with 32 bits.
\<close>

definition chunk_byte :: "(nat \<Rightarrow> nat \<Rightarrow> u8 option) \<Rightarrow> slice_desc list \<Rightarrow> nat \<Rightarrow> u8" where
  "chunk_byte sb slices p =
     (case List.find (covers p) (rev slices) of
        None \<Rightarrow> 0
      | Some s \<Rightarrow> (case sb (slice_id s) (p - sl_offset s) of Some v \<Rightarrow> v | None \<Rightarrow> 0))"

definition layout_ok :: "chunk_layout \<Rightarrow> bool" where
  "layout_ok layout \<longleftrightarrow> 0 < block_size layout \<and> chunk_size layout < 2 ^ 64 \<and> chunk_size layout \<le> 2 ^ 32 * block_size layout"

definition slice_ok :: "chunk_layout \<Rightarrow> slice_desc \<Rightarrow> bool" where
  "slice_ok layout s \<longleftrightarrow> sl_offset s + sl_length s \<le> chunk_size layout"

lemma part_byte_chunk_byte:
  assumes "\<forall>s. List.find (covers p) (rev slices) = Some s \<longleftrightarrow> (\<exists>x\<in>set parts. in_part p x \<and> snd (snd x) = s)"
  shows "(case part_byte sb parts p of Some v \<Rightarrow> v | None \<Rightarrow> 0) = chunk_byte sb slices p"
proof (cases "List.find (in_part p) parts")
  case None
  then have "\<forall>x\<in>set parts. \<not> in_part p x" by (auto simp: find_None_iff)
  then have "List.find (covers p) (rev slices) = None" using assms by (metis not_None_eq)
  then show ?thesis using None by (simp add: part_byte_def chunk_byte_def)
next
  case (Some x)
  then have "x \<in> set parts" "in_part p x" by (auto simp: find_Some_iff)
  then have "List.find (covers p) (rev slices) = Some (snd (snd x))" using assms by blast
  then show ?thesis using Some by (simp add: part_byte_def chunk_byte_def split: prod.split)
qed

context block_store_contract
begin

lemma read_at_bytes:
  assumes "layout_ok layout" "\<forall>s\<in>set (df_slices df). slice_ok layout s" "df_prepared df" "offset + len < 2 ^ 64"
  shows "read_at bs layout df offset len st =
    Some (Inr (map (chunk_byte (slice_byte block (block_size layout) st) (df_slices df)) [offset..<offset + len]))"
proof (cases "len = 0")
  case False
  let ?ivs = "[(offset, offset + len)]" and ?ss = "rev (df_slices df)"
  let ?sb = "slice_byte block (block_size layout) st"
  define parts where "parts = sort_key fst (build_need_read ?ss ?ivs)"
  have bounds: "sl_offset s + sl_length s < 2 ^ 64 \<and> sl_length s \<le> 2 ^ 32 * block_size layout" if "s \<in> set ?ss" for s
    using assms(1,2) that by (force simp: slice_ok_def layout_ok_def)
  have sep: "separated ?ivs" using False by (simp add: separated_def)
  note spec = build_need_read_spec [OF sep, of ?ss]
  have parts: "\<forall>x\<in>set parts. part_ok x \<and> (\<forall>p. in_part p x \<longrightarrow> p \<in> pts ?ivs)"
    "\<forall>p\<in>pts ?ivs. \<forall>s. List.find (covers p) ?ss = Some s \<longleftrightarrow> (\<exists>x\<in>set parts. in_part p x \<and> snd (snd x) = s)"
    and apart: "sorted_wrt apart (build_need_read ?ss ?ivs)"
    using spec bounds unfolding parts_def set_sort by blast+
  have slices: "snd (snd x) \<in> set ?ss" if "x \<in> set parts" for x
  proof -
    have "in_part (fst x) x" using parts(1) that by (auto simp: part_ok_def in_part_def)
    then have "List.find (covers (fst x)) ?ss = Some (snd (snd x))" using parts that by blast
    then show ?thesis by (metis find_Some_iff nth_mem)
  qed
  have inside: "\<forall>x\<in>set parts. offset + 0 \<le> fst x \<and> fst (snd x) \<le> offset + 0 + length (replicate len (0 :: u8))"
  proof
    fix x assume x: "x \<in> set parts"
    then have "fst x < fst (snd x)" "in_part (fst x) x" "in_part (fst (snd x) - 1) x"
      using parts(1) by (auto simp: part_ok_def in_part_def)
    then show "offset + 0 \<le> fst x \<and> fst (snd x) \<le> offset + 0 + length (replicate len (0 :: u8))"
      using parts(1) x by fastforce
  qed
  have "fill_segments bs layout offset parts 0 (replicate len 0) st = Some (patch (part_byte ?sb parts) (offset + 0) (replicate len 0))"
  proof (rule fill_segments_patch [OF _ _ _ inside])
    show "0 < block_size layout" using assms(1) by (simp add: layout_ok_def)
    show "\<forall>(l, r, s)\<in>set parts. part_ok (l, r, s) \<and> sl_offset s + sl_length s < 2 ^ 64 \<and> sl_length s \<le> 2 ^ 32 * block_size layout"
      using parts(1) slices bounds by fastforce
    show "sorted_wrt (\<lambda>x y. fst (snd x) \<le> fst y) parts"
      unfolding parts_def using parts(1) apart by (intro sorted_parts_follow) (simp_all add: parts_def)
  qed
  moreover have "patch (part_byte ?sb parts) offset (replicate len 0) = map (chunk_byte ?sb (df_slices df)) [offset..<offset + len]"
    using parts(2) by (intro nth_equalityI) (simp_all add: patch_replicate part_byte_chunk_byte)
  ultimately show ?thesis
    using False assms(3,4) by (simp add: read_at_def parts_def add64_def Let_def)
qed (simp add: read_at_def)

end

end
