(* ===== verification/Slayer_Upload.thy ===== *)
theory Slayer_Upload
  imports Slayer_Data
begin

text \<open>
  The uploader stores the bytes it is given, and so a read after a write returns what was written. The properties of the
  chunk storage are stated here, for the store over objects and for the store in memory.
\<close>

section \<open>The cursor over the segments\<close>

definition rest_bytes :: "data list \<Rightarrow> chunk_cursor \<Rightarrow> data" where
  "rest_bytes chunks cur =
     (if cc_idx cur < length chunks then drop (cc_off cur) (chunks ! cc_idx cur) @ concat (drop (Suc (cc_idx cur)) chunks)
      else [])"

definition cursor_ok :: "data list \<Rightarrow> chunk_cursor \<Rightarrow> bool" where
  "cursor_ok chunks cur \<longleftrightarrow> (cc_idx cur < length chunks \<longrightarrow> cc_off cur \<le> length (chunks ! cc_idx cur))"

lemma rest_bytes_next:
  assumes "cc_idx cur < length chunks"
  shows "rest_bytes chunks \<lparr>cc_idx = Suc (cc_idx cur), cc_off = 0\<rparr> = concat (drop (Suc (cc_idx cur)) chunks)"
  using assms by (auto simp: rest_bytes_def Cons_nth_drop_Suc [symmetric])

lemma cursor_take_spec:
  assumes "need \<le> length (rest_bytes chunks cur)" "cursor_ok chunks cur"
  shows "\<exists>out' cur'. cursor_take chunks need cur out = Some (out', cur') \<and> cursor_ok chunks cur' \<and>
    concat out' = concat out @ take need (rest_bytes chunks cur) \<and> rest_bytes chunks cur' = drop need (rest_bytes chunks cur)"
  using assms
proof (induction chunks need cur out rule: cursor_take.induct)
  case (1 chunks need cur out)
  show ?case
  proof (cases "need = 0")
    case True
    then show ?thesis using 1(3) by (simp add: cursor_take.simps)
  next
    case False
    then have idx: "cc_idx cur < length chunks" using 1(2) by (auto simp: rest_bytes_def split: if_splits)
    define chunk where "chunk = chunks ! cc_idx cur"
    define n where "n = min need (length chunk - cc_off cur)"
    define cur' where "cur' = (if cc_off cur + n = length chunk then \<lparr>cc_idx = cc_idx cur + 1, cc_off = 0\<rparr>
      else cur\<lparr>cc_off := cc_off cur + n\<rparr>)"
    have off: "cc_off cur \<le> length chunk" using 1(3) idx by (simp add: cursor_ok_def chunk_def)
    have rest: "rest_bytes chunks cur = drop (cc_off cur) chunk @ concat (drop (Suc (cc_idx cur)) chunks)"
      using idx by (simp add: rest_bytes_def chunk_def)
    have rest': "rest_bytes chunks cur' = drop n (rest_bytes chunks cur)"
      using rest_bytes_next [OF idx] off idx by (auto simp: cur'_def rest n_def) (auto simp: rest_bytes_def chunk_def add.commute)
    have ok: "cursor_ok chunks cur'"
      using off idx by (auto simp: cur'_def cursor_ok_def n_def chunk_def)
    have n: "n \<le> need" "take n (rest_bytes chunks cur) = take n (drop (cc_off cur) chunk)" by (auto simp: n_def rest)
    have step: "cursor_take chunks need cur out = cursor_take chunks (need - n) cur' (out @ [take n (drop (cc_off cur) chunk)])"
      using False idx off by (subst cursor_take.simps) (simp add: chunk_def n_def cur'_def Let_def)
    have "\<exists>out' cur''. cursor_take chunks (need - n) cur' (out @ [take n (drop (cc_off cur) chunk)]) = Some (out', cur'') \<and>
        cursor_ok chunks cur'' \<and>
        concat out' = concat (out @ [take n (drop (cc_off cur) chunk)]) @ take (need - n) (rest_bytes chunks cur') \<and>
        rest_bytes chunks cur'' = drop (need - n) (rest_bytes chunks cur')"
      using 1(1) [OF False _ chunk_def refl n_def refl cur'_def] idx off ok 1(2) rest' by simp
    moreover have "take n (drop (cc_off cur) chunk) @ take (need - n) (rest_bytes chunks cur') = take need (rest_bytes chunks cur)"
      unfolding n(2) [symmetric] rest' using n(1) by (metis add_diff_inverse_nat not_less take_add)
    moreover have "drop (need - n) (rest_bytes chunks cur') = drop need (rest_bytes chunks cur)"
      using n(1) by (simp add: rest')
    ultimately show ?thesis unfolding step by simp
  qed
qed

section \<open>Uploading\<close>

fun upload_all :: "'st block_store \<Rightarrow> chunk_layout \<Rightarrow> (nat \<times> data list) list \<Rightarrow> 'st \<Rightarrow> 'st option" where
  "upload_all bs layout [] st = Some st"
| "upload_all bs layout ((sid, chunks) # ups) st =
     (case write_at_vectored bs layout sid 0 chunks st of
        None \<Rightarrow> None
      | Some st' \<Rightarrow> upload_all bs layout ups st')"

context block_store_contract
begin

text \<open>One block, written at its start where nothing was before.\<close>

lemma slice_byte_block:
  assumes "a mod B = 0" "block st1 = (block st)((sid, a div B) \<mapsto> d)" "block st (sid, a div B) = None"
    "0 < B" "length d \<le> B"
  shows "slice_byte block B st1 sid p = (if a \<le> p \<and> p < a + length d then Some (d ! (p - a)) else slice_byte block B st sid p)"
proof (cases "p div B = a div B")
  case True
  have "a = a div B * B" using assms(1) by (simp add: mod_eq_0_iff_dvd)
  moreover have "p = p div B * B + p mod B" by simp
  ultimately have "p = a + p mod B" using True by metis
  then have "p - a = p mod B" "a \<le> p" by linarith+
  then show ?thesis using assms(2,3) True by (auto simp: slice_byte_def byte_at_def)
next
  case False
  then have "\<not> (a \<le> p \<and> p < a + length d)"
    using div_mod_within(1) [of a B "p - a"] assms(1,5) by (cases "p - a < B") auto
  then show ?thesis using False assms(2) by (auto simp: slice_byte_def)
qed

lemma upload_spans_bytes:
  assumes "0 < B" "n \<le> length (rest_bytes chunks cur)" "cursor_ok chunks cur" "a + n \<le> 2 ^ 32 * B"
    and "n = 0 \<or> a mod B = 0 \<and> (\<forall>j\<ge>a div B. block st (sid, j) = None)"
  shows "\<exists>st'. upload_spans bs sid chunks (spans B a n) cur st = Some st' \<and>
    (\<forall>k. fst k \<noteq> sid \<longrightarrow> block st' k = block st k) \<and>
    (\<forall>p. slice_byte block B st' sid p =
       (if a \<le> p \<and> p < a + n then Some (rest_bytes chunks cur ! (p - a)) else slice_byte block B st sid p))"
  using assms(2-)
proof (induction a n arbitrary: cur st rule: spans_induct [OF assms(1)])
  case (1 a)
  then show ?case by auto
next
  case (2 a n t)
  note hyps = 2(1-6) and IH = 2(7) and len = 2(8) and ok = 2(9) and bound = 2(10)
  let ?d = "take t (rest_bytes chunks cur)"
  have fresh: "a mod B = 0" "\<And>j. a div B \<le> j \<Longrightarrow> block st (sid, j) = None" using 2(11) hyps(1) by auto
  obtain out cur' where cur': "cursor_take chunks t cur [] = Some (out, cur')" "cursor_ok chunks cur'" "concat out = ?d"
    "rest_bytes chunks cur' = drop t (rest_bytes chunks cur)"
    using cursor_take_spec [OF _ ok, of t "[]"] len hyps(3) by auto
  have idx: "as_u32 (a div B) = a div B"
    using hyps(1) bound assms(1) by (intro block_index_bound) auto
  have d: "length ?d = t" "?d \<noteq> []" using len hyps(2,3) by auto
  define st1 where "st1 = bs_write_fresh_vectored bs (sid, a div B) 0 out st"
  have st1: "block st1 = (block st)((sid, a div B) \<mapsto> ?d)"
    using write_fresh [OF fresh(2) [OF order_refl], of out 0] cur'(3) d(2) by (simp add: st1_def)
  have one: "slice_byte block B st1 sid p = (if a \<le> p \<and> p < a + t then Some (?d ! (p - a)) else slice_byte block B st sid p)" for p
    using slice_byte_block [OF fresh(1) st1 fresh(2) [OF order_refl] assms(1)] d(1) hyps(4) by simp
  have "n - t = 0 \<or> (a + t) mod B = 0 \<and> (\<forall>j\<ge>(a + t) div B. block st1 (sid, j) = None)"
    using hyps(5) fresh assms(1) by (auto simp: st1 div_add1_eq mod_add_left_eq [symmetric])
  then obtain st' where st': "upload_spans bs sid chunks (spans B (a + t) (n - t)) cur' st1 = Some st'"
    "\<forall>k. fst k \<noteq> sid \<longrightarrow> block st' k = block st1 k"
    "\<forall>p. slice_byte block B st' sid p = (if a + t \<le> p \<and> p < a + t + (n - t)
       then Some (rest_bytes chunks cur' ! (p - (a + t))) else slice_byte block B st1 sid p)"
    using IH [of cur' st1, OF _ cur'(2)] len bound hyps(3) diff_le_mono [OF len, of t] by (auto simp: cur'(4))
  have "upload_spans bs sid chunks (spans B a n) cur st = Some st'"
    using hyps(6) cur'(1) st'(1) idx fresh(1) by (simp add: st1_def)
  moreover have "\<forall>k. fst k \<noteq> sid \<longrightarrow> block st' k = block st k" using st'(2) by (auto simp: st1)
  moreover have "slice_byte block B st' sid p =
      (if a \<le> p \<and> p < a + n then Some (rest_bytes chunks cur ! (p - a)) else slice_byte block B st sid p)" for p
    using st'(3) one [of p] hyps(3) len by (auto simp: cur'(4))
  ultimately show ?case by blast
qed

lemma write_at_vectored_bytes:
  assumes "0 < block_size layout" "a mod block_size layout = 0" "\<forall>j\<ge>a div block_size layout. block st (sid, j) = None"
    and "a + length (concat chunks) \<le> 2 ^ 32 * block_size layout" "a + length (concat chunks) < 2 ^ 64"
  shows "\<exists>st'. write_at_vectored bs layout sid a chunks st = Some st' \<and>
    (\<forall>k. fst k \<noteq> sid \<longrightarrow> block st' k = block st k) \<and>
    (\<forall>p. slice_byte block (block_size layout) st' sid p =
       (if a \<le> p \<and> p < a + length (concat chunks) then Some (concat chunks ! (p - a))
        else slice_byte block (block_size layout) st sid p))"
proof -
  let ?cur = "\<lparr>cc_idx = 0, cc_off = 0\<rparr>"
  have rest: "rest_bytes chunks ?cur = concat chunks"
    by (cases chunks) (auto simp: rest_bytes_def)
  have "sum_list (map length chunks) = length (concat chunks)" by (simp add: length_concat)
  moreover have "cursor_ok chunks ?cur" by (simp add: cursor_ok_def)
  ultimately show ?thesis
    using upload_spans_bytes [of "block_size layout" "length (concat chunks)" chunks ?cur a st sid, unfolded rest] assms
      block_spans [OF assms(1,5)]
    by (simp add: write_at_vectored_def rest)
qed

text \<open>An upload of a new slice seen through the fetcher.\<close>

lemma chunk_byte_append:
  "chunk_byte sb (slices @ [s]) p =
     (if covers p s then (case sb (slice_id s) (p - sl_offset s) of Some v \<Rightarrow> v | None \<Rightarrow> 0) else chunk_byte sb slices p)"
  by (simp add: chunk_byte_def)

lemma chunk_byte_cong:
  assumes "\<forall>s\<in>set slices. \<forall>p < sl_length s. sb (slice_id s) p = sb' (slice_id s) p"
  shows "chunk_byte sb slices p = chunk_byte sb' slices p"
proof (cases "List.find (covers p) (rev slices)")
  case (Some s)
  then have "s \<in> set slices" "covers p s" by (auto simp: find_Some_iff) (metis nth_mem set_rev length_rev)
  then show ?thesis using Some assms by (auto simp: chunk_byte_def covers_def)
qed (simp add: chunk_byte_def)

lemma slice_byte_cong:
  "\<forall>j. block st' (sid, j) = block st (sid, j) \<Longrightarrow> slice_byte block B st' sid p = slice_byte block B st sid p"
  by (simp add: slice_byte_def)

lemma write_then_read_bytes:
  assumes "layout_ok layout" "\<forall>s\<in>set slices. slice_ok layout s \<and> slice_id s \<noteq> slice_id new" "slice_ok layout new"
    and "sl_length new = length (concat chunks)" "\<forall>j. block st (slice_id new, j) = None" "offset + len < 2 ^ 64"
  shows "\<exists>st' old. write_at_vectored bs layout (slice_id new) 0 chunks st = Some st' \<and>
    read_at bs layout \<lparr>df_id = c, df_slices = slices, df_prepared = True\<rparr> offset len st = Some (Inr old) \<and>
    read_at bs layout \<lparr>df_id = c, df_slices = slices @ [new], df_prepared = True\<rparr> offset len st' =
      Some (Inr (map (\<lambda>i. if sl_offset new \<le> offset + i \<and> offset + i < sl_offset new + sl_length new
        then concat chunks ! (offset + i - sl_offset new) else old ! i) [0..<len]))"
proof -
  let ?B = "block_size layout"
  obtain st' where st': "write_at_vectored bs layout (slice_id new) 0 chunks st = Some st'"
    "\<forall>k. fst k \<noteq> slice_id new \<longrightarrow> block st' k = block st k"
    "\<forall>p. slice_byte block ?B st' (slice_id new) p = (if p < length (concat chunks) then Some (concat chunks ! p)
       else slice_byte block ?B st (slice_id new) p)"
    using write_at_vectored_bytes [of layout 0 st "slice_id new" chunks] assms(1,3,4,5)
    by (auto simp: layout_ok_def slice_ok_def)
  have others: "chunk_byte (slice_byte block ?B st') slices p = chunk_byte (slice_byte block ?B st) slices p" for p
    using assms(2) st'(2) by (intro chunk_byte_cong) (auto intro!: slice_byte_cong)
  have new: "chunk_byte (slice_byte block ?B st') (slices @ [new]) p =
      (if sl_offset new \<le> p \<and> p < sl_offset new + sl_length new then concat chunks ! (p - sl_offset new)
       else chunk_byte (slice_byte block ?B st) slices p)" for p
    using st'(3) assms(4) by (auto simp: chunk_byte_append covers_def others)
  let ?old = "map (chunk_byte (slice_byte block ?B st) slices) [offset..<offset + len]"
  have before: "read_at bs layout \<lparr>df_id = c, df_slices = slices, df_prepared = True\<rparr> offset len st = Some (Inr ?old)"
    using assms(1,2,6) by (subst read_at_bytes) auto
  have after: "read_at bs layout \<lparr>df_id = c, df_slices = slices @ [new], df_prepared = True\<rparr> offset len st' =
      Some (Inr (map (chunk_byte (slice_byte block ?B st') (slices @ [new])) [offset..<offset + len]))"
    using assms(1,2,3,6) by (subst read_at_bytes) auto
  have bytes: "map (chunk_byte (slice_byte block ?B st') (slices @ [new])) [offset..<offset + len] =
      map (\<lambda>i. if sl_offset new \<le> offset + i \<and> offset + i < sl_offset new + sl_length new
        then concat chunks ! (offset + i - sl_offset new) else ?old ! i) [0..<len]"
    by (rule nth_equalityI) (auto simp: new)
  show ?thesis by (rule exI [of _ st'], rule exI [of _ ?old]) (intro conjI st'(1) before after [unfolded bytes])
qed

text \<open>Many uploads, each under a slice id of its own.\<close>

lemma upload_all_bytes:
  assumes "layout_ok layout" "distinct (map fst ups)"
    and "\<forall>u\<in>set ups. length (concat (snd u)) \<le> chunk_size layout \<and> (\<forall>j. block st (fst u, j) = None)"
  shows "\<exists>st'. upload_all bs layout ups st = Some st' \<and>
    (\<forall>sid p. slice_byte block (block_size layout) st' sid p =
       (case map_of ups sid of
          None \<Rightarrow> slice_byte block (block_size layout) st sid p
        | Some chunks \<Rightarrow> if p < length (concat chunks) then Some (concat chunks ! p) else None))"
  using assms(2,3)
proof (induction ups arbitrary: st)
  case (Cons u ups)
  obtain sid chunks where u: "u = (sid, chunks)" by fastforce
  let ?B = "block_size layout"
  obtain st1 where st1: "write_at_vectored bs layout sid 0 chunks st = Some st1"
    "\<forall>k. fst k \<noteq> sid \<longrightarrow> block st1 k = block st k"
    "\<forall>p. slice_byte block ?B st1 sid p = (if p < length (concat chunks) then Some (concat chunks ! p) else slice_byte block ?B st sid p)"
    using write_at_vectored_bytes [of layout 0 st sid chunks] assms(1) Cons.prems u by (auto simp: layout_ok_def)
  have fresh: "slice_byte block ?B st sid p = None" for p
    using Cons.prems(2) u by (simp add: slice_byte_def byte_at_def)
  have "\<forall>v\<in>set ups. length (concat (snd v)) \<le> chunk_size layout \<and> (\<forall>j. block st1 (fst v, j) = None)"
    using Cons.prems st1(2) u by force
  then obtain st' where st': "upload_all bs layout ups st1 = Some st'"
    "\<forall>sid p. slice_byte block ?B st' sid p = (case map_of ups sid of None \<Rightarrow> slice_byte block ?B st1 sid p
       | Some chunks \<Rightarrow> if p < length (concat chunks) then Some (concat chunks ! p) else None)"
    using Cons.IH [of st1] Cons.prems(1) by auto
  have "map_of ups sid = None" using Cons.prems(1) u by (auto simp: map_of_eq_None_iff)
  moreover have "slice_byte block ?B st1 i p = slice_byte block ?B st i p" if "i \<noteq> sid" for i p
    using st1(2) that by (intro slice_byte_cong) auto
  ultimately show ?case
    using st1 st' fresh u by (auto split: option.splits)
qed simp

end

section \<open>Properties\<close>

text \<open>
  C10: Read after write. The upload of a slice under a fresh slice id succeeds, and once its descriptor is appended to
  the list of the chunk, every read returns the uploaded bytes inside the range of the slice and what it returned before
  the upload everywhere else.
\<close>

theorem write_then_read:
  assumes "layout_ok layout" "\<forall>s\<in>set slices. slice_ok layout s \<and> slice_id s \<noteq> slice_id new" "slice_ok layout new"
    and "sl_length new = length (concat chunks)" "\<forall>j. get_object (key_for (slice_id new, j)) fs = None" "offset + len < 2 ^ 64"
  shows "\<exists>fs' old. write_at_vectored (object_store threshold) layout (slice_id new) 0 chunks fs = Some fs' \<and>
    read_at (object_store threshold) layout \<lparr>df_id = c, df_slices = slices, df_prepared = True\<rparr> offset len fs = Some (Inr old) \<and>
    read_at (object_store threshold) layout \<lparr>df_id = c, df_slices = slices @ [new], df_prepared = True\<rparr> offset len fs' =
      Some (Inr (map (\<lambda>i. if sl_offset new \<le> offset + i \<and> offset + i < sl_offset new + sl_length new
        then concat chunks ! (offset + i - sl_offset new) else old ! i) [0..<len]))"
  by (rule obj.write_then_read_bytes [OF assms(1-4) assms(5) [unfolded get_object_def] assms(6)])

lemma example_read:
  "read_at (object_store 2) \<lparr>chunk_size = 16, block_size = 4\<rparr>
     \<lparr>df_id = 7, df_slices = [\<lparr>slice_id = 3, chunk_id = 7, sl_offset = 0, sl_length = 4\<rparr>], df_prepared = True\<rparr> 0 10
     [(key_for (3, 0), [1, 2, 3, 4])] = Some (Inr [1, 2, 3, 4, 0, 0, 0, 0, 0, 0])"
  by (subst obj.read_at_bytes)
    (simp_all add: layout_ok_def slice_ok_def chunk_byte_def covers_def slice_byte_def byte_at_def hm_get_def upt_rec)

theorem write_then_read_witness:
  "\<exists>fs'. write_at_vectored (object_store 2) \<lparr>chunk_size = 16, block_size = 4\<rparr> 5 0 [[9, 9], [8, 8, 8], [7]]
      [(key_for (3, 0), [1, 2, 3, 4])] = Some fs' \<and>
    read_at (object_store 2) \<lparr>chunk_size = 16, block_size = 4\<rparr>
      \<lparr>df_id = 7, df_slices = [\<lparr>slice_id = 3, chunk_id = 7, sl_offset = 0, sl_length = 4\<rparr>,
         \<lparr>slice_id = 5, chunk_id = 7, sl_offset = 2, sl_length = 6\<rparr>], df_prepared = True\<rparr> 0 10 fs' =
      Some (Inr [1, 2, 9, 9, 8, 8, 8, 7, 0, 0])"
proof -
  let ?layout = "\<lparr>chunk_size = 16, block_size = 4\<rparr>" and ?fs = "[(key_for (3, 0), [1, 2, 3, 4])]"
  let ?s = "\<lparr>slice_id = 3, chunk_id = 7, sl_offset = 0, sl_length = 4\<rparr>"
  let ?new = "\<lparr>slice_id = 5, chunk_id = 7, sl_offset = 2, sl_length = 6\<rparr>"
  have "\<forall>j. get_object (key_for (slice_id ?new, j)) ?fs = None" by (simp add: get_object_def hm_get_def)
  then obtain fs' old where "write_at_vectored (object_store 2) ?layout (slice_id ?new) 0 [[9, 9], [8, 8, 8], [7]] ?fs = Some fs'"
    "Some (Inr [1, 2, 3, 4, 0, 0, 0, 0, 0, 0]) = Some (Inr old)"
    "read_at (object_store 2) ?layout \<lparr>df_id = 7, df_slices = [?s] @ [?new], df_prepared = True\<rparr> 0 10 fs' =
      Some (Inr (map (\<lambda>i. if sl_offset ?new \<le> 0 + i \<and> 0 + i < sl_offset ?new + sl_length ?new
        then concat [[9, 9], [8, 8, 8], [7]] ! (0 + i - sl_offset ?new) else old ! i) [0..<10]))"
    using write_then_read [of ?layout "[?s]" ?new "[[9, 9], [8, 8, 8], [7]]" ?fs 0 10 2 7, unfolded example_read]
    by (auto simp: layout_ok_def slice_ok_def)
  then show ?thesis by (auto simp: upt_rec)
qed

text \<open>
  C15: The two block stores are interchangeable. After any uploads under different slice ids into an empty store, the store
  over objects, for every threshold between its two ways of reading, answers every read like the store in memory.
\<close>

theorem stores_agree:
  assumes "layout_ok layout" "distinct (map fst ups)" "\<forall>u\<in>set ups. length (concat (snd u)) \<le> chunk_size layout"
    and "\<forall>s\<in>set (df_slices df). slice_ok layout s" "offset + len < 2 ^ 64"
  shows "\<exists>st fs. upload_all in_memory_store layout ups [] = Some st \<and> upload_all (object_store threshold) layout ups [] = Some fs \<and>
    read_at (object_store threshold) layout df offset len fs = read_at in_memory_store layout df offset len st"
proof -
  let ?B = "block_size layout" and ?eb = "\<lambda>sid p. case map_of ups sid of None \<Rightarrow> None
     | Some chunks \<Rightarrow> if p < length (concat chunks) then Some (concat chunks ! p) else None"
  have empty: "slice_byte hm_get ?B [] sid p = None" "slice_byte (\<lambda>fs k. hm_get fs (key_for k)) ?B [] sid p = None" for sid p
    by (simp_all add: slice_byte_def byte_at_def)
  obtain st where st: "upload_all in_memory_store layout ups [] = Some st" "\<forall>sid p. slice_byte hm_get ?B st sid p = ?eb sid p"
    using mem.upload_all_bytes [OF assms(1,2), of "[]", unfolded empty] assms(3) by (meson hm_get_simps(1))
  obtain fs where fs: "upload_all (object_store threshold) layout ups [] = Some fs"
    "\<forall>sid p. slice_byte (\<lambda>fs k. hm_get fs (key_for k)) ?B fs sid p = ?eb sid p"
    using obj.upload_all_bytes [OF assms(1,2), of "[]" threshold, unfolded empty] assms(3) by (meson hm_get_simps(1))
  have same: "slice_byte (\<lambda>fs k. hm_get fs (key_for k)) ?B fs = slice_byte hm_get ?B st"
    by (intro ext) (simp only: st(2) fs(2))
  have "read_at (object_store threshold) layout df offset len fs = read_at in_memory_store layout df offset len st"
  proof (cases "df_prepared df")
    case True
    then show ?thesis
      using obj.read_at_bytes [OF assms(1,4) True assms(5), of threshold fs] mem.read_at_bytes [OF assms(1,4) True assms(5), of st]
      by (simp only: same)
  qed (simp add: read_at_def)
  then show ?thesis using st(1) fs(1) by blast
qed

theorem stores_agree_witness:
  "\<exists>st fs. upload_all in_memory_store \<lparr>chunk_size = 16, block_size = 4\<rparr> [(1, [[1, 2], [3]]), (2, [[4, 5, 6, 7, 8]])] [] = Some st \<and>
    upload_all (object_store 2) \<lparr>chunk_size = 16, block_size = 4\<rparr> [(1, [[1, 2], [3]]), (2, [[4, 5, 6, 7, 8]])] [] = Some fs \<and>
    read_at (object_store 2) \<lparr>chunk_size = 16, block_size = 4\<rparr>
      \<lparr>df_id = 7, df_slices = [\<lparr>slice_id = 2, chunk_id = 7, sl_offset = 1, sl_length = 5\<rparr>,
         \<lparr>slice_id = 1, chunk_id = 7, sl_offset = 0, sl_length = 3\<rparr>], df_prepared = True\<rparr> 0 8 fs =
    read_at in_memory_store \<lparr>chunk_size = 16, block_size = 4\<rparr>
      \<lparr>df_id = 7, df_slices = [\<lparr>slice_id = 2, chunk_id = 7, sl_offset = 1, sl_length = 5\<rparr>,
         \<lparr>slice_id = 1, chunk_id = 7, sl_offset = 0, sl_length = 3\<rparr>], df_prepared = True\<rparr> 0 8 st"
  by (rule stores_agree) (simp_all add: layout_ok_def slice_ok_def)

end
