(* ===== verification/Slayer_Meta.thy ===== *)
theory Slayer_Meta
  imports Slayer_Chunk F64 "HOL-Library.Product_Lexorder"
begin

text \<open>
  The slice tables of the metadata store of the file system, \<open>slayerfs/src/meta/stores/database/mod.rs\<close>, and the parts of
  \<open>chunk/slice.rs\<close> and \<open>chunk/compact\<close> that work on them: compaction and the collection of unused blocks. A table is the list of its
  rows in the order of their ids; a query with a limit takes the first rows. A transaction is one step. Errors of
  the database itself are left out. Time is in seconds and an argument.
\<close>

section \<open>Descriptors of slices\<close>

text \<open>The sweep of \<open>calculate_fragmentation\<close> over the sorted intervals.\<close>

fun merge_coverage :: "nat \<Rightarrow> nat \<Rightarrow> nat \<Rightarrow> (nat \<times> nat) list \<Rightarrow> nat" where
  "merge_coverage cur_start cur_end acc [] = add64 acc (sub64 cur_end cur_start)"
| "merge_coverage cur_start cur_end acc ((s, e) # rest) =
     (if s \<le> cur_end then merge_coverage cur_start (max cur_end e) acc rest
      else merge_coverage s e (add64 acc (sub64 cur_end cur_start)) rest)"

definition sum64 :: "nat list \<Rightarrow> nat" where
  "sum64 xs = foldl add64 0 xs"

definition calculate_fragmentation :: "slice_desc list \<Rightarrow> rat" where
  "calculate_fragmentation slices =
     (let total_size = sum64 (map sl_length slices)
      in if slices = [] \<or> total_size = 0 then 0
         else
           (case sort (map (\<lambda>s. (sl_offset s, slice_end s)) (filter (\<lambda>s. sl_length s > 0) slices)) of
              [] \<Rightarrow> 0
            | (s, e) # rest \<Rightarrow>
                f64_div (f64_of_u64 (of_nat (sub64 total_size (merge_coverage s e 0 rest)))) (f64_of_u64 (of_nat total_size))))"

text \<open>The loop of \<open>remove_fully_covered\<close> over the slices, newest first.\<close>

fun uncovered :: "(nat \<times> nat) list \<Rightarrow> slice_desc list \<Rightarrow> slice_desc list" where
  "uncovered covered_ranges [] = []"
| "uncovered covered_ranges (s # rest) =
     (let start = sl_offset s; fin = slice_end s;
          is_fully_covered = list_ex (\<lambda>(cs, ce). start \<ge> cs \<and> fin \<le> ce) covered_ranges;
          more = uncovered (covered_ranges @ [(start, fin)]) rest
      in if is_fully_covered then more else s # more)"

definition remove_fully_covered :: "slice_desc list \<Rightarrow> slice_desc list" where
  "remove_fully_covered slices =
     sort_key sl_offset (uncovered [] (sort_key (\<lambda>s. - int (slice_id s)) slices))"

definition find_replaced_ids :: "slice_desc list \<Rightarrow> slice_desc list \<Rightarrow> nat list" where
  "find_replaced_ids original merged =
     map slice_id (filter (\<lambda>s. slice_id s \<notin> set (map slice_id merged)) original)"

fun to_le_bytes :: "nat \<Rightarrow> nat \<Rightarrow> data" where
  "to_le_bytes 0 n = []"
| "to_le_bytes (Suc k) n = of_nat (n mod 256) # to_le_bytes k (n div 256)"

fun from_le_bytes :: "data \<Rightarrow> nat" where
  "from_le_bytes [] = 0"
| "from_le_bytes (b # bs) = unat b + 256 * from_le_bytes bs"

definition encode_record :: "slice_desc \<Rightarrow> data" where
  "encode_record s = to_le_bytes 8 (slice_id s) @ to_le_bytes 8 (sl_offset s) @ to_le_bytes 4 (min (sl_length s) (2 ^ 32 - 1))"

definition encode_delayed_data :: "slice_desc list \<Rightarrow> nat list \<Rightarrow> data" where
  "encode_delayed_data slices replaced_ids =
     concat (map encode_record (filter (\<lambda>s. slice_id s \<in> set replaced_ids) slices))"

function chunks_exact :: "nat \<Rightarrow> 'a list \<Rightarrow> 'a list list" where
  "chunks_exact n xs = (if n = 0 \<or> length xs < n then [] else take n xs # chunks_exact n (drop n xs))"
  by pat_completeness auto

termination
  by (relation "measure (\<lambda>(n, xs). length xs)") auto

declare chunks_exact.simps [simp del]

definition decode_record :: "data \<Rightarrow> nat \<times> nat \<times> nat" where
  "decode_record chunk =
     (from_le_bytes (take 8 chunk), from_le_bytes (take 8 (drop 8 chunk)), from_le_bytes (take 4 (drop 16 chunk)))"

definition decode_delayed_data :: "data \<Rightarrow> (nat \<times> nat \<times> nat) list option" where
  "decode_delayed_data bytes =
     (if length bytes mod 20 \<noteq> 0 then None else Some (map decode_record (chunks_exact 20 bytes)))"

section \<open>The tables\<close>

datatype delayed_status = DelayedPending | MetaDeleted

record delayed_slice =
  ds_id :: nat
  ds_slice_id :: nat
  ds_chunk_id :: nat
  ds_offset :: nat
  ds_size :: nat
  ds_created_at :: int
  ds_status :: delayed_status

datatype uncommitted_status = UncommittedPending | Orphan

record uncommitted_slice =
  us_id :: nat
  us_slice_id :: nat
  us_chunk_id :: nat
  us_size :: nat
  us_created_at :: int
  us_status :: uncommitted_status

text \<open>The counters are the next ids of slices and of the rows of the two other tables.\<close>

record meta_store =
  slice_meta :: "slice_desc list"
  delayed_slices :: "delayed_slice list"
  uncommitted_slices :: "uncommitted_slice list"
  slice_counter :: nat
  delayed_counter :: nat
  uncommitted_counter :: nat

datatype meta_error = Internal | ContinueRetry

definition get_slices :: "nat \<Rightarrow> meta_store \<Rightarrow> slice_desc list" where
  "get_slices cid m = filter (\<lambda>s. chunk_id s = cid) (slice_meta m)"

definition list_chunk_ids :: "nat \<Rightarrow> meta_store \<Rightarrow> nat list" where
  "list_chunk_ids limit m = take limit (remdups (map chunk_id (slice_meta m)))"

definition append_slice :: "nat \<Rightarrow> slice_desc \<Rightarrow> meta_store \<Rightarrow> meta_store" where
  "append_slice cid s m = m\<lparr>slice_meta := slice_meta m @ [s\<lparr>chunk_id := cid\<rparr>]\<rparr>"

text \<open>The counter is an \<open>i64\<close> with a checked addition.\<close>

definition next_id :: "meta_store \<Rightarrow> meta_error + nat \<times> meta_store" where
  "next_id m =
     (if slice_counter m + 1 \<ge> 2 ^ 63 then Inl Internal
      else Inr (slice_counter m, m\<lparr>slice_counter := slice_counter m + 1\<rparr>))"

fun insert_delayed :: "int \<Rightarrow> nat \<Rightarrow> (nat \<times> nat \<times> nat) list \<Rightarrow> meta_store \<Rightarrow> meta_store" where
  "insert_delayed now cid [] m = m"
| "insert_delayed now cid ((sid, offset, sz) # rest) m =
     insert_delayed now cid rest
       (m\<lparr>delayed_slices := delayed_slices m @
            [\<lparr>ds_id = delayed_counter m, ds_slice_id = sid, ds_chunk_id = cid, ds_offset = offset, ds_size = sz,
              ds_created_at = now, ds_status = DelayedPending\<rparr>],
          delayed_counter := delayed_counter m + 1\<rparr>)"

text \<open>The deletion of the old rows of the chunk and the insertion of the new ones.\<close>

definition swap_slices :: "nat \<Rightarrow> slice_desc list \<Rightarrow> nat list \<Rightarrow> meta_store \<Rightarrow> meta_store" where
  "swap_slices cid new_slices ids m =
     m\<lparr>slice_meta := filter (\<lambda>s. \<not> (chunk_id s = cid \<and> slice_id s \<in> set ids)) (slice_meta m) @
         map (\<lambda>s. s\<lparr>chunk_id := cid\<rparr>) new_slices\<rparr>"

definition replace_slices_for_compact ::
    "nat \<Rightarrow> slice_desc list \<Rightarrow> data \<Rightarrow> int \<Rightarrow> meta_store \<Rightarrow> meta_error + meta_store" where
  "replace_slices_for_compact cid new_slices old_slices_to_delay now m =
     (case decode_delayed_data old_slices_to_delay of
        None \<Rightarrow> Inl Internal
      | Some delayed \<Rightarrow> Inr (insert_delayed now cid delayed (swap_slices cid new_slices (map fst delayed) m)))"

text \<open>The rows of the chunk are compared with the expected ones by number and, through a hash map, one by one.\<close>

definition slices_match :: "slice_desc list \<Rightarrow> slice_desc list \<Rightarrow> bool" where
  "slices_match current expected \<longleftrightarrow>
     length current = length expected \<and>
     list_all (\<lambda>e. map_of (rev (map (\<lambda>s. (slice_id s, (sl_offset s, sl_length s))) current)) (slice_id e) =
       Some (sl_offset e, sl_length e)) expected"

definition confirm_slice_committed :: "nat \<Rightarrow> meta_store \<Rightarrow> meta_store" where
  "confirm_slice_committed sid m =
     m\<lparr>uncommitted_slices := filter (\<lambda>u. us_slice_id u \<noteq> sid) (uncommitted_slices m)\<rparr>"

definition replace_slices_for_compact_with_version ::
    "nat \<Rightarrow> slice_desc list \<Rightarrow> data \<Rightarrow> slice_desc list \<Rightarrow> int \<Rightarrow> meta_store \<Rightarrow> meta_error + meta_store" where
  "replace_slices_for_compact_with_version cid new_slices old_slices_to_delay expected_slices now m =
     (case decode_delayed_data old_slices_to_delay of
        None \<Rightarrow> Inl Internal
      | Some delayed \<Rightarrow>
          if \<not> slices_match (get_slices cid m) expected_slices then Inl ContinueRetry
          else Inr (fold (\<lambda>s. confirm_slice_committed (slice_id s)) new_slices
            (insert_delayed now cid delayed (swap_slices cid new_slices (map fst delayed) m))))"

definition record_uncommitted_slice :: "nat \<Rightarrow> nat \<Rightarrow> nat \<Rightarrow> int \<Rightarrow> meta_store \<Rightarrow> meta_store" where
  "record_uncommitted_slice sid cid sz now m =
     m\<lparr>uncommitted_slices := uncommitted_slices m @
          [\<lparr>us_id = uncommitted_counter m, us_slice_id = sid, us_chunk_id = cid, us_size = sz,
            us_created_at = now, us_status = UncommittedPending\<rparr>],
       uncommitted_counter := uncommitted_counter m + 1\<rparr>"

section \<open>Collection of unused slices\<close>

definition process_delayed_one :: "delayed_slice \<Rightarrow> meta_store \<Rightarrow> meta_store" where
  "process_delayed_one d m =
     (if ds_status d = MetaDeleted then m
      else m\<lparr>slice_meta := filter (\<lambda>s. slice_id s \<noteq> ds_slice_id d) (slice_meta m),
             delayed_slices := map (\<lambda>x. if ds_id x = ds_id d then x\<lparr>ds_status := MetaDeleted\<rparr> else x) (delayed_slices m)\<rparr>)"

definition process_delayed_slices ::
    "nat \<Rightarrow> int \<Rightarrow> int \<Rightarrow> meta_store \<Rightarrow> (nat \<times> nat \<times> nat \<times> nat) list \<times> meta_store" where
  "process_delayed_slices batch_size max_age_secs now m =
     (let ds = take batch_size (filter (\<lambda>d. ds_created_at d < now - max_age_secs) (delayed_slices m))
      in (map (\<lambda>d. (ds_slice_id d, ds_offset d, ds_size d, ds_id d)) ds, fold process_delayed_one ds m))"

definition confirm_delayed_deleted :: "nat list \<Rightarrow> meta_store \<Rightarrow> meta_store" where
  "confirm_delayed_deleted ids m = m\<lparr>delayed_slices := filter (\<lambda>d. ds_id d \<notin> set ids) (delayed_slices m)\<rparr>"

definition cleanup_orphan_one ::
    "uncommitted_slice \<Rightarrow> (nat \<times> nat) list \<times> meta_store \<Rightarrow> (nat \<times> nat) list \<times> meta_store" where
  "cleanup_orphan_one u = (\<lambda>(cleaned, m).
     if list_ex (\<lambda>s. slice_id s = us_slice_id u) (slice_meta m)
     then (cleaned, m\<lparr>uncommitted_slices := filter (\<lambda>x. us_id x \<noteq> us_id u) (uncommitted_slices m)\<rparr>)
     else (cleaned @ [(us_slice_id u, us_size u)],
       m\<lparr>uncommitted_slices := map (\<lambda>x. if us_id x = us_id u then x\<lparr>us_status := Orphan\<rparr> else x) (uncommitted_slices m)\<rparr>))"

definition cleanup_orphan_uncommitted_slices ::
    "int \<Rightarrow> nat \<Rightarrow> int \<Rightarrow> meta_store \<Rightarrow> (nat \<times> nat) list \<times> meta_store" where
  "cleanup_orphan_uncommitted_slices max_age_secs batch_size now m =
     (let pending = take batch_size (filter (\<lambda>u. us_status u = UncommittedPending \<and> us_created_at u < now - max_age_secs)
            (uncommitted_slices m));
          orphans = take batch_size (filter (\<lambda>u. us_status u = Orphan) (uncommitted_slices m));
          (cleaned, m') = fold cleanup_orphan_one pending ([], m)
      in (cleaned @ map (\<lambda>u. (us_slice_id u, us_size u)) orphans, m'))"

definition delete_uncommitted_slices :: "nat list \<Rightarrow> meta_store \<Rightarrow> meta_store" where
  "delete_uncommitted_slices sids m =
     m\<lparr>uncommitted_slices := filter (\<lambda>u. us_slice_id u \<notin> set sids) (uncommitted_slices m)\<rparr>"

end
