(* ===== verification/Spec2Isabelle.thy ===== *)
theory Spec2Isabelle
  imports Sched_Properties Sched_Refine Sched_Behaviour Sched_Xline Vault_Core Ipam_Commands Slayer_Upload Slayer_Meta
begin

text \<open>
  A verification development for rk8s, a container orchestrator in Rust (\<open>project/\<close>). The system has an
  API server (\<open>rks\<close>) over a replicated key-value store (\<open>Xline\<close>), a scheduler (\<open>libscheduler\<close>), a node
  agent (\<open>rkl\<close>) with its runtime and network libraries, a distributed file system (\<open>slayerfs\<close>), a
  secrets engine (\<open>libvault\<close>) and tools. The development models the scheduler (the server feeds
  it pods and nodes through the watch loop, it chooses a node for each pod, and the server binds the pod), the
  sealing of the secrets engine (the master key is split into shares, and every entry of the storage is encrypted
  under it), the address allocation of the network library (each container gets one address of each range set) and
  the chunk storage of the file system (a write becomes a slice of blocks, a read puts the newest slices together).

  \<^bold>\<open>Theories and sources\<close> (paths under \<open>project/\<close>).
  \<^item> \<open>Rk8s_Prelude\<close>: machine integers, hash maps, parsing of integers, the contract of a keyed store.
  \<^item> \<open>F64\<close>: rational arithmetic with the rounding of \<open>f64\<close>.
  \<^item> \<open>Common_Types\<close>: \<open>common/src/lib.rs\<close>, the manifest types the scheduler reads, taints and conditions.
  \<^item> \<open>Sched_Models\<close>: \<open>libscheduler/src/models.rs\<close>, \<open>cycle_state.rs\<close>; selectors and their conversion.
  \<^item> \<open>Sched_Framework\<close>: \<open>plugins/mod.rs\<close>; traits as records of functions, statuses, events, normalisation.
  \<^item> \<open>Plugin_Resources\<close>, \<open>Plugin_Node\<close>, \<open>Plugin_Pod_Affinity\<close>, \<open>Gang_State\<close>: the ten plugins and the gang store.
  \<^item> \<open>Sched_Cache\<close>, \<open>Sched_Queue\<close>: \<open>cache.rs\<close> and the three queues of \<open>scheduler.rs\<close>.
  \<^item> \<open>Sched_Pipeline\<close>: the stages of a cycle; \<open>Scheduler\<close>: \<open>schedule_one\<close>, the watchdog and the handlers.
  \<^item> \<open>Sched_Feasible\<close>, \<open>Sched_Scoring\<close>, \<open>Sched_Choice\<close>: the stages replaced by definitions without stages and state.
  \<^item> \<open>Sched_Ledger\<close>: the cache as a ledger of integers; \<open>Sched_Step\<close>, \<open>Sched_Sound\<close>: the transition system
    and its invariants.
  \<^item> \<open>Sched_Xline\<close>: \<open>libscheduler/src/with_xline\<close>; quantities, conversions, the watch handlers and the reconnect
    loop around the scheduler.
  \<^item> \<open>Gf256\<close>, \<open>Vault_Shamir\<close>: \<open>libvault/src/shamir.rs\<close>; the byte tables as a field, splitting and combining.
  \<^item> \<open>Vault_Barrier\<close>: \<open>libvault/src/storage/barrier_aes_gcm.rs\<close>; \<open>Vault_Core\<close>: \<open>libvault/src/core.rs\<close>, initialisation, unsealing and
    sealing, over the two.
  \<^item> \<open>Ipam\<close>: \<open>libnetwork/src/ipam\<close>, ranges, store, iterator, allocator and commands, with the lemmas on the iterator;
    \<open>Ipam_Commands\<close>: the laws of IPv4 masks and the properties of the commands.
  \<^item> \<open>Slayer_Chunk\<close>: \<open>slayerfs/src/chunk\<close>, spans, intervals, block stores, uploader and fetcher; \<open>Slayer_Store\<close>: the tiling of a range
    by spans and the contract of a block store; \<open>Slayer_Data\<close>, \<open>Slayer_Upload\<close>: what a read and an upload do on any such store.
  \<^item> \<open>Sched_Properties\<close>, \<open>Sched_Safety\<close>, \<open>Sched_Refine\<close>, \<open>Sched_Behaviour\<close>: the properties, on the examples of
    \<open>Sched_Examples\<close>.

  \<^bold>\<open>Correspondence.\<close> A struct is a record, an enum a datatype, a \<open>dyn\<close> trait a record of functions. Unsigned
  integers are words and wrap, as they do in the release build; \<open>i64\<close> is \<open>int\<close> with the wrap written out. A
  \<open>HashMap\<close> is an association list with distinct keys whose order stands for the iteration order; the step
  \<open>Rehash\<close> permutes it at any time. A \<open>BinaryHeap\<close> is a list from which a greatest element is popped. An
  \<open>Instant\<close> is a number of nanoseconds and the clock is an argument. A panic is \<open>None\<close>. A handler runs
  under its locks and is one step; steps interleave freely (\<open>sched_step\<close>). In \<open>slayerfs\<close>, offsets and lengths are
  natural numbers and the wrap of \<open>u64\<close> sums, differences and products is written out (\<open>add64\<close>, \<open>sub64\<close>, \<open>mul64\<close>).

  \<^bold>\<open>Lemma groups.\<close> Locales state the contracts: \<open>keyed_store\<close> (maps), \<open>max_heap\<close> (the two heaps),
  \<open>bounded_scorer\<close> (scores in a range), \<open>filter_contract\<close> and \<open>prescore_contract\<close> (what a plugin writes to the cycle state
  and what its verdict means), each interpreted on the plugins' own functions. The composition lemmas
  of \<open>Sched_Feasible\<close> and \<open>Sched_Choice\<close> rest on these contracts only. \<open>reachable_wf\<close> and \<open>reachable_sound\<close>
  carry the invariants through every interleaving. In the vault, the type \<open>gf256\<close> is shown to be a field, so that a
  polynomial of degree below \<open>t\<close> is fixed by \<open>t\<close> values and not by fewer; the functions of the external crates (cipher, hashes,
  JSON) are a record of arguments with the laws \<open>ext_ok\<close>, those of the modules have \<open>hooks_ok\<close>. In the
  address allocation, \<open>slots\<close> lists the addresses of a range set; \<open>iter_step_at\<close> shows that the iterator walks along this
  list as a cycle, and \<open>add_loop_spec\<close> composes the allocations of the range sets. In the
  file system, \<open>block_store_contract\<close> states what the two block stores have in common and is interpreted on both;
  \<open>read_at_bytes\<close> and \<open>write_at_vectored_bytes\<close> describe a read and an upload byte by byte on any such store.

  \<^bold>\<open>Termination.\<close> The loop over the backoff heap terminates by the size of the heap. The iterator over addresses
  (\<open>iter_next\<close>) and the loop of the allocation (\<open>get_loop\<close>) need not end for every range set and are partial functions with
  \<open>None\<close> for a run without end; \<open>get_finds_free_address\<close> shows that they end on well-formed range sets. All other
  definitions are total and none uses fuel.

  \<^bold>\<open>Not modelled.\<close> The tokio runtime below the level of atomic handlers, logging, the etcd stream, \<open>serde\<close>
  parsing and I/O errors of the file system; in the vault, the policies, engines and backends above the barrier; in the
  network library, all that talks to the kernel; in the file system, the metadata stores, caches and the layers above chunks; and the other crates, which drive containers, file
  systems and external services.
\<close>

end
